(* ===== verification/Go_Prelude.thy ===== *)
theory Go_Prelude
  imports Main "HOL-Library.AList" "HOL-Library.Monad_Syntax" "HOL-Library.Char_ord" "HOL-Library.List_Lexorder"
begin

text \<open>
  Shared vocabulary of the development: how Go values that every package uses are
  represented, and the generic lemmas on association lists, strings and folds that the
  component theories rely on.

  \<^item> A Go string or byte slice is an Isabelle \<^typ>\<open>string\<close>: one \<^typ>\<open>char\<close> is one byte.
  \<^item> An \<^verbatim>\<open>error\<close> is a \<open>goerror\<close>; a function that returns \<^verbatim>\<open>(T, error)\<close> returns a sum
    whose left part is the error, a function that returns just \<^verbatim>\<open>error\<close> returns an option
    (\<^const>\<open>None\<close> is \<^verbatim>\<open>nil\<close>).
  \<^item> A run-time panic (a failed type assertion) is the \<open>Panic\<close> branch of \<open>outcome\<close>.
  \<^item> A Go map is an association list with distinct keys. The order of the list stands for
    one iteration order of \<^verbatim>\<open>range\<close>; statements quantify over the list, hence over every
    order.
\<close>

section \<open>Errors, results and panics\<close>

datatype goerror =
    ErrorString string
  | Wrapped string goerror
  | MultiError "goerror list"

type_synonym 'a result = "goerror + 'a"

datatype 'a outcome = Panic string | Ret 'a

type_synonym 'v gomap = "(string \<times> 'v) list"

named_theorems go_simps \<open>characteristic equations of the shared helpers\<close>

text \<open>\<^verbatim>\<open>multierror.Append\<close> collects errors in a list; \<^verbatim>\<open>ErrorOrNil\<close> of the empty collection is \<^verbatim>\<open>nil\<close>.\<close>

definition ErrorOrNil :: "goerror list \<Rightarrow> goerror option" where
  "ErrorOrNil errs = (if errs = [] then None else Some (MultiError errs))"

definition Append_error :: "goerror list \<Rightarrow> goerror option \<Rightarrow> goerror list" where
  "Append_error errs e = (case e of None \<Rightarrow> errs | Some e \<Rightarrow> errs @ [e])"

definition is_ok :: "'a result \<Rightarrow> bool" where
  "is_ok r = (case r of Inl _ \<Rightarrow> False | Inr _ \<Rightarrow> True)"

lemma is_ok_simps [simp]: "is_ok (Inr x)" "\<not> is_ok (Inl e)"
  by (simp_all add: is_ok_def)

lemma is_ok_iff: "is_ok r \<longleftrightarrow> (\<exists>x. r = Inr x)"
  by (cases r) simp_all

lemma not_is_ok_iff: "\<not> is_ok r \<longleftrightarrow> (\<exists>e. r = Inl e)"
  by (cases r) simp_all

section \<open>Go maps as association lists\<close>

definition go_keys :: "'v gomap \<Rightarrow> string list" where
  "go_keys m = map fst m"

definition wf_gomap :: "'v gomap \<Rightarrow> bool" where
  "wf_gomap m = distinct (map fst m)"

lemma wf_gomap_Nil [simp, intro]: "wf_gomap []"
  by (simp add: wf_gomap_def)

lemma wf_gomap_update [simp, intro]: "wf_gomap m \<Longrightarrow> wf_gomap (AList.update k v m)"
  by (simp add: wf_gomap_def distinct_update)

lemma wf_gomap_delete [simp, intro]: "wf_gomap m \<Longrightarrow> wf_gomap (AList.delete k m)"
  by (simp add: wf_gomap_def distinct_delete)

lemma map_of_update [go_simps]:
  "map_of (AList.update k v m) k' = (if k' = k then Some v else map_of m k')"
  by (simp add: update_conv')

lemma map_of_delete [go_simps]:
  "map_of (AList.delete k m) k' = (if k' = k then None else map_of m k')"
  by (simp add: delete_conv')

lemma map_of_rev_distinct: "distinct (map fst m) \<Longrightarrow> map_of (rev m) = map_of m"
  by (simp add: map_of_inject_set flip: rev_map)

text \<open>
  Writing all entries of one map into another: the loop
  \<^verbatim>\<open>for k, v := range m { dst[k] = f(v) }\<close>.
\<close>

fun put_all :: "('a \<Rightarrow> 'b) \<Rightarrow> 'a gomap \<Rightarrow> 'b gomap \<Rightarrow> 'b gomap" where
  "put_all f [] dst = dst"
| "put_all f ((k, v) # kvs) dst = put_all f kvs (AList.update k (f v) dst)"

lemma wf_gomap_put_all [simp, intro]: "wf_gomap dst \<Longrightarrow> wf_gomap (put_all f kvs dst)"
  by (induction f kvs dst rule: put_all.induct) simp_all

lemma map_of_put_all [go_simps]:
  assumes "wf_gomap kvs"
  shows "map_of (put_all f kvs dst) k =
    (case map_of kvs k of Some v \<Rightarrow> Some (f v) | None \<Rightarrow> map_of dst k)"
  using assms
proof (induction kvs arbitrary: dst)
  case Nil
  then show ?case by simp
next
  case (Cons p kvs)
  obtain k' v where p: "p = (k', v)" by (cases p)
  from Cons.prems p have wf: "wf_gomap kvs" and notin: "k' \<notin> fst ` set kvs"
    by (auto simp: wf_gomap_def)
  from notin have none: "map_of kvs k' = None" by (simp add: map_of_eq_None_iff)
  show ?case
    using Cons.IH [OF wf, of "AList.update k' (f v) dst"] none
    by (auto simp: p go_simps split: option.splits)
qed

lemma map_of_gomap_eq_None: "map_of m k = None \<longleftrightarrow> k \<notin> set (go_keys m)"
  by (simp add: go_keys_def map_of_eq_None_iff)

text \<open>Two maps with the same entries list the same entries once sorted by key.\<close>

lemma sorted_entries_unique:
  assumes "wf_gomap m" "wf_gomap m'" "map_of m = map_of m'"
  shows "sort_key fst m = sort_key fst m'"
proof -
  have eq: "set m = set m'"
    using assms map_of_inject_set [of m m'] by (simp add: wf_gomap_def)
  have inj: "inj_on fst (set m \<union> set m')"
    using assms eq by (simp add: wf_gomap_def distinct_map)
  have d: "distinct (sort_key fst m)" "distinct (sort_key fst m')"
    using assms by (auto simp: wf_gomap_def distinct_map)
  have dm: "distinct (map fst (sort_key fst m))" "distinct (map fst (sort_key fst m'))"
    using d inj eq by (auto simp: distinct_map)
  have "map fst (sort_key fst m) = map fst (sort_key fst m')"
    by (rule sorted_distinct_set_unique) (use dm eq in auto)
  then show ?thesis
    using inj by (intro map_inj_on [of fst]) auto
qed

section \<open>Running a list of steps that may fail\<close>

text \<open>
  The Go idiom \<^verbatim>\<open>for _, x := range xs { if err := step(x); err != nil { return err } }\<close>
  over a state: the first error stops the loop and keeps the state reached so far.
\<close>

fun each_until_error :: "('s \<Rightarrow> 'x \<Rightarrow> 's \<times> goerror option) \<Rightarrow> 's \<Rightarrow> 'x list \<Rightarrow> 's \<times> goerror option" where
  "each_until_error step s [] = (s, None)"
| "each_until_error step s (x # xs) =
     (case step s x of
        (s', None) \<Rightarrow> each_until_error step s' xs
      | (s', Some e) \<Rightarrow> (s', Some e))"

lemma each_until_error_invariant:
  assumes "each_until_error step s xs = (s', e)" "I s"
    and "\<And>s x s' e. x \<in> set xs \<Longrightarrow> I s \<Longrightarrow> step s x = (s', e) \<Longrightarrow> I s'"
  shows "I s'"
  using assms
proof (induction xs arbitrary: s)
  case Nil
  then show ?case by simp
next
  case (Cons x xs)
  obtain t r where t: "step s x = (t, r)" by (cases "step s x")
  from Cons.prems(2) Cons.prems(3) [OF _ _ t] have "I t" by simp
  show ?case
  proof (cases r)
    case None
    with Cons.prems(1) t have "each_until_error step t xs = (s', e)" by simp
    then show ?thesis by (rule Cons.IH [OF _ \<open>I t\<close>]) (use Cons.prems(3) in auto)
  next
    case (Some a)
    with Cons.prems(1) t \<open>I t\<close> show ?thesis by simp
  qed
qed

text \<open>A loop that runs to its end refines a fold, when each successful step refines one.\<close>

lemma each_until_error_refines:
  assumes "each_until_error step s xs = (s', None)"
    and "\<And>s x s'. x \<in> set xs \<Longrightarrow> step s x = (s', None) \<Longrightarrow> \<alpha> s' = g x (\<alpha> s)"
  shows "\<alpha> s' = fold g xs (\<alpha> s)"
  using assms
proof (induction xs arbitrary: s)
  case (Cons x xs)
  then obtain t where t: "step s x = (t, None)" "each_until_error step t xs = (s', None)"
    by (auto split: prod.splits option.splits)
  from Cons.IH [OF t(2)] Cons.prems(2) have "\<alpha> s' = fold g xs (\<alpha> t)" by simp
  with Cons.prems(2) [OF _ t(1)] show ?case by simp
qed simp

lemma each_until_error_all_ok:
  assumes "each_until_error step s xs = (s', None)" "x \<in> set xs"
  shows "\<exists>t t'. step t x = (t', None)"
  using assms by (induction xs arbitrary: s) (auto split: prod.splits option.splits)

lemma each_until_error_total:
  assumes "\<And>s x. x \<in> set xs \<Longrightarrow> \<exists>s'. step s x = (s', None)"
  shows "\<exists>s'. each_until_error step s xs = (s', None)"
  using assms
proof (induction xs arbitrary: s)
  case (Cons x xs)
  from Cons.prems obtain t where "step s x = (t, None)" by fastforce
  with Cons show ?case by simp
qed simp

section \<open>Strings\<close>

text \<open>\<^verbatim>\<open>strings.HasPrefix\<close> and \<^verbatim>\<open>strings.Split(s, " ")\<close>.\<close>

definition HasPrefix :: "string \<Rightarrow> string \<Rightarrow> bool" where
  "HasPrefix s pre = (take (length pre) s = pre)"

lemma HasPrefix_iff: "HasPrefix s pre \<longleftrightarrow> (\<exists>r. s = pre @ r)"
proof
  assume "HasPrefix s pre"
  then have "s = pre @ drop (length pre) s"
    using append_take_drop_id [of "length pre" s] by (simp add: HasPrefix_def)
  then show "\<exists>r. s = pre @ r" ..
qed (auto simp: HasPrefix_def)

fun split_on :: "char \<Rightarrow> string \<Rightarrow> string list" where
  "split_on d [] = [[]]"
| "split_on d (c # cs) =
     (if c = d then [] # split_on d cs
      else (case split_on d cs of [] \<Rightarrow> [[c]] | w # ws \<Rightarrow> (c # w) # ws))"

lemma split_on_not_Nil [simp]: "split_on d s \<noteq> []"
  by (cases s) (auto split: list.splits)

lemma split_on_no_sep: "d \<notin> set s \<Longrightarrow> split_on d s = [s]"
  by (induction s) auto

lemma split_on_append_sep:
  "d \<notin> set w \<Longrightarrow> split_on d (w @ d # s) = w # split_on d s"
  by (induction w) auto

text \<open>Decimal rendering, as \<^verbatim>\<open>%d\<close> and the JSON encoder print integers.\<close>

definition digit_char :: "nat \<Rightarrow> char" where
  "digit_char d = char_of (48 + d)"

definition is_digit :: "char \<Rightarrow> bool" where
  "is_digit c = (48 \<le> (of_char c :: nat) \<and> (of_char c :: nat) \<le> 57)"

definition digit_val :: "char \<Rightarrow> nat" where
  "digit_val c = of_char c - 48"

fun nat_str :: "nat \<Rightarrow> string" where
  "nat_str n = (if n < 10 then [digit_char n] else nat_str (n div 10) @ [digit_char (n mod 10)])"

declare nat_str.simps [simp del]

definition int_str :: "int \<Rightarrow> string" where
  "int_str i = (if i < 0 then CHR ''-'' # nat_str (nat (- i)) else nat_str (nat i))"

lemma digit_char_simps [simp]:
  "d < 10 \<Longrightarrow> is_digit (digit_char d)"
  "d < 10 \<Longrightarrow> digit_val (digit_char d) = d"
  by (simp_all add: is_digit_def digit_val_def digit_char_def)

definition digits_val :: "string \<Rightarrow> nat" where
  "digits_val s = foldl (\<lambda>a c. a * 10 + digit_val c) 0 s"

lemma digits_val_snoc: "digits_val (s @ [c]) = digits_val s * 10 + digit_val c"
  by (simp add: digits_val_def)

lemma digits_val_nat_str [simp]: "digits_val (nat_str n) = n"
proof (induction n rule: nat_str.induct)
  case (1 n)
  then show ?case
    by (subst nat_str.simps) (auto simp: digits_val_snoc, simp add: digits_val_def)
qed

lemma nat_str_digits: "list_all is_digit (nat_str n)"
proof (induction n rule: nat_str.induct)
  case (1 n)
  then show ?case by (subst nat_str.simps) auto
qed

lemma nat_str_not_Nil [simp]: "nat_str n \<noteq> []"
  by (subst nat_str.simps) auto

lemma nat_str_inj: "nat_str m = nat_str n \<Longrightarrow> m = n"
  by (metis digits_val_nat_str)

text \<open>The first digit is not zero unless the number is zero: no leading zeros are printed.\<close>

lemma nat_str_hd: "0 < n \<Longrightarrow> \<exists>d ds. nat_str n = digit_char d # ds \<and> 0 < d \<and> d < 10"
proof (induction n rule: nat_str.induct)
  case (1 n)
  show ?case
  proof (cases "n < 10")
    case True
    with "1.prems" show ?thesis by (subst nat_str.simps) auto
  next
    case False
    then have "0 < n div 10" by auto
    with "1.IH" [OF False] obtain d ds
      where "nat_str (n div 10) = digit_char d # ds" "0 < d" "d < 10" by blast
    with False show ?thesis by (subst nat_str.simps) auto
  qed
qed

lemma nat_str_0: "nat_str 0 = [digit_char 0]"
  by (simp add: nat_str.simps)

section \<open>Interleaved goroutines\<close>

text \<open>
  Goroutines that run side by side are a step relation on their joint state. What every step
  keeps holds in every state a run reaches.
\<close>

locale transition_invariant =
  fixes step :: "'s \<Rightarrow> 's \<Rightarrow> bool" and inv :: "'s \<Rightarrow> bool"
  assumes preserved: "step s s' \<Longrightarrow> inv s \<Longrightarrow> inv s'"
begin

lemma reachable: "step\<^sup>*\<^sup>* s s' \<Longrightarrow> inv s \<Longrightarrow> inv s'"
  by (induction rule: rtranclp_induct) (simp_all add: preserved)

lemma after_steps: "(step ^^ n) s s' \<Longrightarrow> inv s \<Longrightarrow> inv s'"
  by (blast intro: reachable relpowp_imp_rtranclp)

end

text \<open>
  A step relation in which every step takes one of the steps the goroutines have left: the
  length of a run is what it has used up, and each can be continued until no step is possible.
\<close>

locale counted_transitions =
  fixes step :: "'s \<Rightarrow> 's \<Rightarrow> bool" and left :: "'s \<Rightarrow> nat"
  assumes counted: "step s s' \<Longrightarrow> Suc (left s') = left s"
begin

lemma run_length: "(step ^^ n) s s' \<Longrightarrow> n + left s' = left s"
proof (induction n arbitrary: s')
  case (Suc n)
  from Suc.prems obtain t where "(step ^^ n) s t" "step t s'" by auto
  with Suc.IH [of t] counted [of t s'] show ?case by simp
qed simp

lemma run_ends: "\<exists>s'. step\<^sup>*\<^sup>* s s' \<and> (\<nexists>t. step s' t)"
proof (induction "left s" arbitrary: s rule: less_induct)
  case less
  show ?case
  proof (cases "\<exists>t. step s t")
    case True
    then obtain t where t: "step s t" ..
    from counted [OF t] have "left t < left s" by simp
    from less [OF this] obtain s' where "step\<^sup>*\<^sup>* t s'" "\<nexists>t. step s' t" by blast
    with t show ?thesis by (blast intro: converse_rtranclp_into_rtranclp)
  qed blast
qed

end

end
