(* ===== verification/Go_Json_Text.thy ===== *)
theory Go_Json_Text
  imports Go_Prelude
begin

text \<open>
  The text level of Go's \<^verbatim>\<open>encoding/json\<close>, as far as the program uses it: documents, the
  compact encoder (\<^verbatim>\<open>json.Marshal\<close>), the decoder's scanner, and the theorem that scanning
  what the encoder wrote gives the document back, whatever text follows it.

  A number literal without fraction and exponent is \<open>JNum\<close>; any other number literal is
  kept as text (\<open>JFrac\<close>). Strings are valid UTF-8, one \<^typ>\<open>char\<close> per byte: the encoder's
  replacement of invalid bytes is not modelled.
\<close>

section \<open>Documents\<close>

datatype json =
    JNull
  | JBool bool
  | JNum int
  | JFrac string
  | JStr string
  | JArr "json list"
  | JObj "(string \<times> json) list"

section \<open>Encoding\<close>

definition dq :: char where "dq = CHR 0x22"
definition bslash :: char where "bslash = CHR 0x5C"

definition hex_digit :: "nat \<Rightarrow> char" where
  "hex_digit n = (if n < 10 then char_of (48 + n) else char_of (87 + n))"

text \<open>\<^verbatim>\<open>htmlSafeSet\<close>: quotes, the backslash, control characters and the three HTML characters
  are escaped.\<close>

definition escape_char :: "char \<Rightarrow> string" where
  "escape_char c =
     (if c = dq then [bslash, dq]
      else if c = bslash then [bslash, bslash]
      else if c = CHR 0x0A then [bslash, CHR ''n'']
      else if c = CHR 0x0D then [bslash, CHR ''r'']
      else if c = CHR 0x09 then [bslash, CHR ''t'']
      else if (of_char c :: nat) < 32 \<or> c = CHR ''<'' \<or> c = CHR ''>'' \<or> c = CHR ''&''
      then [bslash, CHR ''u'', CHR ''0'', CHR ''0'',
            hex_digit (of_char c div 16), hex_digit (of_char c mod 16)]
      else [c])"

fun escape_str :: "string \<Rightarrow> string" where
  "escape_str [] = []"
| "escape_str (c # cs) = escape_char c @ escape_str cs"

definition print_str :: "string \<Rightarrow> string" where
  "print_str s = dq # escape_str s @ [dq]"

fun print_json :: "json \<Rightarrow> string"
  and print_elems :: "json list \<Rightarrow> string"
  and print_field :: "string \<times> json \<Rightarrow> string"
  and print_fields :: "(string \<times> json) list \<Rightarrow> string" where
  "print_json JNull = ''null''"
| "print_json (JBool b) = (if b then ''true'' else ''false'')"
| "print_json (JNum n) = int_str n"
| "print_json (JFrac l) = l"
| "print_json (JStr s) = print_str s"
| "print_json (JArr js) = CHR ''['' # print_elems js"
| "print_json (JObj kvs) = CHR ''{'' # print_fields kvs"
| "print_elems [] = '']''"
| "print_elems (j # js) = print_json j @ (if js = [] then '']'' else CHR '','' # print_elems js)"
| "print_field (k, j) = print_str k @ CHR '':'' # print_json j"
| "print_fields [] = ''}''"
| "print_fields (f # fs) = print_field f @ (if fs = [] then ''}'' else CHR '','' # print_fields fs)"

section \<open>Decoding\<close>

definition is_ws :: "char \<Rightarrow> bool" where
  "is_ws c = (c = CHR '' '' \<or> c = CHR 0x09 \<or> c = CHR 0x0A \<or> c = CHR 0x0D)"

definition skip_ws :: "string \<Rightarrow> string" where
  "skip_ws s = dropWhile is_ws s"

definition hex_val :: "char \<Rightarrow> nat option" where
  "hex_val c =
     (let n = (of_char c :: nat) in
      if 48 \<le> n \<and> n \<le> 57 then Some (n - 48)
      else if 97 \<le> n \<and> n \<le> 102 then Some (n - 87)
      else if 65 \<le> n \<and> n \<le> 70 then Some (n - 55)
      else None)"

definition hex4 :: "string \<Rightarrow> (nat \<times> string) option" where
  "hex4 s =
     (case s of
        a # b # c # d # r \<Rightarrow>
          do { w \<leftarrow> hex_val a; x \<leftarrow> hex_val b; y \<leftarrow> hex_val c; z \<leftarrow> hex_val d;
               Some (((w * 16 + x) * 16 + y) * 16 + z, r) }
      | _ \<Rightarrow> None)"

text \<open>UTF-8 encoding of a code point, as \<^verbatim>\<open>utf8.EncodeRune\<close>.\<close>

definition utf8_encode :: "nat \<Rightarrow> string" where
  "utf8_encode n =
     (if n < 128 then [char_of n]
      else if n < 2048 then [char_of (192 + n div 64), char_of (128 + n mod 64)]
      else if n < 65536 then
        [char_of (224 + n div 4096), char_of (128 + n div 64 mod 64), char_of (128 + n mod 64)]
      else [char_of (240 + n div 262144), char_of (128 + n div 4096 mod 64),
            char_of (128 + n div 64 mod 64), char_of (128 + n mod 64)])"

definition simple_escape :: "char \<Rightarrow> char option" where
  "simple_escape c =
     (if c = dq \<or> c = bslash \<or> c = CHR ''/'' then Some c
      else if c = CHR ''b'' then Some (CHR 0x08)
      else if c = CHR ''f'' then Some (CHR 0x0C)
      else if c = CHR ''n'' then Some (CHR 0x0A)
      else if c = CHR ''r'' then Some (CHR 0x0D)
      else if c = CHR ''t'' then Some (CHR 0x09)
      else None)"

text \<open>
  One \<^verbatim>\<open>\uXXXX\<close> escape: a high surrogate followed by an escaped low surrogate is one code
  point, any other surrogate becomes U+FFFD.
\<close>

definition unicode_escape :: "string \<Rightarrow> (string \<times> string) option" where
  "unicode_escape s =
     do { (n, r) \<leftarrow> hex4 s;
          if n < 55296 \<or> 57344 \<le> n then Some (utf8_encode n, r)
          else if n < 56320 \<and> take 2 r = [bslash, CHR ''u''] then
            (case hex4 (drop 2 r) of
               Some (m, r') \<Rightarrow>
                 if 56320 \<le> m \<and> m < 57344
                 then Some (utf8_encode (65536 + (n - 55296) * 1024 + (m - 56320)), r')
                 else Some (utf8_encode 65533, r)
             | None \<Rightarrow> Some (utf8_encode 65533, r))
          else Some (utf8_encode 65533, r) }"

text \<open>The characters of a string literal up to its closing quote, with that many steps.\<close>

fun parse_chars :: "nat \<Rightarrow> string \<Rightarrow> (string \<times> string) option" where
  "parse_chars 0 s = None"
| "parse_chars (Suc n) [] = None"
| "parse_chars (Suc n) (c # cs) =
     (if c = dq then Some ([], cs)
      else if c = bslash then
        (case cs of
           [] \<Rightarrow> None
         | e # r \<Rightarrow>
             if e = CHR ''u'' then
               do { (x, r') \<leftarrow> unicode_escape r; (y, r'') \<leftarrow> parse_chars n r'; Some (x @ y, r'') }
             else
               do { x \<leftarrow> simple_escape e; (y, r') \<leftarrow> parse_chars n r; Some (x # y, r') })
      else if (of_char c :: nat) < 32 then None
      else do { (y, r) \<leftarrow> parse_chars n cs; Some (c # y, r) })"

text \<open>A literal's opening quote has been read; every step consumes a character.\<close>

definition parse_str :: "string \<Rightarrow> (string \<times> string) option" where
  "parse_str s = parse_chars (length s) s"

text \<open>A number literal: an integer part without leading zeros, then perhaps fraction and exponent.\<close>

definition parse_exponent :: "string \<Rightarrow> (string \<times> string) option" where
  "parse_exponent s =
     (case s of
        c # cs \<Rightarrow>
          if c = CHR ''e'' \<or> c = CHR ''E'' then
            (let (sg, r) = (case cs of
                              d # r \<Rightarrow> if d = CHR ''+'' \<or> d = CHR ''-'' then ([d], r) else ([], cs)
                            | [] \<Rightarrow> ([], []));
                 ds = takeWhile is_digit r
             in if ds = [] then None else Some (c # sg @ ds, dropWhile is_digit r))
          else Some ([], s)
      | [] \<Rightarrow> Some ([], []))"

definition parse_fraction :: "string \<Rightarrow> (string \<times> string) option" where
  "parse_fraction s =
     (case s of
        c # cs \<Rightarrow>
          if c = CHR ''.'' then
            (let ds = takeWhile is_digit cs
             in if ds = [] then None else Some (c # ds, dropWhile is_digit cs))
          else Some ([], s)
      | [] \<Rightarrow> Some ([], []))"

definition int_part :: "string \<Rightarrow> (string \<times> string) option" where
  "int_part s =
     (case s of
        [] \<Rightarrow> None
      | c # cs \<Rightarrow>
          if c = CHR ''0'' then Some ([c], cs)
          else if is_digit c then Some (takeWhile is_digit s, dropWhile is_digit s)
          else None)"

definition parse_number :: "string \<Rightarrow> (json \<times> string) option" where
  "parse_number s =
     (let neg = (case s of c # _ \<Rightarrow> c = CHR ''-'' | [] \<Rightarrow> False);
          body = (if neg then tl s else s)
      in do { (ip, r) \<leftarrow> int_part body; (fr, r') \<leftarrow> parse_fraction r; (ex, r'') \<leftarrow> parse_exponent r';
              Some (if fr = [] \<and> ex = []
                    then JNum (if neg then - int (digits_val ip) else int (digits_val ip))
                    else JFrac ((if neg then ''-'' else []) @ ip @ fr @ ex), r'') })"

definition strip :: "string \<Rightarrow> string \<Rightarrow> string option" where
  "strip w s = (if take (length w) s = w then Some (drop (length w) s) else None)"

text \<open>Values. The first argument bounds the number of nested calls.\<close>

fun parse_value :: "nat \<Rightarrow> string \<Rightarrow> (json \<times> string) option"
  and parse_elems :: "nat \<Rightarrow> string \<Rightarrow> (json list \<times> string) option"
  and parse_field :: "nat \<Rightarrow> string \<Rightarrow> ((string \<times> json) \<times> string) option"
  and parse_fields :: "nat \<Rightarrow> string \<Rightarrow> ((string \<times> json) list \<times> string) option" where
  "parse_value 0 s = None"
| "parse_value (Suc n) s =
     (case skip_ws s of
        [] \<Rightarrow> None
      | c # cs \<Rightarrow>
          if c = dq then do { (x, r) \<leftarrow> parse_str cs; Some (JStr x, r) }
          else if c = CHR ''['' then
            (case skip_ws cs of
               [] \<Rightarrow> None
             | d # r \<Rightarrow> if d = CHR '']'' then Some (JArr [], r)
                        else do { (js, r') \<leftarrow> parse_elems n cs; Some (JArr js, r') })
          else if c = CHR ''{'' then
            (case skip_ws cs of
               [] \<Rightarrow> None
             | d # r \<Rightarrow> if d = CHR ''}'' then Some (JObj [], r)
                        else do { (kvs, r') \<leftarrow> parse_fields n cs; Some (JObj kvs, r') })
          else if c = CHR ''n'' then map_option (Pair JNull) (strip ''null'' (c # cs))
          else if c = CHR ''t'' then map_option (Pair (JBool True)) (strip ''true'' (c # cs))
          else if c = CHR ''f'' then map_option (Pair (JBool False)) (strip ''false'' (c # cs))
          else parse_number (c # cs))"
| "parse_elems 0 s = None"
| "parse_elems (Suc n) s =
     do { (j, r) \<leftarrow> parse_value n s;
          (case skip_ws r of
             [] \<Rightarrow> None
           | c # r' \<Rightarrow>
               if c = CHR '']'' then Some ([j], r')
               else if c = CHR '','' then do { (js, r'') \<leftarrow> parse_elems n r'; Some (j # js, r'') }
               else None) }"
| "parse_field 0 s = None"
| "parse_field (Suc n) s =
     (case skip_ws s of
        [] \<Rightarrow> None
      | c # cs \<Rightarrow>
          if c = dq then
            do { (k, r) \<leftarrow> parse_str cs;
                 (case skip_ws r of
                    [] \<Rightarrow> None
                  | d # r' \<Rightarrow> if d = CHR '':'' then do { (j, r'') \<leftarrow> parse_value n r'; Some ((k, j), r'') }
                              else None) }
          else None)"
| "parse_fields 0 s = None"
| "parse_fields (Suc n) s =
     do { (f, r) \<leftarrow> parse_field n s;
          (case skip_ws r of
             [] \<Rightarrow> None
           | c # r' \<Rightarrow>
               if c = CHR ''}'' then Some ([f], r')
               else if c = CHR '','' then do { (fs, r'') \<leftarrow> parse_fields n r'; Some (f # fs, r'') }
               else None) }"

definition parse_json :: "string \<Rightarrow> json option" where
  "parse_json s =
     (case parse_value (Suc (length s)) s of
        Some (j, r) \<Rightarrow> if skip_ws r = [] then Some j else None
      | None \<Rightarrow> None)"

section \<open>Scanning what was encoded\<close>


lemma hex_val_hex_digit: "k < 16 \<Longrightarrow> hex_val (hex_digit k) = Some k"
  by (auto simp: hex_val_def hex_digit_def Let_def)

lemma simple_escape_simps [simp]:
  "simple_escape dq = Some dq" "simple_escape bslash = Some bslash"
  "simple_escape (CHR ''n'') = Some (CHR 0x0A)" "simple_escape (CHR ''r'') = Some (CHR 0x0D)"
  "simple_escape (CHR ''t'') = Some (CHR 0x09)"
  by (simp_all add: simple_escape_def dq_def bslash_def)

lemma unicode_escape_low:
  assumes "(of_char c :: nat) < 128"
  shows "unicode_escape (CHR ''0'' # CHR ''0'' # hex_digit (of_char c div 16) # hex_digit (of_char c mod 16) # t)
    = Some ([c], t)"
proof -
  have d: "(of_char c :: nat) div 16 < 16" using assms by simp
  have m: "(of_char c :: nat) mod 16 < 16" by simp
  have z: "hex_val (CHR ''0'') = Some 0" by (simp add: hex_val_def)
  have "hex4 (CHR ''0'' # CHR ''0'' # hex_digit (of_char c div 16) # hex_digit (of_char c mod 16) # t)
      = Some (of_char c, t)"
    unfolding hex4_def list.case z hex_val_hex_digit [OF d] hex_val_hex_digit [OF m] by simp
  with assms show ?thesis by (simp add: unicode_escape_def utf8_encode_def)
qed

lemma special_chars_distinct [simp]:
  "dq \<noteq> bslash" "bslash \<noteq> dq"
  by (simp_all add: dq_def bslash_def)

lemma parse_chars_escape:
  "parse_chars (Suc n) (escape_char c @ t) = do { (y, r) \<leftarrow> parse_chars n t; Some (c # y, r) }"
proof -
  consider (simple) "c = dq \<or> c = bslash \<or> c = CHR 0x0A \<or> c = CHR 0x0D \<or> c = CHR 0x09"
    | (unicode) "\<not> (c = dq \<or> c = bslash \<or> c = CHR 0x0A \<or> c = CHR 0x0D \<or> c = CHR 0x09)"
        "(of_char c :: nat) < 32 \<or> c = CHR ''<'' \<or> c = CHR ''>'' \<or> c = CHR ''&''"
    | (plain) "\<not> (c = dq \<or> c = bslash \<or> c = CHR 0x0A \<or> c = CHR 0x0D \<or> c = CHR 0x09)"
        "\<not> ((of_char c :: nat) < 32 \<or> c = CHR ''<'' \<or> c = CHR ''>'' \<or> c = CHR ''&'')"
    by blast
  then show ?thesis
  proof cases
    case simple
    then show ?thesis
      by (elim disjE) (simp_all add: escape_char_def, simp_all add: dq_def bslash_def)
  next
    case unicode
    then have e: "escape_char c = [bslash, CHR ''u'', CHR ''0'', CHR ''0'',
            hex_digit (of_char c div 16), hex_digit (of_char c mod 16)]"
      unfolding escape_char_def by simp
    from unicode(2) have "(of_char c :: nat) < 128" by auto
    from unicode_escape_low [OF this] show ?thesis by (simp add: e)
  next
    case plain
    then show ?thesis by (simp add: escape_char_def)
  qed
qed

lemma parse_chars_escape_str:
  "length s < n \<Longrightarrow> parse_chars n (escape_str s @ dq # t) = Some (s, t)"
proof (induction s arbitrary: n)
  case Nil
  then show ?case by (cases n) auto
next
  case (Cons c s)
  then obtain m where "n = Suc m" "length s < m" by (cases n) auto
  with Cons.IH show ?case by (simp add: parse_chars_escape)
qed

lemma escape_char_length: "1 \<le> length (escape_char c)"
  by (simp add: escape_char_def)

lemma escape_str_length: "length s \<le> length (escape_str s)"
proof (induction s)
  case (Cons c s)
  then show ?case using escape_char_length [of c] by simp
qed simp

lemma parse_str_print: "parse_str (escape_str s @ dq # t) = Some (s, t)"
  unfolding parse_str_def using escape_str_length [of s] by (intro parse_chars_escape_str) simp

text \<open>Numbers: what follows a printed number must not continue the literal.\<close>

definition stops :: "string \<Rightarrow> bool" where
  "stops s = (case s of [] \<Rightarrow> True
     | c # _ \<Rightarrow> \<not> is_digit c \<and> c \<noteq> CHR ''.'' \<and> c \<noteq> CHR ''e'' \<and> c \<noteq> CHR ''E'')"

lemma stops_simps [simp]:
  "stops []" "stops (CHR '','' # s)" "stops (CHR '']'' # s)" "stops (CHR ''}'' # s)"
  by (simp_all add: stops_def is_digit_def)

lemma stops_tail: "stops s \<Longrightarrow> parse_fraction s = Some ([], s) \<and> parse_exponent s = Some ([], s)"
  by (cases s) (simp_all add: stops_def parse_fraction_def parse_exponent_def)

lemma int_part_nat_str:
  assumes "stops t"
  shows "int_part (nat_str n @ t) = Some (nat_str n, t)"
proof (cases "n = 0")
  case True
  have "(of_char (digit_char 0) :: nat) = of_char (CHR ''0'')" by (simp add: digit_char_def)
  then have "digit_char 0 = CHR ''0''" by (simp only: of_char_eq_iff)
  with True show ?thesis by (simp add: nat_str_0 int_part_def)
next
  case False
  then obtain d ds where ds: "nat_str n = digit_char d # ds" "0 < d" "d < 10"
    using nat_str_hd by blast
  have nz: "digit_char d \<noteq> CHR ''0''"
  proof
    assume "digit_char d = CHR ''0''"
    then have "d = digit_val (CHR ''0'')" using ds digit_char_simps(2) [of d] by simp
    with ds show False by (simp add: digit_val_def)
  qed
  have all: "\<And>x. x \<in> set (nat_str n) \<Longrightarrow> is_digit x"
    using nat_str_digits [of n] by (simp add: list_all_iff)
  have nt: "takeWhile is_digit t = []" "dropWhile is_digit t = t"
    using assms by (cases t; simp add: stops_def)+
  have "takeWhile is_digit (nat_str n @ t) = nat_str n" "dropWhile is_digit (nat_str n @ t) = t"
    using all nt by (simp_all add: takeWhile_append2 dropWhile_append2)
  with ds nz show ?thesis by (simp add: int_part_def)
qed

lemma nat_str_hd_digit: "is_digit (hd (nat_str n))"
  using nat_str_digits [of n] by (cases "nat_str n") auto

lemma parse_number_int_str:
  assumes "stops t"
  shows "parse_number (int_str i @ t) = Some (JNum i, t)"
proof -
  obtain c cs where c: "nat_str (nat i) = c # cs" by (cases "nat_str (nat i)") auto
  with nat_str_hd_digit [of "nat i"] have "c \<noteq> CHR ''-''" by (auto simp: is_digit_def)
  with c assms show ?thesis
    using int_part_nat_str [OF assms, of "nat i"] int_part_nat_str [OF assms, of "nat (- i)"]
      digits_val_nat_str [of "nat i"]
    by (auto simp: parse_number_def int_str_def Let_def stops_tail)
qed

text \<open>Documents without fractions or exponents: what the program itself encodes.\<close>

fun int_json :: "json \<Rightarrow> bool" where
  "int_json (JFrac _) = False"
| "int_json (JArr js) = list_all int_json js"
| "int_json (JObj kvs) = list_all (\<lambda>kv. int_json (snd kv)) kvs"
| "int_json _ = True"

lemma skip_ws_nonws: "\<not> is_ws c \<Longrightarrow> skip_ws (c # s) = c # s"
  by (simp add: skip_ws_def)

lemma not_ws_simps [simp]:
  "\<not> is_ws dq" "\<not> is_ws (CHR ''['')" "\<not> is_ws (CHR '']'')" "\<not> is_ws (CHR ''{'')"
  "\<not> is_ws (CHR ''}'')" "\<not> is_ws (CHR '','')" "\<not> is_ws (CHR '':'')" "\<not> is_ws (CHR ''n'')"
  "\<not> is_ws (CHR ''t'')" "\<not> is_ws (CHR ''f'')"
  by (simp_all add: is_ws_def dq_def)

lemma int_str_cases: "\<exists>c cs. int_str i = c # cs \<and> (c = CHR ''-'' \<or> is_digit c)"
proof -
  obtain c cs where "nat_str (nat i) = c # cs" "is_digit c"
    using nat_str_hd_digit [of "nat i"] by (cases "nat_str (nat i)") auto
  then show ?thesis by (auto simp: int_str_def)
qed

lemma parse_value_number:
  assumes "stops t" "0 < n"
  shows "parse_value n (int_str i @ t) = Some (JNum i, t)"
proof -
  obtain m where n: "n = Suc m" using assms(2) by (cases n) auto
  obtain c cs where c: "int_str i = c # cs" "c = CHR ''-'' \<or> is_digit c"
    using int_str_cases by blast
  then have "\<not> is_ws c" and "c \<noteq> dq" "c \<noteq> CHR ''[''" "c \<noteq> CHR ''{''" "c \<noteq> CHR ''n''"
    "c \<noteq> CHR ''t''" "c \<noteq> CHR ''f''"
    by (auto simp: is_ws_def is_digit_def dq_def)
  then have "parse_value n (int_str i @ t) = parse_number (int_str i @ t)"
    by (simp add: n c skip_ws_nonws)
  with parse_number_int_str [OF assms(1)] show ?thesis by simp
qed

lemma print_json_start:
  assumes "int_json j"
  shows "\<exists>c cs. print_json j = c # cs \<and> \<not> is_ws c \<and> c \<noteq> CHR '']''"
proof (cases j)
  case (JNum i)
  then show ?thesis using int_str_cases [of i] by (auto simp: is_ws_def is_digit_def)
qed (use assms in \<open>simp_all add: print_str_def is_ws_def dq_def\<close>)

lemma print_elems_start:
  assumes "js \<noteq> []" "list_all int_json js"
  shows "\<exists>c cs. print_elems js = c # cs \<and> \<not> is_ws c \<and> c \<noteq> CHR '']''"
  using assms print_json_start [of "hd js"] by (cases js) auto

lemma print_fields_start: "fs \<noteq> [] \<Longrightarrow> \<exists>cs. print_fields fs = dq # cs"
  by (cases fs; cases "hd fs") (simp_all add: print_str_def)

lemma parse_value_array:
  assumes "list_all int_json js"
    and "js \<noteq> [] \<Longrightarrow> parse_elems m (print_elems js @ t) = Some (js, t)"
  shows "parse_value (Suc m) (print_json (JArr js) @ t) = Some (JArr js, t)"
proof (cases "js = []")
  case True
  then show ?thesis by (simp add: skip_ws_nonws dq_def)
next
  case False
  with assms(1) obtain c cs where "print_elems js = c # cs" "\<not> is_ws c" "c \<noteq> CHR '']''"
    using print_elems_start by blast
  with assms(2) [OF False] show ?thesis by (simp add: skip_ws_nonws dq_def)
qed

lemma parse_value_object:
  assumes "kvs \<noteq> [] \<Longrightarrow> parse_fields m (print_fields kvs @ t) = Some (kvs, t)"
  shows "parse_value (Suc m) (print_json (JObj kvs) @ t) = Some (JObj kvs, t)"
proof (cases "kvs = []")
  case True
  then show ?thesis by (simp add: skip_ws_nonws dq_def)
next
  case False
  then obtain cs where "print_fields kvs = dq # cs"
    using print_fields_start by blast
  with assms [OF False] show ?thesis by (simp add: skip_ws_nonws) (simp add: dq_def)
qed

lemma parse_print_value:
  "int_json j \<Longrightarrow> stops t \<Longrightarrow> length (print_json j) \<le> n \<Longrightarrow>
     parse_value n (print_json j @ t) = Some (j, t)"
  "js \<noteq> [] \<Longrightarrow> list_all int_json js \<Longrightarrow> length (print_elems js) \<le> n \<Longrightarrow>
     parse_elems n (print_elems js @ t) = Some (js, t)"
  "int_json (snd f) \<Longrightarrow> stops t \<Longrightarrow> length (print_field f) \<le> n \<Longrightarrow>
     parse_field n (print_field f @ t) = Some (f, t)"
  "fs \<noteq> [] \<Longrightarrow> list_all (\<lambda>kv. int_json (snd kv)) fs \<Longrightarrow> length (print_fields fs) \<le> n \<Longrightarrow>
     parse_fields n (print_fields fs @ t) = Some (fs, t)"
proof (induction j and js and f and fs arbitrary: n t and n t and n t and n t
    rule: print_json_print_elems_print_field_print_fields.induct)
  case 1
  then show ?case by (cases n) (simp_all add: skip_ws_nonws strip_def dq_def)
next
  case (2 b)
  then show ?case by (cases n; cases b) (simp_all add: skip_ws_nonws strip_def dq_def)
next
  case (3 i)
  have "0 < n" using 3 int_str_cases [of i] by auto
  with 3 show ?case by (simp add: parse_value_number)
next
  case (4 l)
  then show ?case by simp
next
  case (5 s)
  then show ?case
    by (cases n) (simp_all add: print_str_def skip_ws_nonws parse_str_print)
next
  case (6 js)
  then obtain m where n: "n = Suc m" by (cases n) auto
  show ?case
    unfolding n by (rule parse_value_array) (use 6 n in simp_all)
next
  case (7 kvs)
  then obtain m where n: "n = Suc m" by (cases n) auto
  show ?case
    unfolding n by (rule parse_value_object) (use 7 n in simp_all)
next
  case 8
  then show ?case by simp
next
  case (9 j js)
  obtain m where n: "n = Suc m" using 9(5) by (cases n) (auto split: if_splits)
  have "parse_value m (print_json j @ x) = Some (j, x)" if "stops x" for x
    using 9 that n by (auto split: if_splits)
  moreover have "parse_elems m (print_elems js @ t) = Some (js, t)" if "js \<noteq> []"
    using 9 that n by auto
  ultimately show ?case by (auto simp: n skip_ws_nonws)
next
  case (10 k j)
  obtain m where n: "n = Suc m" using 10(4) by (cases n) (auto simp: print_str_def)
  have "parse_value m (print_json j @ t) = Some (j, t)"
    using 10 n by (auto simp: print_str_def)
  then show ?case by (simp add: n print_str_def skip_ws_nonws parse_str_print)
next
  case 11
  then show ?case by simp
next
  case (12 f fs)
  obtain m where n: "n = Suc m" using 12(5) by (cases n) (auto split: if_splits)
  have "parse_field m (print_field f @ x) = Some (f, x)" if "stops x" for x
    using 12 that n by (auto split: if_splits)
  moreover have "parse_fields m (print_fields fs @ t) = Some (fs, t)" if "fs \<noteq> []"
    using 12 that n by auto
  ultimately show ?case by (auto simp: n skip_ws_nonws)
qed

lemma parse_print_json: "int_json j \<Longrightarrow> parse_json (print_json j) = Some j"
  using parse_print_value(1) [of j "[]" "Suc (length (print_json j))"]
  by (simp add: parse_json_def skip_ws_def)


section \<open>The step bound is enough\<close>

text \<open>Every scanner consumes input, so a bound equal to the length of the input is never the
  reason for a rejection.\<close>

lemma hex4_shorter: "hex4 s = Some (n, r) \<Longrightarrow> length s = length r + 4"
  by (auto simp: hex4_def split: list.splits Option.bind_splits)

lemma unicode_escape_shorter: "unicode_escape s = Some (x, r) \<Longrightarrow> length r < length s"
  by (auto simp: unicode_escape_def dest!: hex4_shorter split: Option.bind_splits option.splits if_splits)

lemma parse_chars_shorter: "parse_chars n s = Some (x, r) \<Longrightarrow> length r < length s"
proof (induction n arbitrary: s x r)
  case (Suc n)
  then obtain c cs where s: "s = c # cs" by (cases s) auto
  consider "c = dq" | "c = bslash" "cs = []" | e t where "c = bslash" "cs = e # t" "e = CHR ''u''"
    | e t where "c = bslash" "cs = e # t" "e \<noteq> CHR ''u''" | "c \<noteq> dq" "c \<noteq> bslash" by (cases cs) auto
  then show ?case
  proof cases
    case (3 e t)
    with s Suc.prems obtain a b y where u: "unicode_escape t = Some (a, b)"
      and r: "parse_chars n b = Some (y, r)" by (auto split: Option.bind_splits)
    from Suc.IH [OF r] unicode_escape_shorter [OF u] 3 s show ?thesis by simp
  next
    case (4 e t)
    with s Suc.prems obtain y where r: "parse_chars n t = Some (y, r)"
      by (auto split: Option.bind_splits)
    from Suc.IH [OF r] 4 s show ?thesis by simp
  next
    case 5
    with s Suc.prems obtain y where r: "parse_chars n cs = Some (y, r)"
      by (auto split: Option.bind_splits if_splits)
    from Suc.IH [OF r] s show ?thesis by simp
  qed (use s Suc.prems in auto)
qed simp

lemma parse_chars_fuel:
  "parse_chars m s = Some p \<Longrightarrow> length s \<le> n \<Longrightarrow> parse_chars n s = Some p"
proof (induction m arbitrary: s n p)
  case (Suc m)
  then obtain c cs where s: "s = c # cs" by (cases s) auto
  with Suc.prems obtain k where n: "n = Suc k" "length cs \<le> k" by (cases n) auto
  have IH: "parse_chars k t = Some q" if "parse_chars m t = Some q" "length t \<le> length cs" for t q
    by (rule Suc.IH [OF that(1)]) (use that n in simp)
  consider "c = dq" | "c = bslash" "cs = []" | e t where "c = bslash" "cs = e # t"
    | "c \<noteq> dq" "c \<noteq> bslash" by (cases cs) auto
  then show ?case
  proof cases
    case (3 e t)
    show ?thesis
    proof (cases "e = CHR ''u''")
      case True
      with 3 s Suc.prems(1) obtain x r y r' where u: "unicode_escape t = Some (x, r)"
        and r: "parse_chars m r = Some (y, r')" "p = (x @ y, r')"
        by (auto split: Option.bind_splits)
      have "parse_chars k r = Some (y, r')"
        using IH [OF r(1)] unicode_escape_shorter [OF u] 3 by simp
      with 3 True u r(2) s n(1) show ?thesis by simp
    next
      case False
      with 3 s Suc.prems(1) obtain x y r where "simple_escape e = Some x"
        and r: "parse_chars m t = Some (y, r)" "p = (x # y, r)"
        by (auto split: Option.bind_splits)
      with 3 False s n(1) IH [OF r(1)] show ?thesis by simp
    qed
  next
    case 4
    with s Suc.prems(1) obtain y r where "\<not> (of_char c :: nat) < 32"
      and r: "parse_chars m cs = Some (y, r)" "p = (c # y, r)"
      by (auto split: Option.bind_splits if_splits)
    with 4 s n(1) IH [OF r(1)] show ?thesis by simp
  qed (use Suc.prems s n in auto)
qed simp

lemma parse_str_shorter: "parse_str s = Some (x, r) \<Longrightarrow> length r < length s"
  unfolding parse_str_def by (rule parse_chars_shorter)

lemma dropWhile_shorter: "length (dropWhile P s) \<le> length s"
  by (induction s) auto

lemma int_part_shorter: "int_part s = Some (x, r) \<Longrightarrow> length r < length s"
  using dropWhile_shorter [of is_digit "tl s"]
  by (auto simp: int_part_def split: list.splits if_splits)

lemma parse_fraction_shorter: "parse_fraction s = Some (x, r) \<Longrightarrow> length r \<le> length s"
  using dropWhile_shorter [of is_digit "tl s"]
  by (auto simp: parse_fraction_def Let_def split: list.splits if_splits)

lemma parse_exponent_shorter: "parse_exponent s = Some (x, r) \<Longrightarrow> length r \<le> length s"
  using dropWhile_shorter [of is_digit "tl s"] dropWhile_shorter [of is_digit "tl (tl s)"]
  by (auto simp: parse_exponent_def Let_def split: list.splits if_splits)

lemma parse_number_shorter:
  assumes "parse_number s = Some (j, r)"
  shows "length r < length s"
proof -
  let ?b = "if (case s of c # _ \<Rightarrow> c = CHR ''-'' | [] \<Rightarrow> False) then tl s else s"
  obtain ip a fr b ex where "int_part ?b = Some (ip, a)" "parse_fraction a = Some (fr, b)"
    "parse_exponent b = Some (ex, r)"
    using assms by (auto simp: parse_number_def Let_def split: Option.bind_splits)
  then have "length r < length ?b"
    using int_part_shorter parse_fraction_shorter parse_exponent_shorter by (meson le_less_trans)
  also have "length ?b \<le> length s" by simp
  finally show ?thesis .
qed

lemma strip_shorter: "strip w s = Some r \<Longrightarrow> w \<noteq> [] \<Longrightarrow> length r < length s"
  by (auto simp: strip_def split: if_splits) (metis drop_Nil length_0_conv length_drop diff_less length_greater_0_conv take_Nil)

lemma skip_ws_shorter: "length (skip_ws s) \<le> length s"
  by (simp add: skip_ws_def dropWhile_shorter)

lemma skip_ws_Cons_shorter: "skip_ws s = c # cs \<Longrightarrow> length cs < length s"
  using skip_ws_shorter [of s] by simp


text \<open>Inversion of one step of each scanner.\<close>

lemma parse_value_SucE:
  assumes "parse_value (Suc n) s = Some (j, r)"
  obtains
    (str) cs x where "skip_ws s = dq # cs" "parse_str cs = Some (x, r)" "j = JStr x"
  | (arr0) cs where "skip_ws s = CHR ''['' # cs" "skip_ws cs = CHR '']'' # r" "j = JArr []"
  | (arr) cs d t js where "skip_ws s = CHR ''['' # cs" "skip_ws cs = d # t" "d \<noteq> CHR '']''"
      "parse_elems n cs = Some (js, r)" "j = JArr js"
  | (obj0) cs where "skip_ws s = CHR ''{'' # cs" "skip_ws cs = CHR ''}'' # r" "j = JObj []"
  | (obj) cs d t kvs where "skip_ws s = CHR ''{'' # cs" "skip_ws cs = d # t" "d \<noteq> CHR ''}''"
      "parse_fields n cs = Some (kvs, r)" "j = JObj kvs"
  | (flat) "length r < length s" "\<And>m. parse_value (Suc m) s = Some (j, r)"
proof (cases "skip_ws s")
  case Nil
  with assms show ?thesis by simp
next
  case (Cons c cs)
  have short: "length (c # cs) \<le> length s" using skip_ws_shorter [of s] Cons by simp
  consider "c = dq" | "c = CHR ''[''" | "c = CHR ''{''"
    | "c \<noteq> dq" "c \<noteq> CHR ''[''" "c \<noteq> CHR ''{''" by blast
  then show ?thesis
  proof cases
    case 1
    with Cons assms show ?thesis by (auto split: Option.bind_splits intro: str)
  next
    case 2
    with Cons assms show ?thesis
      by (cases "skip_ws cs") (auto simp: dq_def split: Option.bind_splits if_splits intro: arr0 arr)
  next
    case 3
    with Cons assms show ?thesis
      by (cases "skip_ws cs") (auto simp: dq_def split: Option.bind_splits if_splits intro: obj0 obj)
  next
    case 4
    then have eq: "parse_value (Suc m) s = parse_value (Suc n) s" for m
      using Cons by simp
    have "length r < length (c # cs)"
      using assms Cons 4 strip_shorter [of _ "c # cs" r] parse_number_shorter [of "c # cs" j r]
      by (auto split: if_splits)
    with short eq assms show ?thesis by (intro flat) auto
  qed
qed

lemma parse_elems_SucE:
  assumes "parse_elems (Suc n) s = Some (js, r)"
  obtains
    (last) j t where "parse_value n s = Some (j, t)" "skip_ws t = CHR '']'' # r" "js = [j]"
  | (more) j t u js' where "parse_value n s = Some (j, t)" "skip_ws t = CHR '','' # u"
      "parse_elems n u = Some (js', r)" "js = j # js'"
  using assms by (auto split: Option.bind_splits list.splits if_splits)

lemma parse_field_SucE:
  assumes "parse_field (Suc n) s = Some (f, r)"
  obtains cs k t u j where "skip_ws s = dq # cs" "parse_str cs = Some (k, t)"
    "skip_ws t = CHR '':'' # u" "parse_value n u = Some (j, r)" "f = (k, j)"
  using assms by (auto split: Option.bind_splits list.splits if_splits)

lemma parse_fields_SucE:
  assumes "parse_fields (Suc n) s = Some (fs, r)"
  obtains
    (last) f t where "parse_field n s = Some (f, t)" "skip_ws t = CHR ''}'' # r" "fs = [f]"
  | (more) f t u fs' where "parse_field n s = Some (f, t)" "skip_ws t = CHR '','' # u"
      "parse_fields n u = Some (fs', r)" "fs = f # fs'"
  using assms by (auto split: Option.bind_splits list.splits if_splits)

lemma parse_shorter:
  "(\<forall>s j r. parse_value n s = Some (j, r) \<longrightarrow> length r < length s) \<and>
   (\<forall>s js r. parse_elems n s = Some (js, r) \<longrightarrow> length r < length s) \<and>
   (\<forall>s f r. parse_field n s = Some (f, r) \<longrightarrow> length r < length s) \<and>
   (\<forall>s fs r. parse_fields n s = Some (fs, r) \<longrightarrow> length r < length s)"
proof (induction n)
  case (Suc n)
  note IH = Suc [THEN conjunct1, rule_format] Suc [THEN conjunct2, THEN conjunct1, rule_format]
    Suc [THEN conjunct2, THEN conjunct2, THEN conjunct1, rule_format]
    Suc [THEN conjunct2, THEN conjunct2, THEN conjunct2, rule_format]
  have v: "length r < length s" if "parse_value (Suc n) s = Some (j, r)" for s j r
    using that
  proof (cases rule: parse_value_SucE)
    case (str cs x)
    then show ?thesis using parse_str_shorter [OF str(2)] skip_ws_Cons_shorter [OF str(1)] by simp
  next
    case (arr0 cs)
    then show ?thesis using skip_ws_Cons_shorter [OF arr0(1)] skip_ws_Cons_shorter [OF arr0(2)] by simp
  next
    case (arr cs d t js)
    then show ?thesis using IH(2) [OF arr(4)] skip_ws_Cons_shorter [OF arr(1)] by simp
  next
    case (obj0 cs)
    then show ?thesis using skip_ws_Cons_shorter [OF obj0(1)] skip_ws_Cons_shorter [OF obj0(2)] by simp
  next
    case (obj cs d t kvs)
    then show ?thesis using IH(4) [OF obj(4)] skip_ws_Cons_shorter [OF obj(1)] by simp
  qed
  have e: "length r < length s" if "parse_elems (Suc n) s = Some (js, r)" for s js r
    using that
    by (cases rule: parse_elems_SucE) (auto dest!: IH skip_ws_Cons_shorter)
  have f: "length r < length s" if "parse_field (Suc n) s = Some (f, r)" for s f r
    using that
    by (cases rule: parse_field_SucE) (auto dest!: IH skip_ws_Cons_shorter parse_str_shorter)
  have fs: "length r < length s" if "parse_fields (Suc n) s = Some (fs, r)" for s fs r
    using that
    by (cases rule: parse_fields_SucE) (auto dest!: IH skip_ws_Cons_shorter)
  from v e f fs show ?case by blast
qed simp

lemmas parse_value_shorter = parse_shorter [THEN conjunct1, rule_format]
lemmas parse_elems_shorter = parse_shorter [THEN conjunct2, THEN conjunct1, rule_format]
lemmas parse_field_shorter = parse_shorter [THEN conjunct2, THEN conjunct2, THEN conjunct1, rule_format]
lemmas parse_fields_shorter = parse_shorter [THEN conjunct2, THEN conjunct2, THEN conjunct2, rule_format]

text \<open>Enough steps for the parts are enough for the whole, scanner by scanner.\<close>

definition enough :: "(nat \<Rightarrow> string \<Rightarrow> ('a \<times> string) option) \<Rightarrow> nat \<Rightarrow> bool" where
  "enough p m \<longleftrightarrow>
     (\<forall>s x r n. p m s = Some (x, r) \<longrightarrow> length s \<le> n + length r \<longrightarrow> p n s = Some (x, r))"

lemma enoughD: "enough p m \<Longrightarrow> p m s = Some (x, r) \<Longrightarrow> length s \<le> n + length r \<Longrightarrow> p n s = Some (x, r)"
  unfolding enough_def by blast

lemma enoughI:
  assumes short: "\<And>s x r. p m s = Some (x, r) \<Longrightarrow> length r < length s"
    and step: "\<And>s x r k. p m s = Some (x, r) \<Longrightarrow> length s \<le> Suc k + length r \<Longrightarrow> p (Suc k) s = Some (x, r)"
  shows "enough p m"
  unfolding enough_def
proof (intro allI impI)
  fix s x r n
  assume p: "p m s = Some (x, r)" and n: "length s \<le> n + length r"
  from short [OF p] n obtain k where k: "n = Suc k" by (cases n) auto
  from step [OF p] n show "p n s = Some (x, r)" unfolding k .
qed

lemma parse_value_enough:
  assumes IH: "enough parse_elems m" "enough parse_fields m"
  shows "enough parse_value (Suc m)"
proof (rule enoughI [OF parse_value_shorter])
  fix s j r k
  assume p: "parse_value (Suc m) s = Some (j, r)" and k: "length s \<le> Suc k + length r"
  from p show "parse_value (Suc k) s = Some (j, r)"
  proof (cases rule: parse_value_SucE)
    case (arr cs d t js)
    have "parse_elems k cs = Some (js, r)"
      by (rule enoughD [OF IH(1) arr(4)]) (use skip_ws_Cons_shorter [OF arr(1)] k in simp)
    with arr show ?thesis by (simp add: dq_def)
  next
    case (obj cs d t kvs)
    have "parse_fields k cs = Some (kvs, r)"
      by (rule enoughD [OF IH(2) obj(4)]) (use skip_ws_Cons_shorter [OF obj(1)] k in simp)
    with obj show ?thesis by (simp add: dq_def)
  qed (simp_all, simp_all add: dq_def)
qed

lemma parse_elems_enough:
  assumes IH: "enough parse_value m" "enough parse_elems m"
  shows "enough parse_elems (Suc m)"
proof (rule enoughI [OF parse_elems_shorter])
  fix s js r k
  assume p: "parse_elems (Suc m) s = Some (js, r)" and k: "length s \<le> Suc k + length r"
  from p show "parse_elems (Suc k) s = Some (js, r)"
  proof (cases rule: parse_elems_SucE)
    case (last j t)
    have "parse_value k s = Some (j, t)"
      by (rule enoughD [OF IH(1) last(1)]) (use skip_ws_Cons_shorter [OF last(2)] k in simp)
    with last show ?thesis by simp
  next
    case (more j t u js')
    note sh = skip_ws_Cons_shorter [OF more(2)] parse_value_shorter [OF more(1)]
      parse_elems_shorter [OF more(3)]
    have "parse_value k s = Some (j, t)" by (rule enoughD [OF IH(1) more(1)]) (use sh k in simp)
    moreover have "parse_elems k u = Some (js', r)"
      by (rule enoughD [OF IH(2) more(3)]) (use sh k in simp)
    ultimately show ?thesis using more by simp
  qed
qed

lemma parse_field_enough:
  assumes IH: "enough parse_value m"
  shows "enough parse_field (Suc m)"
proof (rule enoughI [OF parse_field_shorter])
  fix s f r k
  assume p: "parse_field (Suc m) s = Some (f, r)" and k: "length s \<le> Suc k + length r"
  from p show "parse_field (Suc k) s = Some (f, r)"
  proof (cases rule: parse_field_SucE)
    case (1 cs key t u j)
    have "parse_value k u = Some (j, r)"
      by (rule enoughD [OF IH 1(4)])
        (use skip_ws_Cons_shorter [OF 1(1)] parse_str_shorter [OF 1(2)]
          skip_ws_Cons_shorter [OF 1(3)] k in simp)
    with 1 show ?thesis by simp
  qed
qed

lemma parse_fields_enough:
  assumes IH: "enough parse_field m" "enough parse_fields m"
  shows "enough parse_fields (Suc m)"
proof (rule enoughI [OF parse_fields_shorter])
  fix s fs r k
  assume p: "parse_fields (Suc m) s = Some (fs, r)" and k: "length s \<le> Suc k + length r"
  from p show "parse_fields (Suc k) s = Some (fs, r)"
  proof (cases rule: parse_fields_SucE)
    case (last f t)
    have "parse_field k s = Some (f, t)"
      by (rule enoughD [OF IH(1) last(1)]) (use skip_ws_Cons_shorter [OF last(2)] k in simp)
    with last show ?thesis by simp
  next
    case (more f t u fs')
    note sh = skip_ws_Cons_shorter [OF more(2)] parse_field_shorter [OF more(1)]
      parse_fields_shorter [OF more(3)]
    have "parse_field k s = Some (f, t)" by (rule enoughD [OF IH(1) more(1)]) (use sh k in simp)
    moreover have "parse_fields k u = Some (fs', r)"
      by (rule enoughD [OF IH(2) more(3)]) (use sh k in simp)
    ultimately show ?thesis using more by simp
  qed
qed

lemma parse_enough:
  "enough parse_value m \<and> enough parse_elems m \<and> enough parse_field m \<and> enough parse_fields m"
proof (induction m)
  case 0
  show ?case by (simp add: enough_def)
next
  case (Suc m)
  then show ?case
    by (simp add: parse_value_enough parse_elems_enough parse_field_enough parse_fields_enough)
qed

lemma parse_json_complete:
  assumes "parse_value m s = Some (j, r)" "skip_ws r = []"
  shows "parse_json s = Some j"
proof -
  have "parse_value (Suc (length s)) s = Some (j, r)"
    by (rule enoughD [OF parse_enough [THEN conjunct1] assms(1)]) simp
  with assms(2) show ?thesis by (simp add: parse_json_def)
qed

end
