(* ===== verification/Go_Json.thy ===== *)
theory Go_Json
  imports Go_Json_Text
begin

text \<open>
  The value level of \<^verbatim>\<open>encoding/json\<close>: the dynamic types the program stores behind
  \<^verbatim>\<open>interface{}\<close>, \<^verbatim>\<open>json.Marshal\<close> of them, and \<^verbatim>\<open>json.Unmarshal\<close> into each Go type the program
  decodes into. An unmarshalling function takes the target's old value and returns whether
  \<^verbatim>\<open>Unmarshal\<close> succeeded together with the target's new value: a type mismatch inside a
  container is reported at the end and leaves the zero value at that element, and \<^verbatim>\<open>null\<close>
  leaves a scalar target as it was.

  A \<^verbatim>\<open>float64\<close> with an integral value \<open>n\<close> is \<open>GFloat n\<close>; statements that decode into
  \<^verbatim>\<open>interface{}\<close> ask for integers of at most 53 bits (\<open>safe_int\<close>), where that is exact.
\<close>

section \<open>Go values\<close>

datatype goval =
    GNil
  | GBool bool
  | GInt int
  | GFloat int
  | GFrac string
  | GStr string
  | GStrs "string list"
  | GList "goval list"
  | GMap "(string \<times> goval) list"
  | GStrMap "(string \<times> string) list"
  | GIntMap "(string \<times> int) list"
  | GFunc

definition safe_int :: "int \<Rightarrow> bool" where
  "safe_int n = (\<bar>n\<bar> \<le> 2 ^ 53)"

section \<open>Marshal\<close>

text \<open>Keys of a map are written in sorted order; a function value has no encoding.\<close>

fun marshal :: "goval \<Rightarrow> json option" where
  "marshal GNil = Some JNull"
| "marshal (GBool b) = Some (JBool b)"
| "marshal (GInt n) = Some (JNum n)"
| "marshal (GFloat n) = Some (JNum n)"
| "marshal (GFrac l) = Some (JFrac l)"
| "marshal (GStr s) = Some (JStr s)"
| "marshal (GStrs ss) = Some (JArr (map JStr ss))"
| "marshal (GList gs) = map_option JArr (those (map marshal gs))"
| "marshal (GMap kvs) =
     map_option (\<lambda>fs. JObj (sort_key fst fs))
       (those (map (\<lambda>kv. map_option (Pair (fst kv)) (marshal (snd kv))) kvs))"
| "marshal (GStrMap kvs) = Some (JObj (sort_key fst (map (\<lambda>(k, s). (k, JStr s)) kvs)))"
| "marshal (GIntMap kvs) = Some (JObj (sort_key fst (map (\<lambda>(k, n). (k, JNum n)) kvs)))"
| "marshal GFunc = None"

section \<open>Unmarshal\<close>

type_synonym 'v decoder = "'v \<Rightarrow> json \<Rightarrow> bool \<times> 'v"

definition decode_string :: "string decoder" where
  "decode_string old j =
     (case j of JStr s \<Rightarrow> (True, s) | JNull \<Rightarrow> (True, old) | _ \<Rightarrow> (False, old))"

definition decode_int :: "int decoder" where
  "decode_int old j =
     (case j of
        JNum n \<Rightarrow> if - (2 ^ 63) \<le> n \<and> n < 2 ^ 63 then (True, n) else (False, old)
      | JNull \<Rightarrow> (True, old)
      | _ \<Rightarrow> (False, old))"

text \<open>Into \<^verbatim>\<open>interface{}\<close>: every document has a Go value.\<close>

fun any_of :: "json \<Rightarrow> goval" where
  "any_of JNull = GNil"
| "any_of (JBool b) = GBool b"
| "any_of (JNum n) = GFloat n"
| "any_of (JFrac l) = GFrac l"
| "any_of (JStr s) = GStr s"
| "any_of (JArr js) = GList (map any_of js)"
| "any_of (JObj kvs) = GMap (put_all id (map (\<lambda>kv. (fst kv, any_of (snd kv))) kvs) [])"

definition decode_any :: "goval decoder" where
  "decode_any old j = (True, any_of j)"

text \<open>Into \<^verbatim>\<open>[]T\<close> and \<^verbatim>\<open>map[string]T\<close>, given the decoder of \<^verbatim>\<open>T\<close> and \<^verbatim>\<open>T\<close>'s zero value.\<close>

definition decode_slice :: "'v decoder \<Rightarrow> 'v \<Rightarrow> 'v list decoder" where
  "decode_slice dec zero old j =
     (case j of
        JArr js \<Rightarrow> (list_all (\<lambda>j. fst (dec zero j)) js, map (\<lambda>j. snd (dec zero j)) js)
      | JNull \<Rightarrow> (True, [])
      | _ \<Rightarrow> (False, old))"

definition decode_map :: "'v decoder \<Rightarrow> 'v \<Rightarrow> 'v gomap decoder" where
  "decode_map dec zero old j =
     (case j of
        JObj kvs \<Rightarrow> (list_all (\<lambda>kv. fst (dec zero (snd kv))) kvs,
                     put_all (\<lambda>v. snd (dec zero v)) kvs old)
      | JNull \<Rightarrow> (True, [])
      | _ \<Rightarrow> (False, old))"

abbreviation decode_strings :: "string list decoder" where
  "decode_strings \<equiv> decode_slice decode_string []"

abbreviation decode_str_map :: "string gomap decoder" where
  "decode_str_map \<equiv> decode_map decode_string []"

abbreviation decode_int_map :: "int gomap decoder" where
  "decode_int_map \<equiv> decode_map decode_int 0"

abbreviation decode_any_map :: "goval gomap decoder" where
  "decode_any_map \<equiv> decode_map decode_any GNil"

text \<open>A target that is not a pointer: \<^verbatim>\<open>Unmarshal\<close> returns \<^verbatim>\<open>InvalidUnmarshalError\<close>.\<close>

definition decode_non_pointer :: "'v decoder" where
  "decode_non_pointer old j = (False, old)"

text \<open>Object keys select the fields of a struct without regard to case.\<close>

definition to_lower :: "char \<Rightarrow> char" where
  "to_lower c = (if 65 \<le> (of_char c :: nat) \<and> (of_char c :: nat) \<le> 90 then char_of (of_char c + 32 :: nat) else c)"

definition equal_fold :: "string \<Rightarrow> string \<Rightarrow> bool" where
  "equal_fold s t = (map to_lower s = map to_lower t)"

lemmas decoder_defs = decode_string_def decode_int_def decode_any_def decode_slice_def
  decode_map_def decode_non_pointer_def

section \<open>Canonical documents\<close>

text \<open>Documents \<^const>\<open>marshal\<close> produces: sorted objects without duplicate keys, and integers
  that survive a detour through \<^verbatim>\<open>float64\<close>.\<close>

fun canonical :: "json \<Rightarrow> bool" where
  "canonical (JNum n) = safe_int n"
| "canonical (JFrac _) = False"
| "canonical (JArr js) = list_all canonical js"
| "canonical (JObj kvs) =
     (list_all (\<lambda>kv. canonical (snd kv)) kvs \<and> distinct (map fst kvs) \<and> sorted (map fst kvs))"
| "canonical _ = True"

fun wf_goval :: "goval \<Rightarrow> bool" where
  "wf_goval (GInt n) = safe_int n"
| "wf_goval (GFloat n) = safe_int n"
| "wf_goval (GFrac _) = False"
| "wf_goval (GList gs) = list_all wf_goval gs"
| "wf_goval (GMap kvs) = (list_all (\<lambda>kv. wf_goval (snd kv)) kvs \<and> wf_gomap kvs)"
| "wf_goval (GStrMap kvs) = wf_gomap kvs"
| "wf_goval (GIntMap kvs) = (wf_gomap kvs \<and> list_all (\<lambda>kv. safe_int (snd kv)) kvs)"
| "wf_goval _ = True"

lemma snd_in_snds [simp]: "snd kv \<in> Basic_BNFs.snds kv"
  by (cases kv) simp

lemma those_Some_iff: "those xs = Some ys \<longleftrightarrow> list_all2 (\<lambda>x y. x = Some y) xs ys"
proof (induction xs arbitrary: ys)
  case Nil
  then show ?case by auto
next
  case (Cons x xs)
  then show ?case
    by (cases x; cases ys) (auto simp: list_all2_Cons1 split: option.splits)
qed

lemma those_map_Some: "those (map (\<lambda>x. Some (f x)) xs) = Some (map f xs)"
  by (induction xs) auto

lemma those_keys:
  "those (map (\<lambda>kv. map_option (Pair (fst kv)) (f (snd kv))) kvs) = Some fs \<Longrightarrow>
    map fst fs = map fst kvs"
  by (induction kvs arbitrary: fs) (auto split: option.splits)

lemma list_all_sort_key [simp]: "list_all P (sort_key f xs) = list_all P xs"
  by (simp add: list_all_iff)

lemma distinct_map_sort_key: "distinct (map fst (sort_key fst xs)) = distinct (map fst xs)"
  by (metis distinct_map distinct_sort set_sort)

lemma canonical_int_json: "canonical j \<Longrightarrow> int_json j"
  by (induction j) (auto simp: list_all_iff)

lemma marshal_canonical:
  "wf_goval g \<Longrightarrow> marshal g = Some j \<Longrightarrow> canonical j"
proof (induction g arbitrary: j)
  case (GList gs)
  then obtain js where js: "those (map marshal gs) = Some js" "j = JArr js" by auto
  then have "list_all2 (\<lambda>g j. marshal g = Some j) gs js"
    by (simp add: those_Some_iff list_all2_map1)
  with GList js show ?case
    by (auto simp: list_all_iff list_all2_conv_all_nth in_set_conv_nth) metis
next
  case (GMap kvs)
  then obtain fs where fs: "those (map (\<lambda>kv. map_option (Pair (fst kv)) (marshal (snd kv))) kvs) = Some fs"
    and j: "j = JObj (sort_key fst fs)" by auto
  have keys: "map fst fs = map fst kvs" by (rule those_keys [OF fs])
  have l2: "list_all2 (\<lambda>kv f. map_option (Pair (fst kv)) (marshal (snd kv)) = Some f) kvs fs"
    using fs by (simp add: those_Some_iff list_all2_map1)
  have "canonical (snd f)" if "f \<in> set fs" for f
  proof -
    from that l2 obtain kv where kv: "kv \<in> set kvs" "map_option (Pair (fst kv)) (marshal (snd kv)) = Some f"
      by (auto simp: list_all2_conv_all_nth in_set_conv_nth) (metis nth_mem prod.collapse)
    then show ?thesis using GMap.IH [of kv "snd kv"] GMap.prems by (auto simp: list_all_iff)
  qed
  then show ?case
    using j keys GMap.prems by (simp add: list_all_iff distinct_map_sort_key wf_gomap_def)
qed (auto simp: list_all_iff distinct_map_sort_key wf_gomap_def comp_def case_prod_unfold)

text \<open>Decoding a canonical document into \<^verbatim>\<open>interface{}\<close> and encoding it again changes nothing.\<close>

lemma put_all_distinct:
  "distinct (map fst kvs) \<Longrightarrow> fst ` set kvs \<inter> fst ` set dst = {} \<Longrightarrow>
    put_all id kvs dst = dst @ kvs"
proof (induction kvs arbitrary: dst)
  case (Cons kv kvs)
  obtain k v where kv: "kv = (k, v)" by (cases kv)
  with Cons.prems have "k \<notin> fst ` set dst" by auto
  then have "AList.update k v dst = dst @ [(k, v)]" by (induction dst) auto
  with Cons kv show ?case by auto
qed simp

lemma any_of_object:
  "distinct (map fst kvs) \<Longrightarrow>
    any_of (JObj kvs) = GMap (map (\<lambda>kv. (fst kv, any_of (snd kv))) kvs)"
  by (simp add: put_all_distinct comp_def)

lemma marshal_any_of: "canonical j \<Longrightarrow> marshal (any_of j) = Some j"
proof (induction j)
  case (JArr js)
  then have "map (\<lambda>x. marshal (any_of x)) js = map (\<lambda>x. Some x) js"
    by (intro map_cong) (simp_all add: list_all_iff)
  then have "those (map (\<lambda>x. marshal (any_of x)) js) = Some js"
    using those_map_Some [of "\<lambda>x. x" js] by (simp only: map_ident)
  then show ?case by (simp add: comp_def)
next
  case (JObj kvs)
  then have "map (\<lambda>kv. map_option (Pair (fst kv)) (marshal (any_of (snd kv)))) kvs = map (\<lambda>kv. Some kv) kvs"
    by (intro map_cong) (simp_all add: list_all_iff)
  then have "those (map (\<lambda>kv. map_option (Pair (fst kv)) (marshal (any_of (snd kv)))) kvs) = Some kvs"
    using those_map_Some [of "\<lambda>x. x" kvs] by (simp only: map_ident)
  with JObj.prems show ?case
    by (simp add: any_of_object comp_def sort_key_id_if_sorted del: any_of.simps)
qed simp_all

end
