(* ===== verification/Go_Json_Indent.thy ===== *)
theory Go_Json_Indent
  imports Go_Json_Text
begin

text \<open>
  The indented encoder of \<^verbatim>\<open>encoding/json\<close> (\<^verbatim>\<open>json.MarshalIndent\<close> with no prefix and a tab for each
  level): every element of a non-empty array or object stands on a line of its own, a colon is
  followed by a space, empty arrays and objects are not broken. Scanning such a text gives the
  document back.
\<close>

section \<open>Indented text\<close>

definition newline :: "nat \<Rightarrow> string" where
  "newline d = CHR 0x0A # replicate d (CHR 0x09)"

text \<open>The lists include the bracket that closes them, which stands one level further out.\<close>

fun indent_json :: "nat \<Rightarrow> json \<Rightarrow> string"
  and indent_elems :: "nat \<Rightarrow> json list \<Rightarrow> string"
  and indent_field :: "nat \<Rightarrow> string \<times> json \<Rightarrow> string"
  and indent_fields :: "nat \<Rightarrow> (string \<times> json) list \<Rightarrow> string" where
  "indent_json d (JArr js) = (if js = [] then ''[]'' else CHR ''['' # indent_elems (Suc d) js)"
| "indent_json d (JObj kvs) = (if kvs = [] then ''{}'' else CHR ''{'' # indent_fields (Suc d) kvs)"
| "indent_json d JNull = print_json JNull"
| "indent_json d (JBool b) = print_json (JBool b)"
| "indent_json d (JNum n) = print_json (JNum n)"
| "indent_json d (JFrac l) = print_json (JFrac l)"
| "indent_json d (JStr s) = print_json (JStr s)"
| "indent_elems d [] = newline (d - 1) @ '']''"
| "indent_elems d (j # js) = newline d @ indent_json d j @ (if js = [] then [] else '','') @ indent_elems d js"
| "indent_field d (k, j) = print_str k @ '': '' @ indent_json d j"
| "indent_fields d [] = newline (d - 1) @ ''}''"
| "indent_fields d (f # fs) = newline d @ indent_field d f @ (if fs = [] then [] else '','') @ indent_fields d fs"

section \<open>Scanning it\<close>

lemma skip_newline [simp]: "skip_ws (newline d @ s) = skip_ws s"
proof -
  have "dropWhile is_ws (replicate d (CHR 0x09) @ s) = dropWhile is_ws s" by (induction d) (simp_all add: is_ws_def)
  then show ?thesis by (simp add: skip_ws_def newline_def is_ws_def)
qed

lemma skip_space [simp]: "skip_ws (CHR '' '' # s) = skip_ws s"
  by (simp add: skip_ws_def is_ws_def)

lemma stops_newline [simp]: "stops (newline d @ s)"
  by (simp add: newline_def stops_def is_digit_def)

lemma parse_value_skip: "skip_ws s = skip_ws s' \<Longrightarrow> parse_value n s = parse_value n s'"
  by (cases n) simp_all

lemma parse_field_skip: "skip_ws s = skip_ws s' \<Longrightarrow> parse_field n s = parse_field n s'"
  by (cases n) simp_all

lemma indent_json_start:
  assumes "int_json j"
  shows "\<exists>c cs. indent_json d j = c # cs \<and> \<not> is_ws c \<and> c \<noteq> CHR '']''"
  using assms print_json_start [OF assms] by (cases j) (auto simp: is_ws_def)

lemma indent_field_start: "\<exists>cs. indent_field d f = dq # cs"
  by (cases f) (simp add: print_str_def)

lemma parse_indent_array:
  assumes "js \<noteq> []" "list_all int_json js" "parse_elems m (indent_elems (Suc d) js @ t) = Some (js, t)"
  shows "parse_value (Suc m) (indent_json d (JArr js) @ t) = Some (JArr js, t)"
proof -
  from assms(1,2) obtain j js' where js: "js = j # js'" "int_json j" by (cases js) auto
  then obtain c cs where "indent_json (Suc d) j = c # cs" "\<not> is_ws c" "c \<noteq> CHR '']''" using indent_json_start by blast
  with js have "skip_ws (indent_elems (Suc d) js @ t) = c # cs @ (if js' = [] then [] else '','') @ indent_elems (Suc d) js' @ t"
    by (simp add: skip_ws_nonws)
  with \<open>c \<noteq> CHR '']''\<close> assms(1,3) show ?thesis by (simp add: skip_ws_nonws) (simp add: dq_def)
qed

lemma parse_indent_object:
  assumes "kvs \<noteq> []" "parse_fields m (indent_fields (Suc d) kvs @ t) = Some (kvs, t)"
  shows "parse_value (Suc m) (indent_json d (JObj kvs) @ t) = Some (JObj kvs, t)"
proof -
  from assms(1) obtain f fs where kvs: "kvs = f # fs" by (cases kvs) auto
  obtain cs where "indent_field (Suc d) f = dq # cs" using indent_field_start by blast
  with kvs have "skip_ws (indent_fields (Suc d) kvs @ t) = dq # cs @ (if fs = [] then [] else '','') @ indent_fields (Suc d) fs @ t"
    by (simp add: skip_ws_nonws)
  with assms show ?thesis by (simp add: skip_ws_nonws) (simp add: dq_def)
qed

text \<open>One element or field, then the closing bracket or a comma and the rest.\<close>

lemma parse_indent_elem:
  assumes "\<And>x. stops x \<Longrightarrow> parse_value m (indent_json d j @ x) = Some (j, x)"
    and "js \<noteq> [] \<Longrightarrow> parse_elems m (indent_elems d js @ t) = Some (js, t)"
  shows "parse_elems (Suc m) (indent_elems d (j # js) @ t) = Some (j # js, t)"
proof -
  let ?r = "(if js = [] then [] else '','') @ indent_elems d js @ t"
  have "stops ?r" by simp
  note assms(1) [OF this]
  moreover have "parse_value m (newline d @ indent_json d j @ ?r) = parse_value m (indent_json d j @ ?r)"
    by (rule parse_value_skip) simp
  ultimately show ?thesis using assms(2) by (auto simp: skip_ws_nonws)
qed

lemma parse_indent_field:
  assumes "parse_value m (indent_json d j @ t) = Some (j, t)"
  shows "parse_field (Suc m) (indent_field d (k, j) @ t) = Some ((k, j), t)"
proof -
  have "parse_value m (CHR '' '' # indent_json d j @ t) = parse_value m (indent_json d j @ t)" by (rule parse_value_skip) simp
  with assms show ?thesis by (simp add: print_str_def skip_ws_nonws parse_str_print)
qed

lemma parse_indent_fields:
  assumes "\<And>x. stops x \<Longrightarrow> parse_field m (indent_field d f @ x) = Some (f, x)"
    and "fs \<noteq> [] \<Longrightarrow> parse_fields m (indent_fields d fs @ t) = Some (fs, t)"
  shows "parse_fields (Suc m) (indent_fields d (f # fs) @ t) = Some (f # fs, t)"
proof -
  let ?r = "(if fs = [] then [] else '','') @ indent_fields d fs @ t"
  have "stops ?r" by simp
  note assms(1) [OF this]
  moreover have "parse_field m (newline d @ indent_field d f @ ?r) = parse_field m (indent_field d f @ ?r)"
    by (rule parse_field_skip) simp
  ultimately show ?thesis using assms(2) by (auto simp: skip_ws_nonws)
qed

lemma newline_length [simp]: "length (newline d) = Suc d"
  by (simp add: newline_def)

lemma parse_indent_value:
  "int_json j \<Longrightarrow> stops t \<Longrightarrow> length (indent_json d j) \<le> n \<Longrightarrow> parse_value n (indent_json d j @ t) = Some (j, t)"
  "js \<noteq> [] \<Longrightarrow> list_all int_json js \<Longrightarrow> length (indent_elems d js) \<le> n \<Longrightarrow>
     parse_elems n (indent_elems d js @ t) = Some (js, t)"
  "int_json (snd f) \<Longrightarrow> stops t \<Longrightarrow> length (indent_field d f) \<le> n \<Longrightarrow> parse_field n (indent_field d f @ t) = Some (f, t)"
  "fs \<noteq> [] \<Longrightarrow> list_all (\<lambda>kv. int_json (snd kv)) fs \<Longrightarrow> length (indent_fields d fs) \<le> n \<Longrightarrow>
     parse_fields n (indent_fields d fs @ t) = Some (fs, t)"
proof (induction d j and d js and d f and d fs arbitrary: n t and n t and n t and n t
    rule: indent_json_indent_elems_indent_field_indent_fields.induct)
  case (1 d js)
  then obtain m where n: "n = Suc m" by (cases n) (auto split: if_splits)
  show ?case
  proof (cases "js = []")
    case False
    then show ?thesis unfolding n by (rule parse_indent_array) (use 1 n False in simp_all)
  qed (simp add: n skip_ws_nonws dq_def)
next
  case (2 d kvs)
  then obtain m where n: "n = Suc m" by (cases n) (auto split: if_splits)
  show ?case
  proof (cases "kvs = []")
    case False
    then show ?thesis unfolding n by (rule parse_indent_object) (use 2 n False in simp_all)
  qed (simp add: n skip_ws_nonws dq_def)
next
  case (9 d j js)
  then obtain m where n: "n = Suc m" by (cases n) auto
  show ?case unfolding n by (rule parse_indent_elem) (use 9 n in \<open>auto split: if_splits\<close>)
next
  case (10 d k j)
  then obtain m where n: "n = Suc m" by (cases n) (auto simp: print_str_def)
  show ?case unfolding n by (rule parse_indent_field) (use 10 n in \<open>auto simp: print_str_def\<close>)
next
  case (12 d f fs)
  then obtain m where n: "n = Suc m" by (cases n) auto
  show ?case unfolding n by (rule parse_indent_fields) (use 12 n in \<open>auto split: if_splits\<close>)
qed (simp_all only: indent_json.simps parse_print_value(1), simp_all)

lemma parse_indent_json: "int_json j \<Longrightarrow> parse_json (indent_json 0 j) = Some j"
  using parse_indent_value(1) [of j "[]" 0 "Suc (length (indent_json 0 j))"]
  by (simp add: parse_json_def skip_ws_def)

end
