(* ===== verification/Utils_Files.thy ===== *)
theory Utils_Files
  imports Go_Prelude
begin

text \<open>
  \<^verbatim>\<open>utils/files.go\<close> over a model of the operating system's file tree, and the part of
  \<^verbatim>\<open>path/filepath\<close> the repository code uses.

  A tree maps cleaned paths to directories and files. Besides its nodes it has the two
  kinds of trouble the code reacts to: paths the system refuses to touch (\<open>fs_denied\<close>:
  an error that is not "does not exist"), and a bound on the bytes a file accepts
  (\<open>fs_quota\<close>: a full disk stops a copy half way).
\<close>

section \<open>Paths\<close>

text \<open>\<^verbatim>\<open>filepath.Clean\<close>: the stack of components, innermost first.\<close>

definition push_comp :: "bool \<Rightarrow> string \<Rightarrow> string list \<Rightarrow> string list" where
  "push_comp rooted c st =
     (if c = [] \<or> c = ''.'' then st
      else if c = ''..'' then
        (case st of
           [] \<Rightarrow> if rooted then [] else [''..'']
         | t # ts \<Rightarrow> if t = ''..'' then ''..'' # st else ts)
      else c # st)"

type_synonym fpath = "bool \<times> string list"

definition is_rooted :: "string \<Rightarrow> bool" where
  "is_rooted s = (case s of [] \<Rightarrow> False | c # _ \<Rightarrow> c = CHR ''/'')"

definition resolve :: "string \<Rightarrow> fpath" where
  "resolve s = (is_rooted s, rev (fold (push_comp (is_rooted s)) (split_on (CHR ''/'') s) []))"

fun join_comps :: "string list \<Rightarrow> string" where
  "join_comps [] = []"
| "join_comps [c] = c"
| "join_comps (c # cs) = c @ CHR ''/'' # join_comps cs"

definition render :: "fpath \<Rightarrow> string" where
  "render p =
     (if fst p then CHR ''/'' # join_comps (snd p)
      else if snd p = [] then ''.'' else join_comps (snd p))"

definition Clean :: "string \<Rightarrow> string" where
  "Clean s = render (resolve s)"

text \<open>\<^verbatim>\<open>filepath.Join\<close> of two elements: empty elements are dropped, the rest is cleaned.\<close>

definition Join :: "string \<Rightarrow> string \<Rightarrow> string" where
  "Join a b =
     (if a = [] \<and> b = [] then []
      else if a = [] then Clean b
      else Clean (a @ CHR ''/'' # b))"

section \<open>The file tree\<close>

datatype node = DirNode | FileNode string

record filesys =
  fs_nodes :: "fpath \<Rightarrow> node option"
  fs_denied :: "fpath \<Rightarrow> bool"
  fs_quota :: "fpath \<Rightarrow> nat option"

datatype stat_result = StatOk | StatNotExist | StatOther goerror

definition node_at :: "filesys \<Rightarrow> fpath \<Rightarrow> node option" where
  "node_at fs p = (if snd p = [] then Some DirNode else fs_nodes fs p)"

definition ancestors :: "fpath \<Rightarrow> fpath list" where
  "ancestors p = map (\<lambda>i. (fst p, take i (snd p))) [1..<length (snd p)]"

definition is_file :: "node option \<Rightarrow> bool" where
  "is_file n = (case n of Some (FileNode _) \<Rightarrow> True | _ \<Rightarrow> False)"

definition e_denied :: goerror where "e_denied = ErrorString ''permission denied''"
definition e_not_dir :: goerror where "e_not_dir = ErrorString ''not a directory''"
definition e_is_dir :: goerror where "e_is_dir = ErrorString ''is a directory''"
definition e_no_entry :: goerror where "e_no_entry = ErrorString ''no such file or directory''"
definition e_no_space :: goerror where "e_no_space = ErrorString ''no space left on device''"

text \<open>\<^verbatim>\<open>os.Stat\<close>.\<close>

definition stat :: "filesys \<Rightarrow> string \<Rightarrow> stat_result" where
  "stat fs s =
     (let p = resolve s in
      if s = [] then StatNotExist
      else if list_ex (fs_denied fs) (ancestors p @ [p]) then StatOther e_denied
      else if list_ex (\<lambda>q. is_file (node_at fs q)) (ancestors p) then StatOther e_not_dir
      else if list_ex (\<lambda>q. node_at fs q = None) (ancestors p) then StatNotExist
      else if node_at fs p = None then StatNotExist
      else StatOk)"

text \<open>\<^verbatim>\<open>os.MkdirAll\<close>: every missing directory on the way down is created, one after another.\<close>

definition mkdir_one :: "filesys \<Rightarrow> fpath \<Rightarrow> filesys \<times> goerror option" where
  "mkdir_one fs p =
     (if fs_denied fs p then (fs, Some e_denied)
      else case node_at fs p of
             Some DirNode \<Rightarrow> (fs, None)
           | Some (FileNode _) \<Rightarrow> (fs, Some e_not_dir)
           | None \<Rightarrow> (fs\<lparr>fs_nodes := (fs_nodes fs)(p \<mapsto> DirNode)\<rparr>, None))"

definition MkdirAll :: "filesys \<Rightarrow> string \<Rightarrow> filesys \<times> goerror option" where
  "MkdirAll fs s =
     (if s = [] then (fs, Some e_no_entry)
      else let p = resolve s in each_until_error mkdir_one fs (ancestors p @ [p]))"

text \<open>\<^verbatim>\<open>os.Create\<close> truncates or creates a file whose directory exists.\<close>

definition create_file :: "filesys \<Rightarrow> string \<Rightarrow> filesys \<times> goerror option" where
  "create_file fs s =
     (let p = resolve s in
      if s = [] then (fs, Some e_no_entry)
      else if list_ex (fs_denied fs) (ancestors p @ [p]) then (fs, Some e_denied)
      else if \<not> list_all (\<lambda>q. node_at fs q = Some DirNode) (ancestors p) then (fs, Some e_no_entry)
      else if node_at fs p = Some DirNode then (fs, Some e_is_dir)
      else (fs\<lparr>fs_nodes := (fs_nodes fs)(p \<mapsto> FileNode [])\<rparr>, None))"

text \<open>\<^verbatim>\<open>io.Copy\<close> into a file just created: up to the quota, with an error when it is exceeded.\<close>

definition copy_to :: "filesys \<Rightarrow> string \<Rightarrow> string \<Rightarrow> filesys \<times> goerror option" where
  "copy_to fs s content =
     (let p = resolve s in
      case fs_quota fs p of
        Some q \<Rightarrow>
          if length content \<le> q then (fs\<lparr>fs_nodes := (fs_nodes fs)(p \<mapsto> FileNode content)\<rparr>, None)
          else (fs\<lparr>fs_nodes := (fs_nodes fs)(p \<mapsto> FileNode (take q content))\<rparr>, Some e_no_space)
      | None \<Rightarrow> (fs\<lparr>fs_nodes := (fs_nodes fs)(p \<mapsto> FileNode content)\<rparr>, None))"

text \<open>\<^verbatim>\<open>os.Open\<close> followed by \<^verbatim>\<open>ioutil.ReadAll\<close>.\<close>

definition read_file :: "filesys \<Rightarrow> string \<Rightarrow> string result" where
  "read_file fs s =
     (case stat fs s of
        StatNotExist \<Rightarrow> Inl e_no_entry
      | StatOther e \<Rightarrow> Inl e
      | StatOk \<Rightarrow>
          (case node_at fs (resolve s) of
             Some (FileNode c) \<Rightarrow> Inr c
           | _ \<Rightarrow> Inl e_is_dir))"

section \<open>The functions of utils/files.go\<close>

definition Exists_path :: "filesys \<Rightarrow> string \<Rightarrow> bool" where
  "Exists_path fs name = (case stat fs name of StatNotExist \<Rightarrow> False | _ \<Rightarrow> True)"

definition WriteToFile :: "filesys \<Rightarrow> string \<Rightarrow> string \<Rightarrow> filesys \<times> goerror option" where
  "WriteToFile fs r newFile =
     (case create_file fs newFile of
        (fs', Some err) \<Rightarrow> (fs', Some err)
      | (fs', None) \<Rightarrow> copy_to fs' newFile r)"

text \<open>The writer is a state with a \<^verbatim>\<open>Write\<close> method returning the bytes taken and an error.\<close>

definition ReadFromFile ::
  "('w \<Rightarrow> string \<Rightarrow> 'w \<times> nat \<times> goerror option) \<Rightarrow> filesys \<Rightarrow> 'w \<Rightarrow> string \<Rightarrow> 'w \<times> goerror option" where
  "ReadFromFile write fs w f =
     (case read_file fs f of
        Inl err \<Rightarrow> (w, Some err)
      | Inr buf \<Rightarrow>
          (case write w buf of
             (w', n, Some err) \<Rightarrow> (w', Some err)
           | (w', n, None) \<Rightarrow>
               if n < length buf then (w', Some (ErrorString ''Unable to write entire config''))
               else (w', None)))"

definition MkdirIfNotExists :: "filesys \<Rightarrow> string \<Rightarrow> filesys \<times> goerror option" where
  "MkdirIfNotExists fs path = (if \<not> Exists_path fs path then MkdirAll fs path else (fs, None))"


section \<open>Paths: joining a component appends it\<close>

definition plain_comp :: "string \<Rightarrow> bool" where
  "plain_comp c = (c \<noteq> [] \<and> c \<noteq> ''.'' \<and> c \<noteq> ''..'' \<and> CHR ''/'' \<notin> set c)"

fun normal_stack :: "bool \<Rightarrow> string list \<Rightarrow> bool" where
  "normal_stack r [] = True"
| "normal_stack r (c # st) =
     (c \<noteq> [] \<and> c \<noteq> ''.'' \<and> CHR ''/'' \<notin> set c \<and>
      (c = ''..'' \<longrightarrow> \<not> r \<and> list_all (\<lambda>d. d = ''..'') st) \<and> normal_stack r st)"

lemma split_on_append: "split_on d (a @ d # b) = split_on d a @ split_on d b"
  by (induction a) (auto split: list.splits)

lemma split_on_no_sep_elem: "w \<in> set (split_on d s) \<Longrightarrow> d \<notin> set w"
  by (induction s arbitrary: w) (auto split: list.splits if_splits)

lemma normal_stack_push:
  "normal_stack r st \<Longrightarrow> CHR ''/'' \<notin> set c \<Longrightarrow> normal_stack r (push_comp r c st)"
  by (cases st) (auto simp: push_comp_def)

lemma normal_stack_fold:
  "normal_stack r st \<Longrightarrow> \<forall>c \<in> set cs. CHR ''/'' \<notin> set c \<Longrightarrow> normal_stack r (fold (push_comp r) cs st)"
  by (induction cs arbitrary: st) (auto intro: normal_stack_push)

lemma fold_push_normal: "normal_stack r st \<Longrightarrow> fold (push_comp r) (rev st) [] = st"
proof (induction st)
  case (Cons c st)
  then have "fold (push_comp r) (rev (c # st)) [] = push_comp r c st" by simp
  also have "\<dots> = c # st"
    using Cons.prems by (cases st) (auto simp: push_comp_def)
  finally show ?case .
qed simp

lemma split_join_comps:
  "cs \<noteq> [] \<Longrightarrow> \<forall>c \<in> set cs. CHR ''/'' \<notin> set c \<Longrightarrow> split_on (CHR ''/'') (join_comps cs) = cs"
  by (induction cs rule: join_comps.induct) (auto simp: split_on_no_sep split_on_append)

lemma normal_stack_no_sep: "normal_stack r st \<Longrightarrow> \<forall>c \<in> set st. CHR ''/'' \<notin> set c \<and> c \<noteq> []"
  by (induction st) auto

lemma is_rooted_join_comps:
  "\<forall>c \<in> set cs. CHR ''/'' \<notin> set c \<and> c \<noteq> [] \<Longrightarrow> \<not> is_rooted (join_comps cs)"
proof (induction cs rule: join_comps.induct)
  case 1
  then show ?case by (simp add: is_rooted_def)
next
  case (2 c)
  then show ?case by (cases c) (auto simp: is_rooted_def)
next
  case (3 c d cs)
  then show ?case by (cases c) (auto simp: is_rooted_def)
qed

lemma resolve_render:
  assumes "normal_stack r st"
  shows "resolve (render (r, rev st)) = (r, rev st)"
proof -
  have sep: "\<forall>c \<in> set (rev st). CHR ''/'' \<notin> set c \<and> c \<noteq> []"
    using normal_stack_no_sep [OF assms] by simp
  have fold: "fold (push_comp r) (split_on (CHR ''/'') (join_comps (rev st))) [] = st"
  proof (cases "st = []")
    case True
    then show ?thesis by (simp add: push_comp_def)
  next
    case False
    then show ?thesis using split_join_comps [of "rev st"] sep fold_push_normal [OF assms] by simp
  qed
  show ?thesis
  proof (cases r)
    case True
    then show ?thesis using fold by (simp add: resolve_def render_def is_rooted_def push_comp_def)
  next
    case False
    show ?thesis
    proof (cases "st = []")
      case True
      with False show ?thesis by (simp add: resolve_def render_def is_rooted_def push_comp_def)
    next
      case nonempty: False
      with False fold is_rooted_join_comps [OF sep] show ?thesis
        by (simp add: resolve_def render_def)
    qed
  qed
qed

lemma resolve_normal: "\<exists>st. normal_stack (is_rooted s) st \<and> resolve s = (is_rooted s, rev st)"
proof -
  have "normal_stack (is_rooted s) (fold (push_comp (is_rooted s)) (split_on (CHR ''/'') s) [])"
    by (rule normal_stack_fold) (auto dest: split_on_no_sep_elem)
  then show ?thesis unfolding resolve_def by blast
qed

lemma resolve_Clean: "resolve (Clean s) = resolve s"
proof -
  from resolve_normal obtain st where "normal_stack (is_rooted s) st" "resolve s = (is_rooted s, rev st)"
    by blast
  then show ?thesis unfolding Clean_def by (simp add: resolve_render)
qed

lemma join_comps_not_Nil: "cs \<noteq> [] \<Longrightarrow> \<forall>c \<in> set cs. c \<noteq> [] \<Longrightarrow> join_comps cs \<noteq> []"
  by (induction cs rule: join_comps.induct) simp_all

lemma Clean_not_Nil [simp]: "Clean s \<noteq> []"
proof -
  from resolve_normal obtain st where st: "normal_stack (is_rooted s) st" "resolve s = (is_rooted s, rev st)"
    by blast
  with normal_stack_no_sep [OF st(1)] join_comps_not_Nil [of "rev st"] show ?thesis
    by (auto simp: Clean_def render_def)
qed

lemma resolve_Join:
  assumes "plain_comp c"
  shows "resolve (Join root c) = (fst (resolve root), snd (resolve root) @ [c])"
proof -
  have c: "split_on (CHR ''/'') c = [c]" "\<And>r st. push_comp r c st = c # st" "\<not> is_rooted c"
    using assms by (cases c; auto simp: plain_comp_def split_on_no_sep push_comp_def is_rooted_def)+
  show ?thesis
  proof (cases "root = []")
    case True
    with assms c show ?thesis
      by (simp add: Join_def resolve_Clean plain_comp_def) (simp add: resolve_def is_rooted_def push_comp_def c(1,2))
  next
    case False
    then have "is_rooted (root @ CHR ''/'' # c) = is_rooted root"
      by (cases root) (auto simp: is_rooted_def)
    with False c show ?thesis
      by (simp add: Join_def resolve_Clean) (simp add: resolve_def split_on_append)
  qed
qed

lemma Join_not_Nil [simp]: "plain_comp c \<Longrightarrow> Join root c \<noteq> []"
  by (simp add: Join_def plain_comp_def)

section \<open>Laws of the file functions\<close>

lemma not_in_own_ancestors: "p \<notin> set (ancestors p)"
  by (auto simp: ancestors_def) (metis length_take less_irrefl min.absorb4 snd_conv)

lemma ancestors_Nil: "snd p = [] \<Longrightarrow> ancestors p = []"
  by (simp add: ancestors_def)

lemma ancestor_nonempty: "q \<in> set (ancestors p) \<Longrightarrow> snd q \<noteq> []"
  by (auto simp: ancestors_def)

text \<open>\<^verbatim>\<open>Stat\<close> succeeds exactly when the way down consists of directories.\<close>

definition dir_chain :: "filesys \<Rightarrow> fpath \<Rightarrow> bool" where
  "dir_chain fs p = list_all (\<lambda>q. node_at fs q = Some DirNode) (ancestors p)"

definition reachable_path :: "filesys \<Rightarrow> fpath \<Rightarrow> bool" where
  "reachable_path fs p = (\<not> list_ex (fs_denied fs) (ancestors p @ [p]) \<and> dir_chain fs p)"

lemma is_dir_iff: "n = Some DirNode \<longleftrightarrow> \<not> is_file n \<and> n \<noteq> None"
  by (auto simp: is_file_def split: option.splits node.splits)

lemma stat_ok_iff:
  "stat fs s = StatOk \<longleftrightarrow> s \<noteq> [] \<and> reachable_path fs (resolve s) \<and> node_at fs (resolve s) \<noteq> None"
  unfolding stat_def reachable_path_def dir_chain_def Let_def is_dir_iff list_all_iff list_ex_iff
  by (simp split: if_splits) blast

lemma read_file_Inr_iff:
  "read_file fs s = Inr c \<longleftrightarrow>
    s \<noteq> [] \<and> reachable_path fs (resolve s) \<and> node_at fs (resolve s) = Some (FileNode c)"
  using stat_ok_iff [of fs s]
  by (auto simp: read_file_def split: stat_result.splits option.splits node.splits)

lemma create_file_None_iff:
  "snd (create_file fs s) = None \<longleftrightarrow>
    s \<noteq> [] \<and> reachable_path fs (resolve s) \<and> node_at fs (resolve s) \<noteq> Some DirNode"
  by (auto simp: create_file_def Let_def reachable_path_def dir_chain_def)

lemma node_at_upd:
  "snd p \<noteq> [] \<Longrightarrow> node_at (fs\<lparr>fs_nodes := (fs_nodes fs)(p \<mapsto> n)\<rparr>) q = (if q = p then Some n else node_at fs q)"
  by (auto simp: node_at_def)

lemma reachable_path_upd_self:
  "snd p \<noteq> [] \<Longrightarrow> reachable_path (fs\<lparr>fs_nodes := (fs_nodes fs)(p \<mapsto> n)\<rparr>) p = reachable_path fs p"
  using not_in_own_ancestors [of p]
  by (auto simp: reachable_path_def dir_chain_def list_all_iff node_at_upd)

lemma WriteToFile_ok:
  assumes "WriteToFile fs r f = (fs', None)"
  shows "read_file fs' f = Inr r"
    and "q \<noteq> resolve f \<Longrightarrow> node_at fs' q = node_at fs q"
    and "fs_denied fs' = fs_denied fs \<and> fs_quota fs' = fs_quota fs"
proof -
  obtain g where g: "create_file fs f = (g, None)" and w: "copy_to g f r = (fs', None)"
    using assms by (auto simp: WriteToFile_def split: prod.splits option.splits)
  from g create_file_None_iff [of fs f] have ok: "f \<noteq> []" "reachable_path fs (resolve f)"
    "node_at fs (resolve f) \<noteq> Some DirNode" by auto
  then have ne: "snd (resolve f) \<noteq> []" by (auto simp: node_at_def split: if_splits)
  have g': "g = fs\<lparr>fs_nodes := (fs_nodes fs)(resolve f \<mapsto> FileNode [])\<rparr>"
    using g by (auto simp: create_file_def Let_def split: if_splits)
  have fs': "fs' = fs\<lparr>fs_nodes := (fs_nodes fs)(resolve f \<mapsto> FileNode r)\<rparr>"
    using w by (auto simp: copy_to_def g' Let_def split: option.splits if_splits)
  show "read_file fs' f = Inr r"
    using ok ne by (simp add: read_file_Inr_iff fs' reachable_path_upd_self node_at_upd)
  show "q \<noteq> resolve f \<Longrightarrow> node_at fs' q = node_at fs q" using ne by (simp add: fs' node_at_upd)
  show "fs_denied fs' = fs_denied fs \<and> fs_quota fs' = fs_quota fs" by (simp add: fs')
qed


text \<open>A copy that runs out of space leaves a truncated file behind.\<close>

lemma WriteToFile_no_space:
  assumes "WriteToFile fs r f = (fs', Some e_no_space)"
  obtains q where "fs_quota fs (resolve f) = Some q" "q < length r" "read_file fs' f = Inr (take q r)"
proof -
  have ne: "e_no_space \<noteq> e_no_entry" "e_no_space \<noteq> e_denied" "e_no_space \<noteq> e_is_dir"
    by (simp_all add: e_no_space_def e_no_entry_def e_denied_def e_is_dir_def)
  obtain g where g: "create_file fs f = (g, None)" and w: "copy_to g f r = (fs', Some e_no_space)"
    using assms ne
    by (auto simp: WriteToFile_def create_file_def Let_def split: prod.splits option.splits if_splits)
  from g create_file_None_iff [of fs f] have ok: "f \<noteq> []" "reachable_path fs (resolve f)"
    "node_at fs (resolve f) \<noteq> Some DirNode" by auto
  then have ne': "snd (resolve f) \<noteq> []" by (auto simp: node_at_def split: if_splits)
  have g': "g = fs\<lparr>fs_nodes := (fs_nodes fs)(resolve f \<mapsto> FileNode [])\<rparr>"
    using g by (auto simp: create_file_def Let_def split: if_splits)
  obtain q where q: "fs_quota fs (resolve f) = Some q" "q < length r"
    "fs' = fs\<lparr>fs_nodes := (fs_nodes fs)(resolve f \<mapsto> FileNode (take q r))\<rparr>"
    using w by (auto simp: copy_to_def g' Let_def split: option.splits if_splits)
  then show ?thesis
    using that ok ne' by (simp add: read_file_Inr_iff reachable_path_upd_self node_at_upd)
qed

text \<open>Directories made on the way down stay, and nothing else changes.\<close>

lemma mkdir_one_ok:
  assumes "mkdir_one fs p = (fs', None)"
  shows "node_at fs' p = Some DirNode" "\<not> fs_denied fs' p"
    "fs_denied fs' = fs_denied fs" "fs_quota fs' = fs_quota fs"
    "node_at fs q \<noteq> None \<Longrightarrow> node_at fs' q = node_at fs q"
  using assms
  by (auto simp: mkdir_one_def node_at_def split: if_splits option.splits node.splits)

lemma mkdir_chain_ok:
  assumes "each_until_error mkdir_one fs ps = (fs', None)"
  shows "\<forall>p \<in> set ps. node_at fs' p = Some DirNode \<and> \<not> fs_denied fs' p"
    and "fs_denied fs' = fs_denied fs" and "fs_quota fs' = fs_quota fs"
    and "\<forall>q. node_at fs q \<noteq> None \<longrightarrow> node_at fs' q = node_at fs q"
proof -
  have "(\<forall>p \<in> set ps. node_at fs' p = Some DirNode \<and> \<not> fs_denied fs' p) \<and>
    fs_denied fs' = fs_denied fs \<and> fs_quota fs' = fs_quota fs \<and>
    (\<forall>q. node_at fs q \<noteq> None \<longrightarrow> node_at fs' q = node_at fs q)"
    using assms
  proof (induction ps arbitrary: fs)
    case (Cons p ps)
    then obtain g where g: "mkdir_one fs p = (g, None)" "each_until_error mkdir_one g ps = (fs', None)"
      by (auto split: prod.splits option.splits)
    note one = mkdir_one_ok [OF g(1)] and IH = Cons.IH [OF g(2)]
    have "node_at fs' p = Some DirNode" using one(1) IH by (metis option.discI)
    moreover have "node_at fs' q = node_at fs q" if "node_at fs q \<noteq> None" for q
      using one(5) [OF that] that IH by metis
    moreover have "fs_denied fs' = fs_denied fs" "fs_quota fs' = fs_quota fs" "\<not> fs_denied fs' p"
      using one(2-4) IH by auto
    moreover have "\<forall>p \<in> set ps. node_at fs' p = Some DirNode \<and> \<not> fs_denied fs' p" using IH by blast
    ultimately show ?case by simp
  qed simp
  then show "\<forall>p \<in> set ps. node_at fs' p = Some DirNode \<and> \<not> fs_denied fs' p"
    and "fs_denied fs' = fs_denied fs" and "fs_quota fs' = fs_quota fs"
    and "\<forall>q. node_at fs q \<noteq> None \<longrightarrow> node_at fs' q = node_at fs q" by blast+
qed

lemma MkdirAll_ok:
  assumes "MkdirAll fs s = (fs', None)"
  shows "reachable_path fs' (resolve s)" "node_at fs' (resolve s) = Some DirNode"
    "fs_denied fs' = fs_denied fs" "fs_quota fs' = fs_quota fs"
    "node_at fs q \<noteq> None \<Longrightarrow> node_at fs' q = node_at fs q"
proof -
  have e: "each_until_error mkdir_one fs (ancestors (resolve s) @ [resolve s]) = (fs', None)"
    using assms by (auto simp: MkdirAll_def Let_def split: if_splits)
  note c = mkdir_chain_ok [OF e]
  show "reachable_path fs' (resolve s)"
    using c(1) by (auto simp: reachable_path_def dir_chain_def list_ex_iff list_all_iff)
  show "node_at fs' (resolve s) = Some DirNode" using c(1) by simp
  show "fs_denied fs' = fs_denied fs" "fs_quota fs' = fs_quota fs" using c by simp_all
  show "node_at fs q \<noteq> None \<Longrightarrow> node_at fs' q = node_at fs q" using c(4) by blast
qed

lemma Exists_path_iff_stat: "Exists_path fs s \<longleftrightarrow> stat fs s \<noteq> StatNotExist"
  by (auto simp: Exists_path_def split: stat_result.splits)

lemma MkdirIfNotExists_ok:
  assumes "MkdirIfNotExists fs s = (fs', None)"
  shows "Exists_path fs' s" "fs_denied fs' = fs_denied fs" "fs_quota fs' = fs_quota fs"
    "node_at fs q \<noteq> None \<Longrightarrow> node_at fs' q = node_at fs q"
proof -
  have "Exists_path fs' s \<and> fs_denied fs' = fs_denied fs \<and> fs_quota fs' = fs_quota fs \<and>
    (node_at fs q \<noteq> None \<longrightarrow> node_at fs' q = node_at fs q)"
  proof (cases "Exists_path fs s")
    case True
    with assms show ?thesis by (simp add: MkdirIfNotExists_def)
  next
    case False
    with assms have m: "MkdirAll fs s = (fs', None)" by (simp add: MkdirIfNotExists_def)
    then have "s \<noteq> []" by (auto simp: MkdirAll_def)
    with MkdirAll_ok(1,2) [OF m] have "stat fs' s = StatOk" by (simp add: stat_ok_iff)
    with MkdirAll_ok(3-) [OF m] show ?thesis by (simp add: Exists_path_iff_stat)
  qed
  then show "Exists_path fs' s" "fs_denied fs' = fs_denied fs" "fs_quota fs' = fs_quota fs"
    "node_at fs q \<noteq> None \<Longrightarrow> node_at fs' q = node_at fs q" by blast+
qed

end
