(* ===== verification/Json_Config.thy ===== *)
theory Json_Config
  imports Go_Json Go_Json_Indent Utils_Files
begin

text \<open>
  \<^verbatim>\<open>modules/config/json/jsonConfig.go\<close>: the configuration object every other component reads.
  It is a map from keys to dynamic values; \<^verbatim>\<open>Get\<close> goes through an encoding and a decoding,
  \<^verbatim>\<open>Reader\<close>, \<^verbatim>\<open>Writer\<close> and \<^verbatim>\<open>FromFile\<close> move it to a file and back. The locale
  \<open>config_store\<close> is the contract of the interface \<^verbatim>\<open>config.Config\<close> as its clients use it
  (what a \<^verbatim>\<open>Get\<close> sees after some \<^verbatim>\<open>Set\<close>s); \<^verbatim>\<open>JsonConfig\<close> is its instance.
\<close>

section \<open>The configuration and its operations\<close>

type_synonym JsonConfig = "goval gomap"

definition Marshal :: "goval \<Rightarrow> string option" where
  "Marshal v = map_option print_json (marshal v)"

definition MarshalIndent :: "goval \<Rightarrow> string option" where
  "MarshalIndent v = map_option (indent_json 0) (marshal v)"

definition Unmarshal :: "'v decoder \<Rightarrow> string \<Rightarrow> 'v \<Rightarrow> bool \<times> 'v" where
  "Unmarshal dec data val = (case parse_json data of None \<Rightarrow> (False, val) | Some j \<Rightarrow> dec val j)"

definition Get :: "'v decoder \<Rightarrow> JsonConfig \<Rightarrow> string \<Rightarrow> 'v \<Rightarrow> bool \<times> 'v" where
  "Get dec j key val =
     (case map_of j key of
        None \<Rightarrow> (False, val)
      | Some v \<Rightarrow>
          (case Marshal v of
             None \<Rightarrow> (False, val)
           | Some jsonString \<Rightarrow> Unmarshal dec jsonString val))"

definition Set :: "JsonConfig \<Rightarrow> string \<Rightarrow> goval \<Rightarrow> JsonConfig" where
  "Set j key val = AList.update key val j"

definition IsSet :: "JsonConfig \<Rightarrow> string \<Rightarrow> bool outcome" where
  "IsSet j key =
     (case map_of j key of
        None \<Rightarrow> Ret False
      | Some (GBool b) \<Rightarrow> Ret b
      | Some _ \<Rightarrow> Panic ''interface conversion'')"

definition Exists :: "JsonConfig \<Rightarrow> string \<Rightarrow> bool" where
  "Exists j key = (map_of j key \<noteq> None)"

definition DefaultConfig :: JsonConfig where
  "DefaultConfig = []"

definition String_cfg :: "JsonConfig \<Rightarrow> string" where
  "String_cfg j = (case Marshal (GMap j) of None \<Rightarrow> ''INVALID_CONFIG'' | Some buf \<Rightarrow> buf)"

definition Pretty :: "JsonConfig \<Rightarrow> string" where
  "Pretty j = (case MarshalIndent (GMap j) of None \<Rightarrow> ''INVALID_CONFIG'' | Some buf \<Rightarrow> buf)"

definition Reader :: "JsonConfig \<Rightarrow> string result" where
  "Reader j =
     (case Marshal (GMap j) of
        None \<Rightarrow> Inl (ErrorString ''json: unsupported type'')
      | Some buf \<Rightarrow> Inr buf)"

text \<open>The writer collects bytes and decodes them into its configuration when it is closed.\<close>

record writeCloser =
  wc_Buffer :: string
  wc_conf :: JsonConfig

definition Writer :: "JsonConfig \<Rightarrow> writeCloser" where
  "Writer j = \<lparr>wc_Buffer = [], wc_conf = j\<rparr>"

definition Write :: "writeCloser \<Rightarrow> string \<Rightarrow> writeCloser \<times> nat \<times> goerror option" where
  "Write w p = (w\<lparr>wc_Buffer := wc_Buffer w @ p\<rparr>, length p, None)"

definition Close_writer :: "writeCloser \<Rightarrow> writeCloser \<times> goerror option" where
  "Close_writer w =
     (case Unmarshal decode_any_map (wc_Buffer w) (wc_conf w) of
        (False, c) \<Rightarrow> (w\<lparr>wc_conf := c\<rparr>, Some (ErrorString ''json: cannot unmarshal''))
      | (True, c) \<Rightarrow> (w\<lparr>wc_conf := c, wc_Buffer := []\<rparr>, None))"

definition FromFile :: "filesys \<Rightarrow> string \<Rightarrow> JsonConfig result" where
  "FromFile fs f =
     (case ReadFromFile Write fs (Writer []) f of
        (w, Some err) \<Rightarrow> Inl err
      | (w, None) \<Rightarrow>
          (case Close_writer w of
             (w', Some err) \<Rightarrow> Inl err
           | (w', None) \<Rightarrow> Inr (wc_conf w')))"

section \<open>Well-formed configurations\<close>

definition wf_config :: "JsonConfig \<Rightarrow> bool" where
  "wf_config c = wf_goval (GMap c)"

lemma wf_configD:
  assumes "wf_config c"
  shows "wf_gomap c" "map_of c k = Some v \<Longrightarrow> wf_goval v"
  using assms by (auto simp: wf_config_def list_all_iff dest!: map_of_SomeD)

lemma wf_config_Default [simp]: "wf_config DefaultConfig"
  by (simp add: wf_config_def DefaultConfig_def)

lemma set_alist_update: "set (AList.update k v m) \<subseteq> insert (k, v) (set m)"
  by (induction m) auto

lemma wf_config_Set [simp]: "wf_config c \<Longrightarrow> wf_goval v \<Longrightarrow> wf_config (Set c k v)"
  using set_alist_update [of k v c]
  by (force simp: wf_config_def Set_def list_all_iff)

section \<open>What Get returns\<close>

text \<open>The document a key stands for; decoding it is all that \<^verbatim>\<open>Get\<close> does.\<close>

definition doc_of :: "JsonConfig \<Rightarrow> string \<Rightarrow> json option" where
  "doc_of c k = (case map_of c k of None \<Rightarrow> None | Some v \<Rightarrow> marshal v)"

lemma Unmarshal_print: "int_json j \<Longrightarrow> Unmarshal dec (print_json j) val = dec val j"
  by (simp add: Unmarshal_def parse_print_json)

lemma Get_doc_of:
  assumes "wf_config c"
  shows "Get dec c k val = (case doc_of c k of None \<Rightarrow> (False, val) | Some j \<Rightarrow> dec val j)"
proof (cases "map_of c k")
  case (Some v)
  show ?thesis
  proof (cases "marshal v")
    case None
    with Some show ?thesis by (simp add: Get_def doc_of_def Marshal_def)
  next
    case (Some j)
    from wf_configD(2) [OF assms \<open>map_of c k = Some v\<close>] Some have "int_json j"
      by (blast intro: canonical_int_json marshal_canonical)
    with Some \<open>map_of c k = Some v\<close> show ?thesis
      by (simp add: Get_def doc_of_def Marshal_def Unmarshal_print)
  qed
qed (simp add: Get_def doc_of_def)

lemma doc_of_Set: "doc_of (Set c k v) k' = (if k' = k then marshal v else doc_of c k')"
  by (simp add: doc_of_def Set_def go_simps)

lemma doc_of_Default [simp]: "doc_of DefaultConfig k = None"
  by (simp add: doc_of_def DefaultConfig_def)

lemma Exists_Set: "Exists (Set c k v) k' \<longleftrightarrow> k' = k \<or> Exists c k'"
  by (simp add: Exists_def Set_def go_simps)

lemma IsSet_Set_other: "k' \<noteq> k \<Longrightarrow> IsSet (Set c k v) k' = IsSet c k'"
  by (simp add: IsSet_def Set_def go_simps)

lemma IsSet_Set_bool: "IsSet (Set c k (GBool b)) k = Ret b"
  by (simp add: IsSet_def Set_def go_simps)

section \<open>The contract of the interface\<close>

locale config_store =
  fixes doc :: "'c \<Rightarrow> string \<Rightarrow> json option"
    and put :: "'c \<Rightarrow> string \<Rightarrow> goval \<Rightarrow> 'c"
    and flag :: "'c \<Rightarrow> string \<Rightarrow> bool outcome"
    and has :: "'c \<Rightarrow> string \<Rightarrow> bool"
    and inv :: "'c \<Rightarrow> bool"
  assumes doc_put: "doc (put c k v) k' = (if k' = k then marshal v else doc c k')"
    and flag_put: "flag (put c k (GBool b)) k = Ret b"
    and flag_put_other: "k' \<noteq> k \<Longrightarrow> flag (put c k v) k' = flag c k'"
    and has_put: "has (put c k v) k' \<longleftrightarrow> k' = k \<or> has c k'"
    and inv_put: "inv c \<Longrightarrow> wf_goval v \<Longrightarrow> inv (put c k v)"
begin

text \<open>A list of \<^verbatim>\<open>Set\<close> calls: the last write to a key is the one that counts.\<close>

definition puts :: "'c \<Rightarrow> (string \<times> goval) list \<Rightarrow> 'c" where
  "puts c kvs = fold (\<lambda>kv c. put c (fst kv) (snd kv)) kvs c"

lemma puts_simps [simp]:
  "puts c [] = c"
  "puts c (kv # kvs) = puts (put c (fst kv) (snd kv)) kvs"
  by (simp_all add: puts_def)

lemma doc_puts:
  "doc (puts c kvs) k = (case map_of (rev kvs) k of None \<Rightarrow> doc c k | Some v \<Rightarrow> marshal v)"
  by (induction kvs arbitrary: c) (auto simp: doc_put map_add_def split: option.splits)

lemma has_puts: "has (puts c kvs) k \<longleftrightarrow> k \<in> fst ` set kvs \<or> has c k"
  by (induction kvs arbitrary: c) (auto simp: has_put)

lemma flag_puts_other: "k \<notin> fst ` set kvs \<Longrightarrow> flag (puts c kvs) k = flag c k"
  by (induction kvs arbitrary: c) (auto simp: flag_put_other)

lemma inv_puts: "inv c \<Longrightarrow> list_all (\<lambda>kv. wf_goval (snd kv)) kvs \<Longrightarrow> inv (puts c kvs)"
  by (induction kvs arbitrary: c) (auto simp: inv_put)

end

interpretation jc: config_store doc_of Set IsSet Exists wf_config
  by unfold_locales (simp_all add: doc_of_Set IsSet_Set_bool IsSet_Set_other Exists_Set)

section \<open>Typed round trips through Set and Get\<close>

lemma Get_Set:
  assumes "wf_config c" "wf_goval v"
  shows "Get dec (Set c k v) k' val =
    (if k' = k then (case marshal v of None \<Rightarrow> (False, val) | Some j \<Rightarrow> dec val j)
     else Get dec c k' val)"
  using assms by (simp add: Get_doc_of doc_of_Set)

lemma decode_strings_map: "decode_strings val (JArr (map JStr ss)) = (True, ss)"
  by (simp add: decoder_defs list_all_iff comp_def)

lemma decode_str_map_entries:
  assumes "wf_gomap m"
  shows "fst (decode_str_map [] (JObj (sort_key fst (map (\<lambda>(k, s). (k, JStr s)) m))))"
    and "map_of (snd (decode_str_map [] (JObj (sort_key fst (map (\<lambda>(k, s). (k, JStr s)) m))))) = map_of m"
proof -
  let ?fs = "sort_key fst (map (\<lambda>(k, s). (k, JStr s)) m)"
  have wf: "wf_gomap ?fs"
    using assms by (simp add: wf_gomap_def distinct_map_sort_key comp_def case_prod_unfold)
  have mo: "map_of ?fs k = map_option JStr (map_of m k)" for k
  proof -
    have d: "distinct (map fst (map (\<lambda>(k, s). (k, JStr s)) m))"
      using assms by (simp add: wf_gomap_def comp_def case_prod_unfold)
    have "map_of ?fs = map_of (map (\<lambda>(k, s). (k, JStr s)) m)"
      by (rule map_of_inject_set [THEN iffD2]) (use d wf in \<open>auto simp: wf_gomap_def\<close>)
    then show ?thesis by (simp add: map_of_map)
  qed
  show "fst (decode_str_map [] (JObj ?fs))"
    by (auto simp: decoder_defs list_all_iff)
  show "map_of (snd (decode_str_map [] (JObj ?fs))) = map_of m"
    by (rule ext) (simp add: decode_map_def map_of_put_all [OF wf] mo decode_string_def split: option.splits)
qed

section \<open>Writing the configuration out and reading it back\<close>

lemma marshal_GMap_doc:
  assumes "wf_gomap c" "marshal (GMap c) = Some j"
  obtains fs where "j = JObj fs" "wf_gomap fs" "map_of fs = doc_of c"
    "\<And>k. Exists c k \<longleftrightarrow> map_of fs k \<noteq> None"
proof -
  obtain gs where gs: "those (map (\<lambda>kv. map_option (Pair (fst kv)) (marshal (snd kv))) c) = Some gs"
    and j: "j = JObj (sort_key fst gs)" using assms(2) by auto
  have keys: "map fst gs = map fst c" by (rule those_keys [OF gs])
  have wfg: "wf_gomap gs" using assms(1) keys by (simp add: wf_gomap_def)
  then have wf: "wf_gomap (sort_key fst gs)" by (simp add: wf_gomap_def distinct_map_sort_key)
  have "map_of (sort_key fst gs) = map_of gs"
    by (rule map_of_inject_set [THEN iffD2]) (use wf wfg in \<open>auto simp: wf_gomap_def\<close>)
  moreover have "map_of gs k = doc_of c k" for k
    using gs
  proof (induction c arbitrary: gs)
    case (Cons kv c)
    then obtain f gs' where f: "marshal (snd kv) = Some f" "gs = (fst kv, f) # gs'"
      "those (map (\<lambda>kv. map_option (Pair (fst kv)) (marshal (snd kv))) c) = Some gs'"
      by (auto split: option.splits)
    with Cons.IH [OF f(3)] show ?case by (cases kv) (auto simp: doc_of_def)
  qed (simp add: doc_of_def)
  moreover have "Exists c k \<longleftrightarrow> map_of gs k \<noteq> None" for k
    using keys by (metis Exists_def list.set_map map_of_eq_None_iff)
  ultimately show ?thesis using that [of "sort_key fst gs"] j wf by auto
qed

lemma Marshal_canonical:
  "wf_config c \<Longrightarrow> Marshal (GMap c) = Some s \<Longrightarrow>
    \<exists>j. marshal (GMap c) = Some j \<and> s = print_json j \<and> canonical j"
  unfolding wf_config_def Marshal_def using marshal_canonical [of "GMap c"] by auto

lemma wf_goval_any_of: "canonical j \<Longrightarrow> wf_goval (any_of j)"
proof (induction j)
  case (JObj kvs)
  then show ?case
    by (simp add: any_of_object list_all_iff wf_gomap_def comp_def del: any_of.simps(7))
qed (simp_all add: list_all_iff)

text \<open>Decoding a canonical object into a fresh configuration.\<close>

lemma decode_fresh_config:
  assumes "canonical (JObj fs)"
  shows "decode_any_map [] (JObj fs) = (True, map (\<lambda>kv. (fst kv, any_of (snd kv))) fs)"
proof -
  have "put_all (\<lambda>v. any_of v) kvs dst = put_all id (map (\<lambda>kv. (fst kv, any_of (snd kv))) kvs) dst"
    for kvs :: "(string \<times> json) list" and dst
    by (induction kvs arbitrary: dst) auto
  with assms show ?thesis
    by (simp add: decode_map_def decode_any_def list_all_iff put_all_distinct comp_def)
qed

lemma map_of_map_any: "map_of (map (\<lambda>kv. (fst kv, f (snd kv))) fs) k = map_option f (map_of fs k)"
  by (induction fs) auto

lemma reload_decoded:
  assumes "wf_config c" "Marshal (GMap c) = Some s"
  obtains c' where "Unmarshal decode_any_map s [] = (True, c')" "wf_config c'"
    "doc_of c' = doc_of c" "\<And>k. Exists c' k = Exists c k" "\<And>k. IsSet c' k = IsSet c k"
    "Marshal (GMap c') = Some s"
proof -
  obtain j where j: "marshal (GMap c) = Some j" "s = print_json j" "canonical j"
    using Marshal_canonical [OF assms] by blast
  obtain fs where fs: "j = JObj fs" "wf_gomap fs" "map_of fs = doc_of c"
    "\<And>k. Exists c k \<longleftrightarrow> map_of fs k \<noteq> None"
    using marshal_GMap_doc [OF wf_configD(1) [OF assms(1)] j(1)] by blast
  let ?c' = "map (\<lambda>kv. (fst kv, any_of (snd kv))) fs"
  have "Unmarshal decode_any_map s [] = decode_any_map [] j"
    unfolding j(2) by (rule Unmarshal_print [OF canonical_int_json [OF j(3)]])
  with decode_fresh_config j(3) fs(1) have u: "Unmarshal decode_any_map s [] = (True, ?c')"
    by metis
  have g: "any_of j = GMap ?c'"
    using j(3) fs(1) by (simp add: any_of_object del: any_of.simps(7))
  have wf: "wf_config ?c'" using wf_goval_any_of [OF j(3)] g by (simp add: wf_config_def)
  have can: "map_of fs k = Some d \<Longrightarrow> canonical d" for k d
    using j(3) fs(1) by (auto simp: list_all_iff dest!: map_of_SomeD)
  have doc: "doc_of ?c' k = doc_of c k" for k
    using can [of k] fs(3) by (auto simp: doc_of_def map_of_map_any marshal_any_of split: option.splits)
  have ex: "Exists ?c' k = Exists c k" for k
    using fs(4) by (simp add: Exists_def map_of_map_any)
  have flag: "IsSet ?c' k = IsSet c k" for k
  proof (cases "map_of c k")
    case None
    then have "map_of fs k = None" using fs(4) [of k] by (simp add: Exists_def)
    with None show ?thesis by (simp add: IsSet_def map_of_map_any)
  next
    case (Some v)
    then obtain d where "map_of fs k = Some d" using fs(4) [of k] by (auto simp: Exists_def)
    moreover from this fs(3) Some have "marshal v = Some d" by (simp add: doc_of_def)
    ultimately show ?thesis
      using Some by (cases v) (auto simp: IsSet_def map_of_map_any)
  qed
  have "Marshal (GMap ?c') = Some s"
    using marshal_any_of [OF j(3)] g j(2) by (simp add: Marshal_def del: marshal.simps)
  with u wf doc ex flag that [of ?c'] show ?thesis by blast
qed

text \<open>The indented text is decoded like the compact one.\<close>

lemma Unmarshal_Pretty:
  assumes "wf_config c" "Marshal (GMap c) = Some s"
  shows "Unmarshal dec (Pretty c) val = Unmarshal dec s val"
proof -
  obtain j where j: "marshal (GMap c) = Some j" "s = print_json j" "int_json j"
    using Marshal_canonical [OF assms] canonical_int_json by blast
  then have "Pretty c = indent_json 0 j" by (simp add: Pretty_def MarshalIndent_def del: marshal.simps)
  with j show ?thesis by (simp add: Unmarshal_print) (simp add: Unmarshal_def parse_indent_json)
qed

text \<open>Equal texts are texts of the same document.\<close>

lemma same_document:
  assumes "wf_config c" "wf_config c'" "Marshal (GMap c) = Some s" "Marshal (GMap c') = Some s"
  shows "marshal (GMap c) = marshal (GMap c')"
proof -
  obtain j j' where j: "marshal (GMap c) = Some j" "s = print_json j" "int_json j"
    "marshal (GMap c') = Some j'" "s = print_json j'" "int_json j'"
    using Marshal_canonical [OF assms(1,3)] Marshal_canonical [OF assms(2,4)] canonical_int_json by blast
  then have "j = j'" by (metis option.inject parse_print_json)
  with j(1,4) show ?thesis by (simp del: marshal.simps)
qed

lemma FromFile_read:
  assumes "read_file fs f = Inr s" "Unmarshal decode_any_map s [] = (True, c)"
  shows "FromFile fs f = Inr c"
  using assms by (simp add: FromFile_def ReadFromFile_def Writer_def Write_def Close_writer_def)

lemma Reader_Inr: "Reader c = Inr s \<longleftrightarrow> Marshal (GMap c) = Some s"
  by (auto simp: Reader_def split: option.splits)

text \<open>
  C1: a well-formed configuration that can be encoded, written to a file without error as the
  bytes of \<^verbatim>\<open>Reader\<close> or as the indented text of \<^verbatim>\<open>Pretty\<close>, is read back by \<^verbatim>\<open>FromFile\<close> as a configuration that no reader can tell from the original:
  the same keys exist, every \<^verbatim>\<open>IsSet\<close> and every typed \<^verbatim>\<open>Get\<close> answers the same, and it prints
  as the same texts.
\<close>

theorem config_file_roundtrip:
  assumes "wf_config c" "Reader c = Inr buf" "doc \<in> {buf, Pretty c}" "WriteToFile fs doc f = (fs', None)"
  shows "\<exists>c'. FromFile fs' f = Inr c' \<and> wf_config c' \<and> String_cfg c' = String_cfg c \<and> Pretty c' = Pretty c \<and>
    (\<forall>k. Exists c' k = Exists c k) \<and> (\<forall>k. IsSet c' k = IsSet c k) \<and>
    (\<forall>k val. Get dec c' k val = Get dec c k val)"
proof -
  have m: "Marshal (GMap c) = Some buf" using assms(2) by (simp add: Reader_Inr)
  obtain c' where c': "Unmarshal decode_any_map buf [] = (True, c')" "wf_config c'"
    "doc_of c' = doc_of c" "\<And>k. Exists c' k = Exists c k" "\<And>k. IsSet c' k = IsSet c k"
    "Marshal (GMap c') = Some buf"
    using reload_decoded [OF assms(1) m] by blast
  have "Unmarshal decode_any_map doc [] = (True, c')"
    using assms(3) c'(1) Unmarshal_Pretty [OF assms(1) m, of decode_any_map "[]"] by auto
  then have "FromFile fs' f = Inr c'" by (rule FromFile_read [OF WriteToFile_ok(1) [OF assms(4)]])
  moreover have "String_cfg c' = String_cfg c" using c'(6) m by (simp add: String_cfg_def)
  moreover have "Pretty c' = Pretty c" using same_document [OF c'(2) assms(1) c'(6) m] by (simp add: Pretty_def MarshalIndent_def)
  ultimately show ?thesis using c' assms(1) by (auto simp: Get_doc_of)
qed

definition sample_config :: JsonConfig where
  "sample_config = Set (Set (Set DefaultConfig ''UseGRPC'' (GBool True)) ''TCPPort'' (GInt 10001))
     ''Services'' (GStrs [''svc''])"

definition empty_fs :: filesys where
  "empty_fs = \<lparr>fs_nodes = (\<lambda>_. None), fs_denied = (\<lambda>_. False), fs_quota = (\<lambda>_. None)\<rparr>"

lemma empty_fs_write: "\<exists>fs'. WriteToFile empty_fs buf ''c.json'' = (fs', None)"
  by (simp add: WriteToFile_def create_file_def copy_to_def empty_fs_def Let_def resolve_def
      is_rooted_def push_comp_def ancestors_def node_at_def)

theorem config_file_roundtrip_witness:
  "\<exists>buf fs' c'. Reader sample_config = Inr buf \<and> WriteToFile empty_fs buf ''c.json'' = (fs', None) \<and>
    FromFile fs' ''c.json'' = Inr c' \<and> Get decode_int c' ''TCPPort'' 0 = (True, 10001)"
proof -
  have wf: "wf_config sample_config"
    by (simp add: sample_config_def safe_int_def)
  have g: "Get decode_int sample_config ''TCPPort'' 0 = (True, 10001)"
    by (simp add: Get_doc_of [OF wf]) (simp add: sample_config_def doc_of_Set decode_int_def)
  obtain buf where r: "Reader sample_config = Inr buf"
    by (simp add: Reader_def Marshal_def sample_config_def Set_def DefaultConfig_def)
  obtain fs' where w: "WriteToFile empty_fs buf ''c.json'' = (fs', None)"
    using empty_fs_write by blast
  from config_file_roundtrip [OF wf r _ w, of decode_int] g r w show ?thesis by auto
qed

text \<open>The text written does not depend on the order in which keys were set.\<close>

lemma marshal_map_order:
  assumes "wf_gomap c" "wf_gomap c'" "map_of c = map_of c'"
  shows "marshal (GMap c) = marshal (GMap c')"
proof -
  let ?enc = "\<lambda>kv. map_option (Pair (fst kv)) (marshal (snd kv))"
  have set: "set c = set c'"
    using assms map_of_inject_set [of c c'] by (simp add: wf_gomap_def)
  have none: "those (map ?enc m) = None \<longleftrightarrow> (\<exists>kv \<in> set m. marshal (snd kv) = None)" for m
    by (induction m) (auto split: option.splits)
  show ?thesis
  proof (cases "those (map ?enc c)")
    case None
    then have "those (map ?enc c') = None" using none set by metis
    with None show ?thesis by simp
  next
    case (Some gs)
    then have "those (map ?enc c') \<noteq> None" using none set by (metis option.discI)
    then obtain gs' where gs': "those (map ?enc c') = Some gs'" by auto
    from marshal_GMap_doc [OF assms(1)] Some obtain fs where
      fs: "sort_key fst gs = fs" "wf_gomap fs" "map_of fs = doc_of c" by auto
    from marshal_GMap_doc [OF assms(2)] gs' obtain fs' where
      fs': "sort_key fst gs' = fs'" "wf_gomap fs'" "map_of fs' = doc_of c'" by auto
    have "doc_of c = doc_of c'" using assms(3) by (simp add: doc_of_def fun_eq_iff)
    then have "sort_key fst fs = sort_key fst fs'"
      using fs fs' by (intro sorted_entries_unique) simp_all
    moreover have "sort_key fst fs = fs" "sort_key fst fs' = fs'"
      using fs(1) fs'(1) by (metis sort_key_id_if_sorted sorted_sort_key)+
    ultimately show ?thesis using Some gs' fs(1) fs'(1) by simp
  qed
qed

text \<open>
  The text of a configuration is canonical. Two well-formed configurations with the
  same entries, set in whatever order, print the same string and hand the same bytes to
  the file.
\<close>

lemma config_text_canonical:
  assumes "wf_config c" "wf_config c'" "map_of c = map_of c'"
  shows "String_cfg c = String_cfg c' \<and> Reader c = Reader c'"
  using marshal_map_order [of c c'] assms wf_configD(1)
  by (simp add: String_cfg_def Reader_def Marshal_def)

lemma config_text_canonical_sample:
  "String_cfg (Set (Set DefaultConfig ''b'' (GInt 1)) ''a'' (GStr ''x'')) =
     String_cfg (Set (Set DefaultConfig ''a'' (GStr ''x'')) ''b'' (GInt 1)) \<and>
   Reader (Set (Set DefaultConfig ''b'' (GInt 1)) ''a'' (GStr ''x'')) =
     Reader (Set (Set DefaultConfig ''a'' (GStr ''x'')) ''b'' (GInt 1))"
  by (rule config_text_canonical) (auto simp: safe_int_def Set_def DefaultConfig_def wf_config_def wf_gomap_def)

end
