(* ===== verification/Go_Base64.thy ===== *)
theory Go_Base64
  imports Go_Prelude
begin

text \<open>
  \<^verbatim>\<open>base64.StdEncoding\<close>: keys are stored in the configuration, and byte slices in JSON
  messages, in this form. The encoder pads with \<^verbatim>\<open>=\<close>; the decoder skips line breaks and
  rejects everything else that is not in the alphabet.
\<close>

definition b64_char :: "nat \<Rightarrow> char" where
  "b64_char n =
     (if n < 26 then char_of (65 + n)
      else if n < 52 then char_of (71 + n)
      else if n < 62 then char_of (n - 4)
      else if n = 62 then CHR ''+'' else CHR ''/'')"

definition b64_val :: "char \<Rightarrow> nat option" where
  "b64_val c =
     (let n = (of_char c :: nat) in
      if 65 \<le> n \<and> n \<le> 90 then Some (n - 65)
      else if 97 \<le> n \<and> n \<le> 122 then Some (n - 71)
      else if 48 \<le> n \<and> n \<le> 57 then Some (n + 4)
      else if n = 43 then Some 62
      else if n = 47 then Some 63
      else None)"

fun b64_encode :: "string \<Rightarrow> string" where
  "b64_encode [] = []"
| "b64_encode [a] =
     [b64_char (of_char a div 4), b64_char (of_char a mod 4 * 16), CHR ''='', CHR ''='']"
| "b64_encode [a, b] =
     [b64_char (of_char a div 4), b64_char (of_char a mod 4 * 16 + of_char b div 16),
      b64_char (of_char b mod 16 * 4), CHR ''='']"
| "b64_encode (a # b # c # r) =
     b64_char (of_char a div 4) # b64_char (of_char a mod 4 * 16 + of_char b div 16) #
     b64_char (of_char b mod 16 * 4 + of_char c div 64) # b64_char (of_char c mod 64) # b64_encode r"

definition b64_byte1 :: "nat \<Rightarrow> nat \<Rightarrow> char" where
  "b64_byte1 w x = char_of (w * 4 + x div 16)"
definition b64_byte2 :: "nat \<Rightarrow> nat \<Rightarrow> char" where
  "b64_byte2 x y = char_of (x mod 16 * 16 + y div 4)"
definition b64_byte3 :: "nat \<Rightarrow> nat \<Rightarrow> char" where
  "b64_byte3 y z = char_of (y mod 4 * 64 + z)"

fun b64_groups :: "string \<Rightarrow> string option" where
  "b64_groups [] = Some []"
| "b64_groups (p # q # r # s # rest) =
     (if s = CHR ''='' then
        (if rest \<noteq> [] then None
         else if r = CHR ''='' then
           do { w \<leftarrow> b64_val p; x \<leftarrow> b64_val q; Some [b64_byte1 w x] }
         else
           do { w \<leftarrow> b64_val p; x \<leftarrow> b64_val q; y \<leftarrow> b64_val r; Some [b64_byte1 w x, b64_byte2 x y] })
      else
        do { w \<leftarrow> b64_val p; x \<leftarrow> b64_val q; y \<leftarrow> b64_val r; z \<leftarrow> b64_val s;
             bs \<leftarrow> b64_groups rest;
             Some (b64_byte1 w x # b64_byte2 x y # b64_byte3 y z # bs) })"
| "b64_groups _ = None"

definition b64_decode :: "string \<Rightarrow> string option" where
  "b64_decode s = b64_groups (filter (\<lambda>c. c \<noteq> CHR 0x0A \<and> c \<noteq> CHR 0x0D) s)"

lemma b64_val_char: "n < 64 \<Longrightarrow> b64_val (b64_char n) = Some n"
  by (auto simp: b64_val_def b64_char_def Let_def)

lemma b64_char_special: "n < 64 \<Longrightarrow> b64_char n \<noteq> CHR ''='' \<and> b64_char n \<noteq> CHR 0x0A \<and> b64_char n \<noteq> CHR 0x0D"
  using b64_val_char [of n] by (auto simp: b64_val_def)

lemma of_char_less_256: "(of_char c :: nat) < 256"
  by simp

lemma b64_encode_no_newline: "\<forall>c \<in> set (b64_encode s). c \<noteq> CHR 0x0A \<and> c \<noteq> CHR 0x0D"
proof (induction s rule: b64_encode.induct)
  case (2 a)
  have "(of_char a :: nat) div 4 < 64" "(of_char a :: nat) mod 4 * 16 < 64"
    using of_char_less_256 [of a] by linarith+
  then show ?case by (simp add: b64_char_special)
next
  case (3 a b)
  have "(of_char a :: nat) div 4 < 64" "(of_char a :: nat) mod 4 * 16 + of_char b div 16 < 64"
    "(of_char b :: nat) mod 16 * 4 < 64"
    using of_char_less_256 [of a] of_char_less_256 [of b] by linarith+
  then show ?case by (simp add: b64_char_special)
next
  case (4 a b c r)
  have "(of_char a :: nat) div 4 < 64" "(of_char a :: nat) mod 4 * 16 + of_char b div 16 < 64"
    "(of_char b :: nat) mod 16 * 4 + of_char c div 64 < 64" "(of_char c :: nat) mod 64 < 64"
    using of_char_less_256 [of a] of_char_less_256 [of b] of_char_less_256 [of c] by linarith+
  then show ?case using 4 by (simp add: b64_char_special)
qed simp

lemma b64_bytes:
  assumes "(a :: nat) < 256" "b < 256" "c < 256"
  shows "a div 4 * 4 + (a mod 4 * 16 + b div 16) div 16 = a"
    and "(a mod 4 * 16 + b div 16) mod 16 * 16 + (b mod 16 * 4 + c div 64) div 4 = b"
    and "(b mod 16 * 4 + c div 64) mod 4 * 64 + c mod 64 = c"
proof -
  have k: "b div 16 < 16" "c div 64 < 4" using assms by linarith+
  have d: "(x * m + y) div m = x" "(x * m + y) mod m = y" if "y < m" for x y m :: nat
    using that by simp_all
  show "a div 4 * 4 + (a mod 4 * 16 + b div 16) div 16 = a"
    unfolding d(1) [OF k(1)] by simp
  show "(a mod 4 * 16 + b div 16) mod 16 * 16 + (b mod 16 * 4 + c div 64) div 4 = b"
    unfolding d(2) [OF k(1)] d(1) [OF k(2)] by simp
  show "(b mod 16 * 4 + c div 64) mod 4 * 64 + c mod 64 = c"
    unfolding d(2) [OF k(2)] by simp
qed

lemma b64_byte_simps:
  "b64_byte1 (of_char a div 4) (of_char a mod 4 * 16 + of_char b div 16) = a"
  "b64_byte2 (of_char a mod 4 * 16 + of_char b div 16) (of_char b mod 16 * 4 + of_char c div 64) = b"
  "b64_byte3 (of_char b mod 16 * 4 + of_char c div 64) (of_char c mod 64) = c"
  using b64_bytes [of "of_char a" "of_char b" "of_char c"]
  by (simp_all only: b64_byte1_def b64_byte2_def b64_byte3_def of_char_less_256 char_of_char)

lemma b64_byte_tail_simps:
  "b64_byte1 (of_char a div 4) (of_char a mod 4 * 16) = a"
  "b64_byte2 (of_char a mod 4 * 16 + of_char b div 16) (of_char b mod 16 * 4) = b"
  using b64_byte_simps(1) [of a "CHR 0x00"] b64_byte_simps(2) [of a b "CHR 0x00"] by simp_all

lemma b64_groups_encode: "b64_groups (b64_encode s) = Some s"
proof (induction s rule: b64_encode.induct)
  case (2 a)
  have b: "(of_char a :: nat) div 4 < 64" "(of_char a :: nat) mod 4 * 16 < 64"
    using of_char_less_256 [of a] by linarith+
  show ?case by (simp add: b64_val_char [OF b(1)] b64_val_char [OF b(2)] b64_byte_tail_simps)
next
  case (3 a b)
  have b: "(of_char a :: nat) div 4 < 64" "(of_char a :: nat) mod 4 * 16 + of_char b div 16 < 64"
    "(of_char b :: nat) mod 16 * 4 < 64"
    using of_char_less_256 [of a] of_char_less_256 [of b] by linarith+
  show ?case
    using b64_char_special [OF b(3)]
    by (simp add: b64_val_char [OF b(1)] b64_val_char [OF b(2)] b64_val_char [OF b(3)]
        b64_byte_simps b64_byte_tail_simps)
next
  case (4 a b c r)
  have b: "(of_char a :: nat) div 4 < 64" "(of_char a :: nat) mod 4 * 16 + of_char b div 16 < 64"
    "(of_char b :: nat) mod 16 * 4 + of_char c div 64 < 64" "(of_char c :: nat) mod 64 < 64"
    using of_char_less_256 [of a] of_char_less_256 [of b] of_char_less_256 [of c] by linarith+
  show ?case
    using b64_char_special [OF b(4)] 4
    by (simp add: b64_val_char [OF b(1)] b64_val_char [OF b(2)] b64_val_char [OF b(3)]
        b64_val_char [OF b(4)] b64_byte_simps)
qed simp

lemma b64_decode_encode [simp]: "b64_decode (b64_encode s) = Some s"
proof -
  have "filter (\<lambda>c. c \<noteq> CHR 0x0A \<and> c \<noteq> CHR 0x0D) (b64_encode s) = b64_encode s"
    using b64_encode_no_newline [of s] by (simp add: filter_id_conv)
  then show ?thesis by (simp add: b64_decode_def b64_groups_encode)
qed

end
