(* ===== verification/Protocols.thy ===== *)
theory Protocols
  imports Go_Prelude "HOL-Library.Word"
begin

text \<open>
  \<^verbatim>\<open>modules/protocols/protocols.go\<close>: request-response protocols over a stream. A message travels
  as two bytes of length (little endian) and its encoding. Modelled are the length bytes at
  their width of 16 bits, the buffered reader of the standard library on top of a stream
  that delivers its bytes in arbitrary portions, the frame reader and writer, the stream
  handler that \<^verbatim>\<open>Register\<close> installs, and \<^verbatim>\<open>SendMsg\<close>.

  The stream itself (\<^verbatim>\<open>libp2p\<close>) is a parameter: a write function, and the sequence of portions
  its reads return. The locale \<open>message\<close> is the interface \<^verbatim>\<open>Message\<close>; what the transport of
  messages guarantees is proved in it.
\<close>

unbundle bit_operations_syntax

section \<open>Length bytes\<close>

definition PutUint16 :: "16 word \<Rightarrow> string" where
  "PutUint16 v = [char_of (unat (v AND 255)), char_of (unat (drop_bit 8 v))]"

definition Uint16 :: "string \<Rightarrow> 16 word" where
  "Uint16 b = (word_of_nat (of_char (b ! 0)) OR push_bit 8 (word_of_nat (of_char (b ! 1))))"

lemma word_byte: "(x :: 16 word) < 256 \<Longrightarrow> word_of_nat (unat x mod 256) = x"
proof -
  assume "x < 256"
  then have "unat x < 256" by (simp add: word_less_nat_alt)
  then show ?thesis by simp
qed

lemma Uint16_PutUint16 [simp]: "Uint16 (PutUint16 v) = v"
proof -
  have "v AND 255 < (256 :: 16 word)"
    using word_and_le1 [of v 255] by (simp add: word_le_nat_alt word_less_nat_alt)
  moreover have "drop_bit 8 v < (256 :: 16 word)"
  proof -
    have "unat v < 2 ^ LENGTH(16)" by (rule unsigned_less)
    then have "unat v div 2 ^ 8 < 256" by (simp add: less_mult_imp_div_less)
    then show ?thesis by (simp add: word_less_nat_alt drop_bit_eq_div unat_div)
  qed
  moreover have "(v AND 255) OR push_bit 8 (drop_bit 8 v) = v"
  proof -
    have "v AND 255 = take_bit 8 v" by (simp add: take_bit_eq_mask mask_numeral)
    then show ?thesis by (auto intro!: bit_word_eqI simp: bit_simps)
  qed
  ultimately show ?thesis by (simp add: Uint16_def PutUint16_def word_byte)
qed

lemma PutUint16_length [simp]: "length (PutUint16 v) = 2"
  by (simp add: PutUint16_def)

section \<open>Buffered reading\<close>

text \<open>
  The state of a \<^verbatim>\<open>bufio.Reader\<close>: the bytes it holds, the portions the stream's next reads will
  return, and the error that follows them. A read of the stream returns at most one
  portion; a request as large as the buffer bypasses it.
\<close>

record bufio_reader =
  rd_buf :: string
  rd_chunks :: "string list"
  rd_err :: goerror

definition EOF :: goerror where "EOF = ErrorString ''EOF''"
definition ErrUnexpectedEOF :: goerror where "ErrUnexpectedEOF = ErrorString ''unexpected EOF''"

definition default_buf_size :: nat where "default_buf_size = 4096"

definition rest_chunks :: "string \<Rightarrow> string list \<Rightarrow> string list" where
  "rest_chunks c cs = (if c = [] then cs else c # cs)"

definition Read :: "bufio_reader \<Rightarrow> nat \<Rightarrow> (string \<times> bufio_reader) result" where
  "Read r n =
     (if n = 0 then Inr ([], r)
      else if rd_buf r \<noteq> [] then Inr (take n (rd_buf r), r\<lparr>rd_buf := drop n (rd_buf r)\<rparr>)
      else
        (case rd_chunks r of
           [] \<Rightarrow> Inl (rd_err r)
         | c # cs \<Rightarrow>
             if default_buf_size \<le> n
             then Inr (take n c, r\<lparr>rd_chunks := rest_chunks (drop n c) cs\<rparr>)
             else Inr (take n c, r\<lparr>rd_buf := drop n (take default_buf_size c),
                    rd_chunks := rest_chunks (drop default_buf_size c) cs\<rparr>)))"

text \<open>All the bytes that are still to come.\<close>

definition content :: "bufio_reader \<Rightarrow> string" where
  "content r = rd_buf r @ concat (rd_chunks r)"

definition reader_size :: "bufio_reader \<Rightarrow> nat" where
  "reader_size r = length (content r) + length (rd_chunks r)"

lemma concat_rest_chunks [simp]: "concat (rest_chunks c cs) = c @ concat cs"
  by (simp add: rest_chunks_def)

lemma length_rest_chunks: "length (rest_chunks c cs) \<le> Suc (length cs)" "rest_chunks [] cs = cs"
  by (simp_all add: rest_chunks_def)

lemma take_drop_buffer: "n \<le> m \<Longrightarrow> take n c @ drop n (take m c) @ drop m c = c"
  by (metis append.assoc append_take_drop_id min.absorb1 take_take)

lemma Read_content:
  "Read r n = Inr (bs, r') \<Longrightarrow> content r = bs @ content r' \<and> length bs \<le> n \<and> rd_err r' = rd_err r"
  by (auto simp: Read_def content_def take_drop_buffer split: if_splits list.splits)

lemma Read_progress:
  "Read r n = Inr (bs, r') \<Longrightarrow> 0 < n \<Longrightarrow> bs = [] \<Longrightarrow> reader_size r' < reader_size r"
  by (auto simp: Read_def reader_size_def content_def default_buf_size_def rest_chunks_def split: if_splits list.splits)

text \<open>\<^verbatim>\<open>io.ReadFull\<close>: reads until \<open>n\<close> bytes have arrived; \<open>got\<close> tells whether some have.\<close>

function ReadFull_from :: "bool \<Rightarrow> bufio_reader \<Rightarrow> nat \<Rightarrow> (string \<times> bufio_reader) result" where
  "ReadFull_from got r n =
     (if n = 0 then Inr ([], r)
      else
        (case Read r n of
           Inl err \<Rightarrow> Inl (if got \<and> err = EOF then ErrUnexpectedEOF else err)
         | Inr (bs, r') \<Rightarrow>
             (case ReadFull_from (got \<or> bs \<noteq> []) r' (n - length bs) of
                Inl err \<Rightarrow> Inl err
              | Inr (after, r'') \<Rightarrow> Inr (bs @ after, r''))))"
  by pat_completeness auto
termination
proof (relation "measure (\<lambda>(got, r, n). n + reader_size r)", goal_cases)
  case (2 got r n y bs r')
  then have rd: "Read r n = Inr (bs, r')" by simp
  have "reader_size r' \<le> reader_size r"
    using rd by (auto simp: Read_def reader_size_def content_def default_buf_size_def rest_chunks_def
        split: if_splits list.splits)
  with Read_progress [OF rd] 2(1) show ?case by (cases bs) auto
qed simp

declare ReadFull_from.simps [simp del]

definition ReadFull :: "bufio_reader \<Rightarrow> nat \<Rightarrow> (string \<times> bufio_reader) result" where
  "ReadFull r n = ReadFull_from False r n"

lemma Read_fails: "Read r n = Inl e \<Longrightarrow> content r = [] \<and> 0 < n"
  by (auto simp: Read_def content_def split: if_splits list.splits)

lemma ReadFull_from_enough:
  "n \<le> length (content r) \<Longrightarrow>
    \<exists>r'. ReadFull_from got r n = Inr (take n (content r), r') \<and> content r' = drop n (content r) \<and> rd_err r' = rd_err r"
proof (induction got r n rule: ReadFull_from.induct)
  case (1 got r n)
  show ?case
  proof (cases "n = 0")
    case True
    then show ?thesis by (simp add: ReadFull_from.simps)
  next
    case False
    with "1.prems" Read_fails obtain bs r' where rd: "Read r n = Inr (bs, r')"
      by (cases "Read r n") fastforce+
    from Read_content [OF rd] have c: "content r = bs @ content r'" "length bs \<le> n" "rd_err r' = rd_err r" by auto
    with "1.prems" have "n - length bs \<le> length (content r')" by simp
    from "1.IH" [OF False rd refl this] obtain r'' where
      "ReadFull_from (got \<or> bs \<noteq> []) r' (n - length bs) = Inr (take (n - length bs) (content r'), r'')"
      "content r'' = drop (n - length bs) (content r')" "rd_err r'' = rd_err r'" by blast
    with False rd c show ?thesis by (subst ReadFull_from.simps) (simp add: take_append)
  qed
qed

lemma ReadFull_from_short:
  "length (content r) < n \<Longrightarrow> \<exists>e. ReadFull_from got r n = Inl e"
proof (induction got r n rule: ReadFull_from.induct)
  case (1 got r n)
  then have n: "n \<noteq> 0" by simp
  show ?case
  proof (cases "Read r n")
    case (Inl e)
    with n show ?thesis by (subst ReadFull_from.simps) simp
  next
    case (Inr p)
    obtain bs r' where p: "p = (bs, r')" by (cases p)
    from Read_content [OF Inr [unfolded p]] "1.prems" have "length (content r') < n - length bs" by simp
    from "1.IH" [OF n Inr [unfolded p] refl this] n Inr p show ?thesis
      by (subst ReadFull_from.simps) auto
  qed
qed

section \<open>Messages and frames\<close>

text \<open>The interface \<^verbatim>\<open>Message\<close>: \<^verbatim>\<open>Unmarshal\<close> fills the object it is called on.\<close>

record 'm Message =
  msg_Marshal :: "'m \<Rightarrow> string result"
  msg_Unmarshal :: "'m \<Rightarrow> string \<Rightarrow> 'm result"

definition WriteMsg ::
  "'m Message \<Rightarrow> ('w \<Rightarrow> string \<Rightarrow> 'w \<times> goerror option) \<Rightarrow> 'w \<Rightarrow> 'm \<Rightarrow> 'w \<times> goerror option" where
  "WriteMsg M stream_Write w msg =
     (case msg_Marshal M msg of
        Inl err \<Rightarrow> (w, Some err)
      | Inr msgBuf \<Rightarrow>
          (case stream_Write w (PutUint16 (word_of_nat (length msgBuf))) of
             (w', Some err) \<Rightarrow> (w', Some err)
           | (w', None) \<Rightarrow> stream_Write w' msgBuf))"

text \<open>The length buffer starts out zeroed; a short first read leaves its rest zero.\<close>

definition ReadMsg :: "'m Message \<Rightarrow> bufio_reader \<Rightarrow> 'm \<Rightarrow> ('m \<times> bufio_reader) result" where
  "ReadMsg M r msg =
     (case Read r 2 of
        Inl err \<Rightarrow> Inl err
      | Inr (bs, r1) \<Rightarrow>
          (let len = Uint16 (bs @ replicate (2 - length bs) CHR 0x00) in
           case ReadFull r1 (unat len) of
             Inl err \<Rightarrow> Inl err
           | Inr (buf, r2) \<Rightarrow>
               (case msg_Unmarshal M msg buf of
                  Inl err \<Rightarrow> Inl err
                | Inr msg' \<Rightarrow> Inr (msg', r2))))"

definition newReader :: "string list \<Rightarrow> goerror \<Rightarrow> bufio_reader" where
  "newReader chunks err = \<lparr>rd_buf = [], rd_chunks = chunks, rd_err = err\<rparr>"

section \<open>Protocols\<close>

text \<open>A protocol: its identifier, its handler (over its own state), its factories and the codecs
  of its two kinds of messages.\<close>

record ('p, 'req, 'resp) Protocol =
  p_ID :: string
  p_HandleMsg :: "'p \<Rightarrow> 'req \<Rightarrow> string \<Rightarrow> 'p \<times> 'resp result"
  p_ReqFactory :: 'req
  p_RespFactory :: 'resp
  p_Req :: "'req Message"
  p_Resp :: "'resp Message"

text \<open>How the handler leaves the stream: reset with the error it logs, or open.\<close>

datatype stream_end = Reset goerror | Open

text \<open>The handler \<^verbatim>\<open>Register\<close> installs for a protocol.\<close>

definition stream_handler ::
  "('p, 'req, 'resp) Protocol \<Rightarrow> ('w \<Rightarrow> string \<Rightarrow> 'w \<times> goerror option) \<Rightarrow> 'p \<Rightarrow> bufio_reader \<Rightarrow> 'w \<Rightarrow> string \<Rightarrow>
     'p \<times> 'w \<times> stream_end" where
  "stream_handler p stream_Write ps rdr w remote =
     (case ReadMsg (p_Req p) rdr (p_ReqFactory p) of
        Inl err \<Rightarrow> (ps, w, Reset err)
      | Inr (req, _) \<Rightarrow>
          (case p_HandleMsg p ps req remote of
             (ps', Inl err) \<Rightarrow> (ps', w, Reset err)
           | (ps', Inr resp) \<Rightarrow>
               (case WriteMsg (p_Resp p) stream_Write w resp of
                  (w', Some err) \<Rightarrow> (ps', w', Reset err)
                | (w', None) \<Rightarrow> (ps', w', Open))))"

text \<open>The host's table of stream handlers.\<close>

definition Register ::
  "('p, 'req, 'resp) Protocol gomap \<Rightarrow> ('p, 'req, 'resp) Protocol \<Rightarrow> ('p, 'req, 'resp) Protocol gomap" where
  "Register handlers p = AList.update (p_ID p) p handlers"

text \<open>
  \<^verbatim>\<open>NewStream\<close> gives the write side of a stream and its read side, which delivers what the peer
  sends in answer to what has been written.
\<close>

definition SendMsg ::
  "(string \<Rightarrow> string \<Rightarrow> ('w \<times> ('w \<Rightarrow> bufio_reader)) result) \<Rightarrow> ('w \<Rightarrow> string \<Rightarrow> 'w \<times> goerror option) \<Rightarrow>
     string \<Rightarrow> ('p, 'req, 'resp) Protocol \<Rightarrow> 'req \<Rightarrow> 'resp result" where
  "SendMsg NewStream stream_Write peer p msg =
     (case NewStream peer (p_ID p) of
        Inl err \<Rightarrow> Inl err
      | Inr (w, incoming) \<Rightarrow>
          (case WriteMsg (p_Req p) stream_Write w msg of
             (_, Some err) \<Rightarrow> Inl err
           | (w', None) \<Rightarrow>
               (case ReadMsg (p_Resp p) (incoming w') (p_RespFactory p) of
                  Inl err \<Rightarrow> Inl err
                | Inr (resp, _) \<Rightarrow> Inr resp)))"

section \<open>What reaches the other side\<close>

definition frame :: "string \<Rightarrow> string" where
  "frame buf = PutUint16 (word_of_nat (length buf)) @ buf"

text \<open>Documented behaviour of a stream's writes: without error, all bytes are sent.\<close>

definition stream_writes :: "('w \<Rightarrow> string \<Rightarrow> 'w \<times> goerror option) \<Rightarrow> ('w \<Rightarrow> string) \<Rightarrow> bool" where
  "stream_writes stream_Write sent \<longleftrightarrow>
     (\<forall>w b w'. stream_Write w b = (w', None) \<longrightarrow> sent w' = sent w @ b)"

text \<open>Documented behaviour of a stream's reads: they deliver the bytes that were written, in order, in
  portions of any size, and nothing when nothing was written.\<close>

definition delivers :: "('w \<Rightarrow> string) \<Rightarrow> ('w \<Rightarrow> string list) \<Rightarrow> bool" where
  "delivers sent portions \<longleftrightarrow>
     (\<forall>w. concat (portions w) = sent w \<and> (sent w = [] \<longrightarrow> portions w = []))"

text \<open>
  The bytes a receiver takes for the body of a frame whose bytes reach it in the given portions.
  Only the size of the first portion matters: with both length bytes in it, the length is
  right up to its width; with one byte, the low byte is the length and the high byte the
  first byte of the body; with none, the length is zero.
\<close>

definition received :: "string list \<Rightarrow> string \<Rightarrow> string" where
  "received portions buf =
     (if 2 \<le> length (hd portions) then take (length buf mod 65536) buf
      else if length (hd portions) = 1
           then take (length buf mod 256) (char_of (length buf div 256) # buf)
      else [])"

lemma WriteMsg_sent:
  assumes "stream_writes W sent" "WriteMsg M W w m = (w', None)"
  obtains buf where "msg_Marshal M m = Inr buf" "sent w' = sent w @ frame buf"
proof -
  from assms(2) obtain buf w1 where b: "msg_Marshal M m = Inr buf"
    "W w (PutUint16 (word_of_nat (length buf))) = (w1, None)" "W w1 buf = (w', None)"
    by (auto simp: WriteMsg_def split: sum.splits prod.splits option.splits)
  with assms(1) have "sent w' = sent w @ frame buf" by (simp add: stream_writes_def frame_def)
  with b(1) that show ?thesis by blast
qed

lemma WriteMsg_total:
  assumes "\<forall>w b. snd (W w b) = None" "\<exists>b. msg_Marshal M m = Inr b"
  shows "\<exists>w'. WriteMsg M W w m = (w', None)"
proof -
  define f where "f = (\<lambda>u x. fst (W u x))"
  have "W u x = (f u x, None)" for u x using assms(1) unfolding f_def by (metis prod.collapse)
  with assms(2) show ?thesis by (auto simp: WriteMsg_def)
qed

text \<open>The first read of a fresh reader: at most two bytes, and never more than the first portion.\<close>

lemma Read_length_bytes:
  assumes "concat portions = bytes" "bytes \<noteq> []"
  obtains r1 where "Read (newReader portions e) 2 = Inr (take (min 2 (length (hd portions))) bytes, r1)"
    "content r1 = drop (min 2 (length (hd portions))) bytes"
proof -
  from assms obtain c cs where c: "portions = c # cs" "bytes = c @ concat cs" by (cases portions) auto
  then obtain r1 where r1: "Read (newReader portions e) 2 = Inr (take 2 c, r1)"
    by (simp add: Read_def newReader_def default_buf_size_def)
  have two: "take 2 c = take (min 2 (length c)) bytes" by (simp add: c(2) min_def)
  from Read_content [OF r1] assms(1) have "take 2 c @ content r1 = bytes" by (simp add: content_def newReader_def)
  then have "content r1 = drop (length (take 2 c)) bytes" by (metis append_eq_conv_conj)
  moreover have "length (take 2 c) = min 2 (length (hd portions))" by (simp add: c(1) min.commute)
  ultimately show ?thesis using that r1 two c(1) by simp
qed

lemma length_bytes:
  "PutUint16 (word_of_nat n) = [char_of n, char_of (n div 256)]"
proof -
  have low: "unat (word_of_nat n AND 255 :: 16 word) = n mod 256"
  proof -
    have "word_of_nat n AND 255 = take_bit 8 (word_of_nat n :: 16 word)"
      by (simp add: take_bit_eq_mask mask_numeral)
    then have "unat (word_of_nat n AND 255 :: 16 word) = take_bit 8 (take_bit 16 n)"
      by (simp only: unsigned_take_bit_eq unsigned_of_nat) simp
    then show ?thesis by (simp add: take_bit_eq_mod mod_mod_cancel)
  qed
  have "unat (drop_bit 8 (word_of_nat n) :: 16 word) = n mod 65536 div 256"
    by (simp add: drop_bit_eq_div unat_div unsigned_of_nat take_bit_eq_mod)
  also have "\<dots> = n div 256 mod 256" using mod_mult2_eq [of n 256 256] by simp
  finally show ?thesis by (simp add: PutUint16_def low)
qed

text \<open>What the length field reads as, by the bytes of it that came with the first read.\<close>

lemma Uint16_portion:
  assumes "k \<le> 2" "hdr = take k (frame buf)"
  shows "unat (Uint16 (hdr @ replicate (2 - length hdr) CHR 0x00)) =
    (if k = 2 then length buf mod 65536 else if k = 1 then length buf mod 256 else 0)"
proof -
  consider "k = 0" | "k = 1" | "k = 2" using assms(1) by linarith
  then show ?thesis
  proof cases
    case 3
    then have "hdr = PutUint16 (word_of_nat (length buf))" using assms(2) by (simp add: frame_def)
    with 3 show ?thesis by (simp add: unsigned_of_nat take_bit_eq_mod)
  next
    case 2
    then have "hdr = [char_of (length buf)]" using assms(2) by (simp add: frame_def length_bytes)
    moreover have "length buf mod 256 mod 65536 = length buf mod 256"
      by (rule mod_less) (rule order.strict_trans [OF mod_less_divisor], simp_all)
    ultimately show ?thesis using 2 by (simp add: Uint16_def unsigned_of_nat take_bit_eq_mod)
  qed (use assms(2) in \<open>simp_all add: Uint16_def\<close>)
qed

lemma received_body:
  "take (if min 2 (length (hd portions)) = 2 then length buf mod 65536
         else if min 2 (length (hd portions)) = 1 then length buf mod 256 else 0)
     (drop (min 2 (length (hd portions))) (frame buf @ rest)) = received portions buf"
proof -
  have le: "length buf mod 65536 \<le> length buf" "length buf mod 256 \<le> Suc (length buf)"
    using mod_less_eq_dividend [of "length buf" 256] by (simp_all only: mod_less_eq_dividend le_SucI)
  consider "length (hd portions) = 0" | "length (hd portions) = 1" | "2 \<le> length (hd portions)" by linarith
  then show ?thesis
  proof cases
    case 2
    have "take (length buf mod 256) ((char_of (length buf div 256) # buf) @ rest) =
        take (length buf mod 256) (char_of (length buf div 256) # buf)"
      using le(2) by (simp only: take_append list.size) simp
    with 2 show ?thesis by (simp add: received_def frame_def length_bytes)
  qed (use le(1) in \<open>simp_all add: received_def frame_def length_bytes\<close>)
qed

text \<open>When these bytes are the ones that were sent.\<close>

lemma received_whole:
  "received portions buf = buf \<longleftrightarrow>
    (if 2 \<le> length (hd portions) then length buf < 65536
     else if length (hd portions) = 1 then length buf < 256 \<and> buf = replicate (length buf) CHR 0x00
     else buf = [])"
proof -
  have fits: "length buf \<le> length buf mod m \<longleftrightarrow> length buf < m" if "0 < m" for m
    using mod_less_divisor [OF that, of "length buf"] by (auto simp: mod_less)
  have shifted: "take (length b) (CHR 0x00 # b) = b \<longleftrightarrow> b = replicate (length b) CHR 0x00" for b
    by (induction b) auto
  have one: "take (length buf mod 256) (char_of (length buf div 256) # buf) = buf \<longleftrightarrow>
      length buf < 256 \<and> buf = replicate (length buf) CHR 0x00"
  proof (cases "length buf < 256")
    case True
    then show ?thesis using shifted [of buf] by (simp add: mod_less char_of_def)
  next
    case False
    with fits [of 256] have "length (take (length buf mod 256) (char_of (length buf div 256) # buf)) < length buf"
      by simp
    with False show ?thesis by (metis less_irrefl)
  qed
  show ?thesis using one fits [of 65536] by (auto simp: received_def simp del: take_Cons')
qed

text \<open>What the receiver makes of a frame, whatever its length and however it is delivered.\<close>

lemma ReadMsg_frame:
  assumes "concat portions = frame buf @ rest"
  obtains r' where
    "ReadMsg M (newReader portions e) m0 =
      (case msg_Unmarshal M m0 (received portions buf) of
         Inl err \<Rightarrow> Inl err | Inr m \<Rightarrow> Inr (m, r'))"
    "content r' = drop (min 2 (length (hd portions)) + length (received portions buf)) (frame buf @ rest)"
proof -
  let ?k = "min 2 (length (hd portions))"
  let ?n = "if ?k = 2 then length buf mod 65536 else if ?k = 1 then length buf mod 256 else 0"
  obtain r1 where r1: "Read (newReader portions e) 2 = Inr (take ?k (frame buf @ rest), r1)"
    "content r1 = drop ?k (frame buf @ rest)"
    by (rule Read_length_bytes [OF assms]) (simp_all add: frame_def length_bytes)
  have hdr: "take ?k (frame buf @ rest) = take ?k (frame buf)" by (simp add: frame_def)
  have le: "length buf mod 65536 \<le> length buf" "length buf mod 256 \<le> length buf" by (rule mod_less_eq_dividend)+
  then have n: "?n \<le> length (content r1)" by (auto simp: r1(2) frame_def intro: le_SucI trans_le_add1)
  have body: "take ?n (content r1) = received portions buf" unfolding r1(2) by (rule received_body)
  have len: "length (received portions buf) = ?n" using n by (simp only: body [symmetric] length_take min.absorb2)
  from ReadFull_from_enough [OF n] obtain r' where
    "ReadFull r1 ?n = Inr (received portions buf, r')" "content r' = drop ?n (content r1)"
    by (auto simp only: ReadFull_def body)
  note full = this [folded len]
  have "unat (Uint16 (take ?k (frame buf) @ replicate (2 - length (take ?k (frame buf))) CHR 0x00)) =
      length (received portions buf)"
    unfolding len by (rule Uint16_portion) simp_all
  with r1(1) full(1) have "ReadMsg M (newReader portions e) m0 =
      (case msg_Unmarshal M m0 (received portions buf) of Inl err \<Rightarrow> Inl err | Inr m \<Rightarrow> Inr (m, r'))"
    by (simp only: ReadMsg_def hdr Let_def sum.case prod.case)
  moreover have "content r' = drop (?k + length (received portions buf)) (frame buf @ rest)"
    by (simp only: full(2) r1(2) drop_drop add.commute)
  ultimately show ?thesis by (rule that)
qed

locale message =
  fixes M :: "'m Message" and fresh :: 'm and good :: "'m \<Rightarrow> bool"
  assumes marshals: "good m \<Longrightarrow> \<exists>b. msg_Marshal M m = Inr b"
    and unmarshals: "good m \<Longrightarrow> msg_Marshal M m = Inr b \<Longrightarrow> msg_Unmarshal M fresh b = Inr m"
begin

text \<open>A message of which all bytes are taken arrives as it was sent and leaves what follows it unread.\<close>

lemma transfer:
  assumes "good m" "msg_Marshal M m = Inr b" "concat portions = frame b @ rest"
    and "2 \<le> length (hd portions)" "length b < 65536"
  shows "\<exists>r'. ReadMsg M (newReader portions e) fresh = Inr (m, r') \<and> content r' = rest"
proof -
  have b: "received portions b = b" using assms(4,5) by (simp add: received_whole)
  obtain r' where
    "ReadMsg M (newReader portions e) fresh = (case msg_Unmarshal M fresh (received portions b) of
       Inl err \<Rightarrow> Inl err | Inr m \<Rightarrow> Inr (m, r'))"
    "content r' = drop (min 2 (length (hd portions)) + length (received portions b)) (frame b @ rest)"
    by (rule ReadMsg_frame [OF assms(3)])
  with assms(4) show ?thesis by (simp add: b unmarshals [OF assms(1,2)] frame_def min_def)
qed

lemma send_receive:
  assumes "good m" "stream_writes W sent" "WriteMsg M W w m = (w', None)" "sent w = []" "delivers sent portions"
    and "2 \<le> length (hd (portions w'))" "\<And>b. msg_Marshal M m = Inr b \<Longrightarrow> length b < 65536"
  shows "\<exists>r'. ReadMsg M (newReader (portions w') e) fresh = Inr (m, r')"
proof -
  from WriteMsg_sent [OF assms(2,3)] assms(4) obtain b where
    b: "msg_Marshal M m = Inr b" "sent w' = frame b" by auto
  then have "concat (portions w') = frame b @ []" using assms(5) by (simp add: delivers_def)
  from transfer [OF assms(1) b(1) this assms(6) assms(7) [OF b(1)]] show ?thesis by blast
qed

end

text \<open>Over writes that do not fail, a handler that resets the stream has written nothing.\<close>

lemma stream_handler_reset:
  assumes "stream_handler p W ps rdr w0 remote = (ps', w', Reset err)" "\<forall>w b. snd (W w b) = None"
  shows "w' = w0"
proof -
  have "u = w0" if fails: "WriteMsg (p_Resp p) W w0 m = (u, Some e)" for m u e
  proof (cases "msg_Marshal (p_Resp p) m")
    case (Inl err)
    with fails show ?thesis by (simp add: WriteMsg_def)
  next
    case (Inr b)
    with WriteMsg_total [OF assms(2), of "p_Resp p" m w0] fails show ?thesis by simp
  qed
  with assms(1) show ?thesis
    by (auto simp: stream_handler_def split: sum.splits prod.splits option.splits)
qed

lemma ReadMsg_nothing: "ReadMsg M (newReader [] err) m0 = Inl err"
  by (simp add: ReadMsg_def Read_def newReader_def)

text \<open>The peer's side of an exchange when the request arrives whole.\<close>

lemma whole_request:
  assumes "message (p_Req p) (p_ReqFactory p) goodq" "goodq req" "stream_writes W sent" "sent w = []"
    and "delivers sent srv" "WriteMsg (p_Req p) W w req = (w', None)"
    and "2 \<le> length (hd (srv w'))" "\<forall>b. msg_Marshal (p_Req p) req = Inr b \<longrightarrow> length b < 65536"
    and "stream_handler p W ps (newReader (srv w') e) w0 peer = (psrv, wsrv, fin)"
  shows "case p_HandleMsg p ps req peer of
      (ps', Inl herr) \<Rightarrow> psrv = ps' \<and> fin = Reset herr
    | (ps', Inr resp) \<Rightarrow> psrv = ps' \<and> WriteMsg (p_Resp p) W w0 resp = (wsrv, case fin of Open \<Rightarrow> None | Reset x \<Rightarrow> Some x)"
proof -
  obtain r where "ReadMsg (p_Req p) (newReader (srv w') e) (p_ReqFactory p) = Inr (req, r)"
    using message.send_receive [OF assms(1-3,6,4,5,7)] assms(8) by blast
  with assms(9) show ?thesis by (auto simp: stream_handler_def split: sum.splits prod.splits option.splits)
qed

text \<open>The sender's side: what it returns is what it reads of what the peer wrote.\<close>

lemma SendMsg_reads:
  assumes "NewStream remote (p_ID p) = Inr (w, incoming)" "WriteMsg (p_Req p) W w req = (w', None)"
  shows "SendMsg NewStream W remote p req =
    (case ReadMsg (p_Resp p) (incoming w') (p_RespFactory p) of Inl x \<Rightarrow> Inl x | Inr (m, _) \<Rightarrow> Inr m)"
  using assms by (simp add: SendMsg_def)

text \<open>
  C6: a request and its response over a stream, for every way the stream splits the bytes. If the
  peer's handler resets the stream, \<^verbatim>\<open>SendMsg\<close> returns the stream's error and no response. If
  the request arrives whole, that is, its encoding has fewer than 65536 bytes and both
  length bytes are in the first portion the peer reads, the peer's \<^verbatim>\<open>HandleMsg\<close> runs on exactly
  the request that was sent: its error resets the stream; its response is written and the
  stream left open; and if the response arrives whole in the same sense, \<^verbatim>\<open>SendMsg\<close> returns exactly
  this response. \<open>frame_received\<close> says what is read when a message does not arrive whole.
\<close>

theorem request_response:
  assumes "message (p_Req p) (p_ReqFactory p) goodq" "message (p_Resp p) (p_RespFactory p) goodr" "goodq req"
    and "stream_writes W sent" "\<forall>w b. snd (W w b) = None" "sent w = []" "sent w0 = []"
    and "delivers sent srv" "delivers sent cl" "NewStream remote (p_ID p) = Inr (w, incoming)"
    and "\<forall>w'. incoming w' = newReader (cl (fst (snd (stream_handler p W ps (newReader (srv w') e) w0 peer)))) err"
  shows "\<exists>qb w' psrv wsrv fin. msg_Marshal (p_Req p) req = Inr qb \<and> WriteMsg (p_Req p) W w req = (w', None) \<and>
    stream_handler p W ps (newReader (srv w') e) w0 peer = (psrv, wsrv, fin) \<and>
    (fin \<noteq> Open \<longrightarrow> SendMsg NewStream W remote p req = Inl err) \<and>
    (2 \<le> length (hd (srv w')) \<and> length qb < 65536 \<longrightarrow>
       (case p_HandleMsg p ps req peer of
          (ps', Inl herr) \<Rightarrow> psrv = ps' \<and> fin = Reset herr
        | (ps', Inr resp) \<Rightarrow> psrv = ps' \<and>
            (goodr resp \<longrightarrow> fin = Open \<and>
               (\<forall>rb. msg_Marshal (p_Resp p) resp = Inr rb \<and> 2 \<le> length (hd (cl wsrv)) \<and> length rb < 65536 \<longrightarrow>
                  SendMsg NewStream W remote p req = Inr resp))))"
proof -
  obtain qb where qb: "msg_Marshal (p_Req p) req = Inr qb" using message.marshals [OF assms(1,3)] by blast
  then obtain w' where w': "WriteMsg (p_Req p) W w req = (w', None)"
    using WriteMsg_total [OF assms(5), of "p_Req p" req w] by blast
  obtain psrv wsrv fin where h: "stream_handler p W ps (newReader (srv w') e) w0 peer = (psrv, wsrv, fin)"
    by (rule prod_cases3)
  have send: "SendMsg NewStream W remote p req =
      (case ReadMsg (p_Resp p) (newReader (cl wsrv) err) (p_RespFactory p) of Inl x \<Rightarrow> Inl x | Inr (m, _) \<Rightarrow> Inr m)"
    using SendMsg_reads [where NewStream = NewStream and incoming = incoming, OF assms(10) w'] assms(11) h by simp
  have reset: "SendMsg NewStream W remote p req = Inl err" if "fin \<noteq> Open"
  proof -
    from that h obtain x where "stream_handler p W ps (newReader (srv w') e) w0 peer = (psrv, wsrv, Reset x)"
      by (cases fin) auto
    from stream_handler_reset [OF this assms(5)] assms(7,9) have "cl wsrv = []" by (simp add: delivers_def)
    then show ?thesis by (simp add: send ReadMsg_nothing)
  qed
  have answered: "fin = Open \<and> (2 \<le> length (hd (cl wsrv)) \<and> length rb < 65536 \<longrightarrow> SendMsg NewStream W remote p req = Inr resp)"
    if "WriteMsg (p_Resp p) W w0 resp = (wsrv, case fin of Open \<Rightarrow> None | Reset x \<Rightarrow> Some x)" "goodr resp"
      "msg_Marshal (p_Resp p) resp = Inr rb" for resp rb
  proof -
    from that(1,3) WriteMsg_total [OF assms(5), of "p_Resp p" resp w0] have fin: "fin = Open" by (cases fin) auto
    with that message.send_receive [OF assms(2) that(2) assms(4) _ assms(7,9), of wsrv err]
    show ?thesis by (auto simp: send)
  qed
  obtain ps' res where hm: "p_HandleMsg p ps req peer = (ps', res)" by fastforce
  note part = whole_request [OF assms(1,3,4,6,8) w' _ _ h, unfolded hm]
  show ?thesis
    using qb w' h reset part answered message.marshals [OF assms(2)] by (cases res) (fastforce simp: hm)+
qed

text \<open>A protocol of strings that answers with the reversed request, over a stream that delivers the
  first three bytes before the others.\<close>

definition string_message :: "string Message" where
  "string_message = \<lparr>msg_Marshal = Inr, msg_Unmarshal = (\<lambda>_. Inr)\<rparr>"

lemma string_message_codec: "message string_message x (\<lambda>_. True)"
  by unfold_locales (simp_all add: string_message_def)

definition rev_protocol :: "(nat, string, string) Protocol" where
  "rev_protocol = \<lparr>p_ID = ''/rev'', p_HandleMsg = (\<lambda>n req _. (Suc n, Inr (rev req))), p_ReqFactory = [],
     p_RespFactory = [], p_Req = string_message, p_Resp = string_message\<rparr>"

definition buffer_write :: "string \<Rightarrow> string \<Rightarrow> string \<times> goerror option" where
  "buffer_write w b = (w @ b, None)"

lemma buffer_write_ok: "stream_writes buffer_write (\<lambda>v. v)" "\<forall>w b. snd (buffer_write w b) = None"
  by (simp_all add: stream_writes_def buffer_write_def)

definition in_two :: "string \<Rightarrow> string list" where
  "in_two v = (if v = [] then [] else [take 3 v, drop 3 v])"

lemma in_two_delivers: "delivers (\<lambda>v. v) in_two"
  by (simp add: delivers_def in_two_def)

definition sample_stream :: "string \<Rightarrow> string \<Rightarrow> (string \<times> (string \<Rightarrow> bufio_reader)) result" where
  "sample_stream remote proto = Inr ([], \<lambda>w'. newReader
     (in_two (fst (snd (stream_handler rev_protocol buffer_write 0 (newReader (in_two w') EOF) [] ''a'')))) EOF)"

theorem request_response_witness:
  "SendMsg sample_stream buffer_write ''b'' rev_protocol ''ping'' = Inr ''gnip''"
proof -
  have codec: "message (p_Req rev_protocol) (p_ReqFactory rev_protocol) (\<lambda>_. True)"
    "message (p_Resp rev_protocol) (p_RespFactory rev_protocol) (\<lambda>_. True)"
    by (simp_all add: rev_protocol_def string_message_codec)
  obtain qb w' psrv wsrv fin where e: "msg_Marshal (p_Req rev_protocol) ''ping'' = Inr qb"
    "WriteMsg (p_Req rev_protocol) buffer_write [] ''ping'' = (w', None)"
    "stream_handler rev_protocol buffer_write 0 (newReader (in_two w') EOF) [] ''a'' = (psrv, wsrv, fin)"
    "2 \<le> length (hd (in_two w')) \<and> length qb < 65536 \<longrightarrow>
       (case p_HandleMsg rev_protocol 0 ''ping'' ''a'' of
          (ps', Inl herr) \<Rightarrow> psrv = ps' \<and> fin = Reset herr
        | (ps', Inr resp) \<Rightarrow> psrv = ps' \<and> (True \<longrightarrow> fin = Open \<and>
            (\<forall>rb. msg_Marshal (p_Resp rev_protocol) resp = Inr rb \<and> 2 \<le> length (hd (in_two wsrv)) \<and> length rb < 65536 \<longrightarrow>
               SendMsg sample_stream buffer_write ''b'' rev_protocol ''ping'' = Inr resp)))"
    using request_response [where NewStream = sample_stream and remote = "''b''" and ps = 0 and peer = "''a''" and e = EOF
        and err = EOF and req = "''ping''" and sent = "\<lambda>v. v" and cl = in_two and w0 = "[]", OF codec TrueI buffer_write_ok refl refl
        in_two_delivers in_two_delivers sample_stream_def allI [OF refl]]
    by (elim exE conjE) (rule that)
  have qb: "qb = ''ping''" "w' = frame ''ping''"
    using e(1,2) by (simp_all add: rev_protocol_def string_message_def WriteMsg_def buffer_write_def frame_def)
  have two: "2 \<le> length (hd (in_two (frame b)))" if "b \<noteq> []" for b
    using that by (simp add: in_two_def frame_def length_bytes Suc_le_eq)
  have "wsrv = frame ''gnip''"
  proof -
    have "msg_Marshal string_message ''ping'' = Inr ''ping''" "concat (in_two (frame ''ping'')) = frame ''ping'' @ []"
      using in_two_delivers by (simp_all add: string_message_def delivers_def)
    from message.transfer [OF string_message_codec TrueI this] two [of "''ping''"] obtain r where
      "ReadMsg string_message (newReader (in_two (frame ''ping'')) EOF) [] = Inr (''ping'', r)" by auto
    with e(3) show ?thesis
      by (auto simp: qb stream_handler_def rev_protocol_def WriteMsg_def buffer_write_def frame_def string_message_def)
  qed
  with e(4) two [of "''ping''"] two [of "''gnip''"] show ?thesis
    by (simp add: qb rev_protocol_def string_message_def)
qed

text \<open>
  C32: what is read of a message, for every message, codec and delivery. After \<^verbatim>\<open>WriteMsg\<close> wrote a message
  with encoding \<open>buf\<close>, \<^verbatim>\<open>ReadMsg\<close> decodes the bytes \<open>received portions buf\<close> and leaves the bytes
  after them unread. These bytes depend on the first portion the stream delivers: with at
  least two bytes in it they are the first \<open>length buf mod 65536\<close> bytes of the encoding, so the
  message arrives whole exactly if it has fewer than 65536 bytes, which the writer does not
  check; with a single byte, the low byte of the length is taken for the length and the body
  is shifted by one, so the message arrives whole only if it consists of fewer than 256 zero
  bytes; with no byte only the empty message arrives whole.
\<close>

theorem frame_received:
  assumes "stream_writes W sent" "sent w = []" "WriteMsg M W w m = (w', None)" "msg_Marshal M m = Inr buf"
    and "concat portions = sent w'"
  shows "\<exists>r'. ReadMsg M (newReader portions e) m0 =
      (case msg_Unmarshal M m0 (received portions buf) of Inl err \<Rightarrow> Inl err | Inr x \<Rightarrow> Inr (x, r')) \<and>
    content r' = drop (min 2 (length (hd portions)) + length (received portions buf)) (sent w') \<and>
    (received portions buf = buf \<longleftrightarrow>
      (if 2 \<le> length (hd portions) then length buf < 65536
       else if length (hd portions) = 1 then length buf < 256 \<and> buf = replicate (length buf) CHR 0x00
       else buf = []))"
proof -
  obtain b where "msg_Marshal M m = Inr b" "sent w' = sent w @ frame b" by (rule WriteMsg_sent [OF assms(1,3)])
  with assms have sent: "sent w' = frame buf" and portions: "concat portions = frame buf @ []" by simp_all
  obtain r' where
    "ReadMsg M (newReader portions e) m0 =
      (case msg_Unmarshal M m0 (received portions buf) of Inl err \<Rightarrow> Inl err | Inr x \<Rightarrow> Inr (x, r'))"
    "content r' = drop (min 2 (length (hd portions)) + length (received portions buf)) (frame buf @ [])"
    by (rule ReadMsg_frame [OF portions])
  then show ?thesis by (intro exI conjI received_whole) (simp_all only: sent append_Nil2)
qed

theorem frame_received_witness:
  "\<exists>w'. WriteMsg string_message buffer_write [] ''abc'' = (w', None) \<and>
    (\<exists>r. ReadMsg string_message (newReader [take 1 w', drop 1 w'] EOF) [] = Inr (CHR 0x00 # ''ab'', r) \<and> content r = ''c'')"
proof -
  obtain w' where w': "WriteMsg string_message buffer_write [] ''abc'' = (w', None)" "w' = frame ''abc''"
    by (simp add: WriteMsg_def string_message_def buffer_write_def frame_def)
  have "length ''abc'' = 3" by simp
  then have framed: "frame ''abc'' = CHR 0x03 # CHR 0x00 # ''abc''"
    by (simp only: frame_def length_bytes) (simp add: char_of_def bit_0)
  have rec: "received [take 1 w', drop 1 w'] ''abc'' = CHR 0x00 # ''ab''" "length (take 1 w') = 1"
    using framed by (simp_all add: w'(2) received_def char_of_def)
  obtain r where "ReadMsg string_message (newReader [take 1 w', drop 1 w'] EOF) [] =
      (case msg_Unmarshal string_message [] (CHR 0x00 # ''ab'') of Inl err \<Rightarrow> Inl err | Inr x \<Rightarrow> Inr (x, r))"
    "content r = drop (Suc (Suc (Suc (Suc 0)))) w'"
    using frame_received [OF buffer_write_ok(1) refl w'(1), of "''abc''" "[take 1 w', drop 1 w']" EOF "[]"] rec
    by (auto simp: string_message_def)
  with w' framed show ?thesis by (auto simp: string_message_def)
qed

end
