(* ===== verification/Events_Svc.thy ===== *)
theory Events_Svc
  imports Json_Config Go_Base64 Protocols "HOL-Library.Multiset"
begin

text \<open>
  \<^verbatim>\<open>modules/events/events.go\<close>: publish-subscribe events. A broadcast wraps the event's encoding
  in an \<^verbatim>\<open>eventMsg\<close> and publishes it; the listener of every node unwraps it and hands a fresh,
  decoded event to each handler registered for its topic. The pub-sub topic (\<^verbatim>\<open>libp2p-pubsub\<close>)
  and the task manager are parameters.

  \<^verbatim>\<open>RegisterHandler\<close> loads the topic's handlers, appends one and stores the list: two steps on a
  concurrent map. Its atomic form is used for what a listener does; a step relation over
  registering goroutines shows what interleaving does to it.
\<close>

section \<open>The wire format\<close>

record eventMsg =
  em_Topic :: string
  em_Msg :: string

text \<open>A byte slice is a base64 string in JSON; \<^verbatim>\<open>null\<close> gives the empty slice, an array is read
  element by element.\<close>

definition decode_byte :: "char decoder" where
  "decode_byte old j =
     (case j of
        JNum n \<Rightarrow> if 0 \<le> n \<and> n < 256 then (True, char_of (nat n)) else (False, old)
      | JNull \<Rightarrow> (True, old)
      | _ \<Rightarrow> (False, old))"

definition decode_bytes :: "string decoder" where
  "decode_bytes old j =
     (case j of
        JStr s \<Rightarrow> (case b64_decode s of None \<Rightarrow> (False, old) | Some b \<Rightarrow> (True, b))
      | _ \<Rightarrow> decode_slice decode_byte CHR 0x00 old j)"

definition eventMsg_Marshal :: "eventMsg \<Rightarrow> string" where
  "eventMsg_Marshal e =
     print_json (JObj [(''Topic'', JStr (em_Topic e)), (''Msg'', JStr (b64_encode (em_Msg e)))])"

definition decode_event_field :: "string \<times> json \<Rightarrow> bool \<times> eventMsg \<Rightarrow> bool \<times> eventMsg" where
  "decode_event_field kv st =
     (if equal_fold (fst kv) ''Topic'' then
        (let (ok, v) = decode_string (em_Topic (snd st)) (snd kv)
         in (fst st \<and> ok, (snd st)\<lparr>em_Topic := v\<rparr>))
      else if equal_fold (fst kv) ''Msg'' then
        (let (ok, v) = decode_bytes (em_Msg (snd st)) (snd kv)
         in (fst st \<and> ok, (snd st)\<lparr>em_Msg := v\<rparr>))
      else st)"

definition decode_event :: "eventMsg decoder" where
  "decode_event e j =
     (case j of
        JObj kvs \<Rightarrow> fold decode_event_field kvs (True, e)
      | JNull \<Rightarrow> (True, e)
      | _ \<Rightarrow> (False, e))"

definition eventMsg_Unmarshal :: "eventMsg \<Rightarrow> string \<Rightarrow> eventMsg result" where
  "eventMsg_Unmarshal e buf =
     (case Unmarshal decode_event buf e of
        (True, e') \<Rightarrow> Inr e'
      | (False, _) \<Rightarrow> Inl (ErrorString ''json: cannot unmarshal''))"

definition eventMsg_message :: "eventMsg Message" where
  "eventMsg_message = \<lparr>msg_Marshal = (\<lambda>e. Inr (eventMsg_Marshal e)), msg_Unmarshal = eventMsg_Unmarshal\<rparr>"

lemma eventMsg_roundtrip: "eventMsg_Unmarshal e0 (eventMsg_Marshal e) = Inr e"
proof -
  have "int_json (JObj [(''Topic'', JStr (em_Topic e)), (''Msg'', JStr (b64_encode (em_Msg e)))])" by simp
  from Unmarshal_print [OF this, of decode_event] show ?thesis
    by (simp add: eventMsg_Unmarshal_def eventMsg_Marshal_def decode_event_def decode_event_field_def
        equal_fold_def to_lower_def decode_string_def decode_bytes_def)
qed

interpretation em: message eventMsg_message "\<lparr>em_Topic = [], em_Msg = []\<rparr>" "\<lambda>_. True"
  by unfold_locales (auto simp: eventMsg_message_def eventMsg_roundtrip)

section \<open>The service\<close>

text \<open>An \<^verbatim>\<open>Event\<close> is a message with a topic. A handler keeps the factory's object, its methods and
  the function to call, an effect on the state \<open>'s\<close> of the program.\<close>

record 'e Event = "'e Message" +
  ev_Topic :: "'e \<Rightarrow> string"

record ('s, 'e) evHandler =
  h_factory :: 'e
  h_event :: "'e Event"
  h_handle :: "'s \<Rightarrow> 'e \<Rightarrow> 's"

type_synonym ('s, 'e) handlrMap = "('s, 'e) evHandler list gomap"

definition handler_topic :: "('s, 'e) evHandler \<Rightarrow> string" where
  "handler_topic h = ev_Topic (h_event h) (h_factory h)"

definition load_handlers :: "'h list gomap \<Rightarrow> string \<Rightarrow> 'h list" where
  "load_handlers m topic = (case map_of m topic of None \<Rightarrow> [] | Some hdlrs \<Rightarrow> hdlrs)"

definition RegisterHandler :: "('s, 'e) handlrMap \<Rightarrow> ('s, 'e) evHandler \<Rightarrow> ('s, 'e) handlrMap" where
  "RegisterHandler m h =
     AList.update (handler_topic h) (load_handlers m (handler_topic h) @ [h]) m"

definition Broadcast ::
  "('t \<Rightarrow> string \<Rightarrow> 't \<times> goerror option) \<Rightarrow> 't \<Rightarrow> 'e Event \<Rightarrow> 'e \<Rightarrow> 't \<times> goerror option" where
  "Broadcast Publish topic E e =
     (case msg_Marshal E e of
        Inl err \<Rightarrow> (topic, Some err)
      | Inr buf \<Rightarrow>
          (case msg_Marshal eventMsg_message \<lparr>em_Topic = ev_Topic E e, em_Msg = buf\<rparr> of
             Inl err \<Rightarrow> (topic, Some err)
           | Inr bufToSend \<Rightarrow> Publish topic bufToSend))"

text \<open>What the listener does with one result of \<^verbatim>\<open>sub.Next\<close>: errors are logged and skipped.\<close>

definition run_handler :: "string \<Rightarrow> ('s, 'e) evHandler \<Rightarrow> 's \<Rightarrow> 's" where
  "run_handler msg h s =
     (case msg_Unmarshal (h_event h) (h_factory h) msg of
        Inl err \<Rightarrow> s
      | Inr it \<Rightarrow> h_handle h s it)"

definition listen_once :: "('s, 'e) handlrMap \<Rightarrow> 's \<Rightarrow> string result \<Rightarrow> 's" where
  "listen_once m s nxt =
     (case nxt of
        Inl err \<Rightarrow> s
      | Inr data \<Rightarrow>
          (case eventMsg_Unmarshal \<lparr>em_Topic = [], em_Msg = []\<rparr> data of
             Inl err \<Rightarrow> s
           | Inr ev \<Rightarrow>
               (case map_of m (em_Topic ev) of
                  None \<Rightarrow> s
                | Some hdlrs \<Rightarrow> fold (run_handler (em_Msg ev)) hdlrs s)))"

text \<open>
  The listener's loop over what it sees until the context is done: for each turn the handler
  map at that moment and the result of \<^verbatim>\<open>sub.Next\<close>.
\<close>

fun Execute_listener :: "(('s, 'e) handlrMap \<times> string result) list \<Rightarrow> 's \<Rightarrow> 's \<times> goerror option" where
  "Execute_listener [] s = (s, None)"
| "Execute_listener ((m, nxt) # turns) s = Execute_listener turns (listen_once m s nxt)"

text \<open>Start-up: join the topic, subscribe, start the listener.\<close>

definition NewEventsSvc ::
  "(string \<Rightarrow> 't result) \<Rightarrow> ('t \<Rightarrow> 'sub result) \<Rightarrow> ('sub \<Rightarrow> goerror option) \<Rightarrow>
     ('t \<times> ('s, 'e) handlrMap) result" where
  "NewEventsSvc ps_Join Subscribe tm_Go =
     (case ps_Join ''events'' of
        Inl err \<Rightarrow> Inl err
      | Inr eTopic \<Rightarrow>
          (case Subscribe eTopic of
             Inl err \<Rightarrow> Inl err
           | Inr sub \<Rightarrow>
               (case tm_Go sub of
                  Some err \<Rightarrow> Inl err
                | None \<Rightarrow> Inr (eTopic, []))))"

section \<open>Delivery\<close>

lemma load_RegisterHandler:
  "load_handlers (RegisterHandler m h) t = load_handlers m t @ (if handler_topic h = t then [h] else [])"
  by (simp add: load_handlers_def RegisterHandler_def go_simps)

lemma load_registered:
  "load_handlers (foldl RegisterHandler m hs) t = load_handlers m t @ filter (\<lambda>h. handler_topic h = t) hs"
  by (induction hs arbitrary: m) (simp_all add: load_RegisterHandler)

lemma listen_once_event:
  "listen_once m s (Inr (eventMsg_Marshal ev)) = fold (run_handler (em_Msg ev)) (load_handlers m (em_Topic ev)) s"
proof -
  have "eventMsg_Unmarshal \<lparr>em_Topic = [], em_Msg = []\<rparr> (eventMsg_Marshal ev) = Inr ev"
    using em.unmarshals [of ev] by (simp add: eventMsg_message_def)
  then show ?thesis by (simp add: listen_once_def load_handlers_def split: option.splits)
qed

lemma run_handler_decodes:
  assumes "message (Message.truncate (h_event h)) (h_factory h) good" "good e"
    and "msg_Marshal (h_event h) e = Inr buf"
  shows "run_handler buf h s = h_handle h s e"
proof -
  have "msg_Unmarshal (Message.truncate (h_event h)) (h_factory h) buf = Inr e"
    by (rule message.unmarshals [OF assms(1,2)]) (use assms(3) in \<open>simp add: Message.truncate_def\<close>)
  then show ?thesis by (simp add: run_handler_def Message.truncate_def)
qed

lemma fold_cong_set: "(\<And>x s. x \<in> set xs \<Longrightarrow> f x s = g x s) \<Longrightarrow> fold f xs s = fold g xs s"
  by (induction xs arbitrary: s) simp_all

text \<open>
  C11: events reach their handlers. A broadcast that succeeds publishes one message, and a
  listener that receives it calls every handler registered for the event's topic with the
  event itself, once each and in the order of registration, and no other handler.
\<close>

theorem event_delivery:
  assumes "Broadcast Publish t E e = (t', None)"
    and "\<forall>t b t'. Publish t b = (t', None) \<longrightarrow> published t' = published t @ [b]"
    and "good e"
    and "\<forall>h \<in> set hs. handler_topic h = ev_Topic E e \<longrightarrow>
      h_event h = E \<and> message (Message.truncate E) (h_factory h) good"
  shows "\<exists>b. published t' = published t @ [b] \<and>
    (\<forall>s. listen_once (foldl RegisterHandler [] hs) s (Inr b) =
      fold (\<lambda>h s. h_handle h s e) (filter (\<lambda>h. handler_topic h = ev_Topic E e) hs) s)"
proof -
  from assms(1) obtain buf where buf: "msg_Marshal E e = Inr buf"
    "Publish t (eventMsg_Marshal \<lparr>em_Topic = ev_Topic E e, em_Msg = buf\<rparr>) = (t', None)"
    by (auto simp: Broadcast_def eventMsg_message_def split: sum.splits)
  let ?b = "eventMsg_Marshal \<lparr>em_Topic = ev_Topic E e, em_Msg = buf\<rparr>"
  let ?hs = "filter (\<lambda>h. handler_topic h = ev_Topic E e) hs"
  have run: "run_handler buf h s = h_handle h s e" if "h \<in> set ?hs" for h s
    using assms(4) that buf(1) by (intro run_handler_decodes [where good = good]) (auto simp: assms(3))
  have "listen_once (foldl RegisterHandler [] hs) s (Inr ?b) = fold (\<lambda>h s. h_handle h s e) ?hs s" for s
  proof -
    have "listen_once (foldl RegisterHandler [] hs) s (Inr ?b) = fold (run_handler buf) ?hs s"
      unfolding listen_once_event by (simp add: load_registered) (simp add: load_handlers_def)
    also have "\<dots> = fold (\<lambda>h s. h_handle h s e) ?hs s" by (rule fold_cong_set) (rule run)
    finally show ?thesis .
  qed
  with assms(2) buf(2) show ?thesis by blast
qed

definition string_event :: "string \<Rightarrow> string Event" where
  "string_event topic = \<lparr>msg_Marshal = Inr, msg_Unmarshal = (\<lambda>_. Inr), ev_Topic = (\<lambda>_. topic)\<rparr>"

definition counting_handler :: "string \<Rightarrow> (string list, string) evHandler" where
  "counting_handler topic = \<lparr>h_factory = [], h_event = string_event topic, h_handle = (\<lambda>s e. s @ [e])\<rparr>"

theorem event_delivery_witness:
  "\<exists>b. Broadcast (\<lambda>t b. (t @ [b], None)) [] (string_event ''a'') ''hello'' = ([b], None) \<and>
    listen_once (foldl RegisterHandler [] [counting_handler ''a'', counting_handler ''b'', counting_handler ''a''])
      [] (Inr b) = [''hello'', ''hello'']"
proof -
  have c: "message (Message.truncate (string_event t)) x (\<lambda>_. True)" for t x
    by unfold_locales (simp_all add: string_event_def Message.truncate_def)
  obtain t' where t': "Broadcast (\<lambda>t b. (t @ [b], None)) [] (string_event ''a'') ''hello'' = (t', None)"
    by (simp add: Broadcast_def string_event_def eventMsg_message_def)
  have "\<exists>b. t' = [] @ [b] \<and> (\<forall>s. listen_once (foldl RegisterHandler []
        [counting_handler ''a'', counting_handler ''b'', counting_handler ''a'']) s (Inr b) =
      fold (\<lambda>h s. h_handle h s ''hello'') (filter (\<lambda>h. handler_topic h = ev_Topic (string_event ''a'') ''hello'')
        [counting_handler ''a'', counting_handler ''b'', counting_handler ''a'']) s)"
    by (rule event_delivery [OF t', where good = "\<lambda>_. True" and published = "\<lambda>t. t"])
      (use c in \<open>auto simp: counting_handler_def handler_topic_def string_event_def\<close>)
  with t' show ?thesis by (auto simp: counting_handler_def handler_topic_def string_event_def)
qed

section \<open>Concurrent registration\<close>

text \<open>
  Goroutines that register handlers. \<^verbatim>\<open>handlrMap.Load\<close> and \<^verbatim>\<open>handlrMap.Store\<close> are atomic each; the
  code between them works on the loaded list.
\<close>

datatype 'h reg_thread = Start 'h | Loaded 'h "'h list" | Finished 'h

record 'h reg_state =
  rs_map :: "'h list gomap"
  rs_threads :: "'h reg_thread list"

inductive reg_step :: "('h \<Rightarrow> string) \<Rightarrow> 'h reg_state \<Rightarrow> 'h reg_state \<Rightarrow> bool" for topic where
  reg_load: "i < length (rs_threads st) \<Longrightarrow> rs_threads st ! i = Start h \<Longrightarrow>
    reg_step topic st
      (st\<lparr>rs_threads := (rs_threads st)[i := Loaded h (load_handlers (rs_map st) (topic h))]\<rparr>)"
| reg_store: "i < length (rs_threads st) \<Longrightarrow> rs_threads st ! i = Loaded h hdlrs \<Longrightarrow>
    reg_step topic st
      (st\<lparr>rs_map := AList.update (topic h) (hdlrs @ [h]) (rs_map st),
         rs_threads := (rs_threads st)[i := Finished h]\<rparr>)"

inductive_cases reg_stepE: "reg_step topic st st'"

text \<open>The steps a goroutine has left, and the handler it registers.\<close>

fun reg_left :: "'h reg_thread \<Rightarrow> nat" where
  "reg_left (Start _) = 2" | "reg_left (Loaded _ _) = 1" | "reg_left (Finished _) = 0"

fun reg_handler :: "'h reg_thread \<Rightarrow> 'h" where
  "reg_handler (Start h) = h" | "reg_handler (Loaded h _) = h" | "reg_handler (Finished h) = h"

lemma reg_step_handlers:
  "reg_step topic st st' \<Longrightarrow> map reg_handler (rs_threads st') = map reg_handler (rs_threads st)"
  by (erule reg_stepE) (auto simp: map_update list_update_same_conv)

lemma load_handlers_update:
  "load_handlers (AList.update t hs m) t' = (if t' = t then hs else load_handlers m t')"
  by (simp add: load_handlers_def go_simps)

text \<open>The handlers of the goroutines that have registered one for a topic.\<close>

fun registered :: "('h \<Rightarrow> string) \<Rightarrow> string \<Rightarrow> 'h reg_thread \<Rightarrow> 'h multiset" where
  "registered topic t (Finished h) = (if topic h = t then {#h#} else {#})"
| "registered topic t _ = {#}"

definition finished :: "('h \<Rightarrow> string) \<Rightarrow> string \<Rightarrow> 'h reg_thread list \<Rightarrow> 'h multiset" where
  "finished topic t ths = sum_list (map (registered topic t) ths)"

lemma finished_update:
  assumes "i < length ths" "registered topic t (ths ! i) = {#}"
  shows "finished topic t (ths[i := th]) = registered topic t th + finished topic t ths"
proof -
  have "finished topic t ths = finished topic t (take i ths) + finished topic t (drop (Suc i) ths)"
    using assms by (subst id_take_nth_drop [OF assms(1)]) (simp add: finished_def)
  with assms(1) show ?thesis by (simp add: finished_def upd_conv_take_nth_drop add.left_commute)
qed

text \<open>A list that extends a topic's initial handlers by some of those registered meanwhile.\<close>

definition extends :: "'h list \<Rightarrow> 'h multiset \<Rightarrow> 'h list \<Rightarrow> bool" where
  "extends hs0 fin hs \<longleftrightarrow> (\<exists>new. hs = hs0 @ new \<and> mset new \<subseteq># fin)"

lemma extends_mono: "extends hs0 fin hs \<Longrightarrow> fin \<subseteq># fin' \<Longrightarrow> extends hs0 fin' hs"
  by (auto simp: extends_def intro: subset_mset.order_trans)

lemma extends_snoc:
  assumes "extends hs0 fin hs"
  shows "extends hs0 ({#h#} + fin) (hs @ [h])"
proof -
  from assms obtain new where "hs @ [h] = hs0 @ (new @ [h])" "mset (new @ [h]) \<subseteq># {#h#} + fin" by (auto simp: extends_def)
  then show ?thesis unfolding extends_def by blast
qed

definition reg_inv :: "('h \<Rightarrow> string) \<Rightarrow> 'h list gomap \<Rightarrow> 'h reg_state \<Rightarrow> bool" where
  "reg_inv topic m0 st \<longleftrightarrow>
     (\<forall>t. extends (load_handlers m0 t) (finished topic t (rs_threads st)) (load_handlers (rs_map st) t) \<and>
        (load_handlers (rs_map st) t = load_handlers m0 t \<longleftrightarrow> finished topic t (rs_threads st) = {#})) \<and>
     (\<forall>h hs. Loaded h hs \<in> set (rs_threads st) \<longrightarrow>
        extends (load_handlers m0 (topic h)) (finished topic (topic h) (rs_threads st)) hs)"

lemma reg_inv_load:
  assumes "reg_inv topic m0 st" "i < length (rs_threads st)" "rs_threads st ! i = Start h"
  shows "reg_inv topic m0 (st\<lparr>rs_threads := (rs_threads st)[i := Loaded h (load_handlers (rs_map st) (topic h))]\<rparr>)"
proof -
  have "finished topic t ((rs_threads st)[i := Loaded h hs]) = finished topic t (rs_threads st)" for t hs
    using finished_update [OF assms(2), of topic t] assms(3) by simp
  moreover have "set ((rs_threads st)[i := th]) \<subseteq> insert th (set (rs_threads st))" for th
    by (rule set_update_subset_insert)
  ultimately show ?thesis using assms(1) by (fastforce simp: reg_inv_def)
qed

lemma reg_inv_store:
  assumes "reg_inv topic m0 st" "i < length (rs_threads st)" "rs_threads st ! i = Loaded h hdlrs"
  shows "reg_inv topic m0 (st\<lparr>rs_map := AList.update (topic h) (hdlrs @ [h]) (rs_map st),
    rs_threads := (rs_threads st)[i := Finished h]\<rparr>)"
proof -
  let ?ths = "(rs_threads st)[i := Finished h]"
  have fin: "finished topic t ?ths = (if topic h = t then {#h#} else {#}) + finished topic t (rs_threads st)" for t
    using finished_update [OF assms(2), of topic t "Finished h"] assms(3) by simp
  have "Loaded h hdlrs \<in> set (rs_threads st)" using assms(2,3) by (metis nth_mem)
  with assms(1) have ext: "extends (load_handlers m0 (topic h)) (finished topic (topic h) (rs_threads st)) hdlrs"
    by (simp add: reg_inv_def)
  from extends_snoc [OF this, of h]
  have stored: "extends (load_handlers m0 (topic h)) (finished topic (topic h) ?ths) (hdlrs @ [h])" by (simp add: fin)
  from ext have "hdlrs @ [h] \<noteq> load_handlers m0 (topic h)" by (auto simp: extends_def)
  moreover have "extends (load_handlers m0 (topic k)) (finished topic (topic k) ?ths) hs"
    if "Loaded k hs \<in> set ?ths" for k hs
  proof (rule extends_mono)
    from that have "Loaded k hs \<in> set (rs_threads st)" using set_update_subset_insert [of "rs_threads st" i "Finished h"] by auto
    with assms(1) show "extends (load_handlers m0 (topic k)) (finished topic (topic k) (rs_threads st)) hs"
      by (simp add: reg_inv_def)
  qed (simp add: fin)
  ultimately show ?thesis using assms(1) stored by (auto simp: reg_inv_def load_handlers_update fin)
qed

lemma reg_inv_step:
  assumes "reg_step topic st st'" "reg_inv topic m0 st"
  shows "reg_inv topic m0 st'"
  using assms(1) by (cases rule: reg_step.cases) (simp_all add: reg_inv_load reg_inv_store assms(2))

lemma reg_inv_initial: "reg_inv topic m0 \<lparr>rs_map = m0, rs_threads = map Start hs\<rparr>"
  by (auto simp: reg_inv_def finished_def extends_def comp_def)

text \<open>Every step is one of the two a goroutine has, and a goroutine with steps left can take one.\<close>

definition reg_steps_left :: "'h reg_state \<Rightarrow> nat" where
  "reg_steps_left st = sum_list (map reg_left (rs_threads st))"

lemma sum_reg_left_update:
  "i < length ts \<Longrightarrow> reg_left (ts ! i) = Suc (reg_left th) \<Longrightarrow>
    Suc (sum_list (map reg_left (ts[i := th]))) = sum_list (map reg_left ts)"
proof (induction ts arbitrary: i)
  case (Cons t ts)
  then show ?case by (cases i) auto
qed simp

lemma reg_step_left: "reg_step topic st st' \<Longrightarrow> Suc (reg_steps_left st') = reg_steps_left st"
  by (erule reg_stepE) (simp_all add: reg_steps_left_def sum_reg_left_update)

lemma reg_can_step: "(\<exists>st'. reg_step topic st st') \<longleftrightarrow> reg_steps_left st > 0"
proof
  show "\<exists>st'. reg_step topic st st' \<Longrightarrow> reg_steps_left st > 0" by (auto dest: reg_step_left)
next
  assume "reg_steps_left st > 0"
  then obtain th where "th \<in> set (rs_threads st)" "reg_left th \<noteq> 0" 
    by (metis reg_steps_left_def less_numeral_extra(3) list.set_map imageE sum_list_eq_0_iff)
  then obtain i where i: "i < length (rs_threads st)" "reg_left (rs_threads st ! i) \<noteq> 0"
    by (auto simp: in_set_conv_nth)
  show "\<exists>st'. reg_step topic st st'"
  proof (cases "rs_threads st ! i")
    case (Start h)
    from reg_load [OF i(1) this] show ?thesis by (rule exI)
  next
    case (Loaded h hdlrs)
    from reg_store [OF i(1) this] show ?thesis by (rule exI)
  qed (use i in simp)
qed

interpretation regs: transition_invariant "reg_step topic"
  "\<lambda>st. reg_inv topic m0 st \<and> map reg_handler (rs_threads st) = hs" for topic m0 hs
  by unfold_locales (auto simp: reg_inv_step reg_step_handlers)

interpretation regs: counted_transitions "reg_step topic" reg_steps_left for topic
  by unfold_locales (rule reg_step_left)

text \<open>When no step is left, every goroutine has registered its handler.\<close>

lemma all_finished:
  assumes "reg_steps_left st = 0"
  shows "finished topic t (rs_threads st) = mset (filter (\<lambda>h. topic h = t) (map reg_handler (rs_threads st)))"
proof -
  have "sum_list (map (registered topic t) ths) = mset (filter (\<lambda>h. topic h = t) (map reg_handler ths))"
    if "sum_list (map reg_left ths) = 0" for ths
    using that
  proof (induction ths)
    case (Cons th ths)
    then show ?case by (cases th) auto
  qed simp
  with assms show ?thesis by (simp add: reg_steps_left_def finished_def)
qed



text \<open>
  C34: two goroutines that register handlers for one topic can lose one of them. There is an
  interleaving, both loading before either stores, in which both registrations finish and
  the topic has a single handler.
\<close>

theorem registration_lost:
  "\<exists>st. (reg_step (\<lambda>_. ''t''))\<^sup>*\<^sup>* \<lparr>rs_map = [], rs_threads = [Start 1, Start (2 :: nat)]\<rparr> st \<and>
    rs_threads st = [Finished 1, Finished 2] \<and> load_handlers (rs_map st) ''t'' = [2]"
proof -
  let ?s0 = "\<lparr>rs_map = [], rs_threads = [Start 1, Start (2 :: nat)]\<rparr>"
  let ?s1 = "\<lparr>rs_map = [], rs_threads = [Loaded 1 [], Start (2 :: nat)]\<rparr>"
  let ?s2 = "\<lparr>rs_map = [], rs_threads = [Loaded 1 [], Loaded (2 :: nat) []]\<rparr>"
  let ?s3 = "\<lparr>rs_map = [(''t'', [1])], rs_threads = [Finished 1, Loaded (2 :: nat) []]\<rparr>"
  let ?s4 = "\<lparr>rs_map = [(''t'', [2])], rs_threads = [Finished 1, Finished (2 :: nat)]\<rparr>"
  have "reg_step (\<lambda>_. ''t'') ?s0 ?s1" using reg_load [of 0 ?s0 1 "\<lambda>_. ''t''"] by (simp add: load_handlers_def)
  moreover have "reg_step (\<lambda>_. ''t'') ?s1 ?s2" using reg_load [of 1 ?s1 2 "\<lambda>_. ''t''"] by (simp add: load_handlers_def)
  moreover have "reg_step (\<lambda>_. ''t'') ?s2 ?s3" using reg_store [of 0 ?s2 1 "[]" "\<lambda>_. ''t''"] by simp
  moreover have "reg_step (\<lambda>_. ''t'') ?s3 ?s4" using reg_store [of 1 ?s3 2 "[]" "\<lambda>_. ''t''"] by simp
  ultimately have "(reg_step (\<lambda>_. ''t''))\<^sup>*\<^sup>* ?s0 ?s4"
    by (meson converse_rtranclp_into_rtranclp rtranclp.rtrancl_refl)
  then show ?thesis by (intro exI [of _ ?s4]) (simp add: load_handlers_def)
qed

end
