(* ===== verification/Shared_Storage.thy ===== *)
theory Shared_Storage
  imports Json_Config "HOL-Library.Multiset"
begin

text \<open>
  \<^verbatim>\<open>modules/sharedStorage/sharedStorage.go\<close>: one replicated store (\<^verbatim>\<open>ants-db\<close>, third party) shared
  by its users under namespaces. The provider is the store's subscriber: a change of a key
  is passed on to the callbacks of every namespace the key begins with. A call of a callback
  is an entry of a log; the order of the namespaces is the iteration order of a Go map.
\<close>

definition defaultRootNs :: string where "defaultRootNs = ''msuite''"

record ('st, 'cb) impl =
  shStore :: 'st
  callbacks :: "'cb list gomap"

datatype 'cb cb_call = CallPut 'cb string | CallDelete 'cb string

text \<open>\<open>antsdb_New\<close> creates the store for a channel.\<close>

definition NewSharedStoreProvider :: "(string \<Rightarrow> 'st result) \<Rightarrow> JsonConfig \<Rightarrow> ('st, 'cb) impl result" where
  "NewSharedStoreProvider antsdb_New cfg =
     (let rootNs = snd (Get decode_string cfg ''SharedStoreNs'' []);
          rootNs = (if rootNs = [] then defaultRootNs else rootNs)
      in case antsdb_New rootNs of
           Inl err \<Rightarrow> Inl err
         | Inr st \<Rightarrow> Inr \<lparr>shStore = st, callbacks = []\<rparr>)"

text \<open>\<open>ord\<close> is the order in which \<^verbatim>\<open>range\<close> visits the map.\<close>

definition Put_cb :: "('cb list gomap \<Rightarrow> 'cb list gomap) \<Rightarrow> ('st, 'cb) impl \<Rightarrow> string \<Rightarrow> 'cb cb_call list" where
  "Put_cb ord i key =
     concat (map (\<lambda>(k, cbs). if HasPrefix key k then map (\<lambda>cb. CallPut cb key) cbs else []) (ord (callbacks i)))"

definition Delete_cb :: "('cb list gomap \<Rightarrow> 'cb list gomap) \<Rightarrow> ('st, 'cb) impl \<Rightarrow> string \<Rightarrow> 'cb cb_call list" where
  "Delete_cb ord i key =
     concat (map (\<lambda>(k, cbs). if HasPrefix key k then map (\<lambda>cb. CallDelete cb key) cbs else []) (ord (callbacks i)))"

definition SharedStorage :: "('st, 'cb) impl \<Rightarrow> string \<Rightarrow> 'cb option \<Rightarrow> ('st, 'cb) impl \<times> 'st result" where
  "SharedStorage i ns callback =
     (case callback of
        None \<Rightarrow> (i, Inr (shStore i))
      | Some cb \<Rightarrow>
          (let cbs = (case map_of (callbacks i) ns of None \<Rightarrow> [cb] | Some cbs \<Rightarrow> cbs @ [cb])
           in (i\<lparr>callbacks := AList.update ns cbs (callbacks i)\<rparr>, Inr (shStore i))))"

section \<open>Who is notified\<close>

definition subscribe_all :: "('st, 'cb) impl \<Rightarrow> (string \<times> 'cb) list \<Rightarrow> ('st, 'cb) impl" where
  "subscribe_all i regs = foldl (\<lambda>i (ns, cb). fst (SharedStorage i ns (Some cb))) i regs"

lemma subscribe_all_snoc:
  "subscribe_all i (regs @ [(ns, cb)]) = fst (SharedStorage (subscribe_all i regs) ns (Some cb))"
  by (simp add: subscribe_all_def)

lemma SharedStorage_callbacks:
  "callbacks (fst (SharedStorage i ns (Some cb))) =
    AList.update ns ((case map_of (callbacks i) ns of None \<Rightarrow> [] | Some cbs \<Rightarrow> cbs) @ [cb]) (callbacks i)"
  by (simp add: SharedStorage_def Let_def split: option.splits)

text \<open>The callbacks a key reaches, counted with multiplicity, from the map.\<close>

definition reached :: "string \<Rightarrow> 'cb list gomap \<Rightarrow> 'cb multiset" where
  "reached key m = sum_list (map (\<lambda>(k, cbs). if HasPrefix key k then mset cbs else {#}) m)"

lemma reached_Cons: "reached key ((k, cbs) # m) = (if HasPrefix key k then mset cbs else {#}) + reached key m"
  by (simp add: reached_def)

lemma reached_perm: "mset m = mset m' \<Longrightarrow> reached key m = reached key m'"
  unfolding reached_def sum_mset_sum_list [symmetric] mset_map by simp

lemma reached_append:
  "wf_gomap m \<Longrightarrow>
    reached key (AList.update ns ((case map_of m ns of None \<Rightarrow> [] | Some cbs \<Rightarrow> cbs) @ [cb]) m) =
    reached key m + (if HasPrefix key ns then {#cb#} else {#})"
proof (induction m)
  case Nil
  then show ?case by (simp add: reached_def)
next
  case (Cons p m)
  obtain k cbs where p: "p = (k, cbs)" by (cases p)
  show ?case
  proof (cases "k = ns")
    case True
    then show ?thesis by (simp add: p reached_Cons)
  next
    case False
    with Cons show ?thesis by (simp add: p reached_Cons wf_gomap_def)
  qed
qed

lemma subscribe_all_wf: "wf_gomap (callbacks i) \<Longrightarrow> wf_gomap (callbacks (subscribe_all i regs))"
  by (induction regs rule: rev_induct)
    (auto simp: subscribe_all_def SharedStorage_def Let_def split: option.splits)

lemma reached_subscribe_all:
  "wf_gomap (callbacks i) \<Longrightarrow>
    reached key (callbacks (subscribe_all i regs)) =
      reached key (callbacks i) + mset (map snd (filter (\<lambda>(ns, _). HasPrefix key ns) regs))"
proof (induction regs rule: rev_induct)
  case Nil
  then show ?case by (simp add: subscribe_all_def)
next
  case (snoc r regs)
  obtain ns cb where r: "r = (ns, cb)" by (cases r)
  from snoc reached_append [OF subscribe_all_wf [OF snoc.prems], of key ns regs cb] show ?case
    by (simp add: r subscribe_all_snoc SharedStorage_callbacks)
qed

lemma mset_calls:
  "mset (concat (map (\<lambda>(k, cbs). if HasPrefix key k then map f cbs else []) m)) = image_mset f (reached key m)"
  by (induction m) (auto simp: reached_def)

text \<open>
  C33: every subscription is served. After any sequence of subscriptions, a change of a key
  calls, in whatever order the map is visited, exactly the callbacks whose namespace is a
  prefix of the key, each as often as it was subscribed; deletions are announced to the same
  callbacks. The store handed out is the same for all of them.
\<close>

theorem shared_store_notifies:
  assumes "NewSharedStoreProvider antsdb_New cfg = Inr i"
    and "\<forall>m. mset (ord m) = mset m"
  shows "mset (Put_cb ord (subscribe_all i regs) key) =
      mset (map (\<lambda>(ns, cb). CallPut cb key) (filter (\<lambda>(ns, cb). HasPrefix key ns) regs)) \<and>
    mset (Delete_cb ord (subscribe_all i regs) key) =
      mset (map (\<lambda>(ns, cb). CallDelete cb key) (filter (\<lambda>(ns, cb). HasPrefix key ns) regs)) \<and>
    snd (SharedStorage (subscribe_all i regs) ns cb) = Inr (shStore i)"
proof -
  from assms(1) have e: "callbacks i = []"
    by (auto simp: NewSharedStoreProvider_def Let_def split: sum.splits)
  have r: "reached key (ord (callbacks (subscribe_all i regs))) =
      mset (map snd (filter (\<lambda>(ns, _). HasPrefix key ns) regs))"
    using reached_perm [OF assms(2) [rule_format]] reached_subscribe_all [of i key regs] e
    by (simp add: reached_def)
  have "shStore (subscribe_all i regs) = shStore i"
    by (induction regs rule: rev_induct)
      (auto simp: subscribe_all_def SharedStorage_def Let_def split: option.splits)
  then have "snd (SharedStorage (subscribe_all i regs) ns cb) = Inr (shStore i)"
    by (simp add: SharedStorage_def Let_def split: option.splits)
  then show ?thesis unfolding Put_cb_def Delete_cb_def mset_calls r
    by (simp add: multiset.map_comp comp_def case_prod_unfold)
qed

theorem shared_store_notifies_witness:
  "mset (Put_cb rev (subscribe_all \<lparr>shStore = (), callbacks = []\<rparr> [(''acl'', 1), (''x'', 2), (''a'', 3 :: nat), (''acl'', 4)]) ''acl/k'') =
     {#CallPut 1 ''acl/k'', CallPut 3 ''acl/k'', CallPut 4 ''acl/k''#}"
proof -
  have "NewSharedStoreProvider (\<lambda>_. Inr ()) [] = Inr \<lparr>shStore = (), callbacks = ([] :: nat list gomap)\<rparr>"
    by (simp add: NewSharedStoreProvider_def)
  from shared_store_notifies [OF this, of rev "[(''acl'', 1), (''x'', 2), (''a'', 3), (''acl'', 4)]" "''acl/k''"]
  show ?thesis by (simp add: HasPrefix_def)
qed

end
