(* ===== verification/Identity_Keys.thy ===== *)
theory Identity_Keys
  imports Json_Config Go_Base64
begin

text \<open>
  How a node's key travels through the configuration: it is marshalled, base64-encoded and
  stored under \<^verbatim>\<open>Identity\<close> (by \<^verbatim>\<open>WithP2PPrivateKey\<close> and by the repositories' \<^verbatim>\<open>initIdentity\<close>),
  and \<^verbatim>\<open>Identity\<close> of \<^verbatim>\<open>modules/node/ipfs/host.go\<close> reads it back.

  The key library (\<^verbatim>\<open>libp2p-core/crypto\<close>, \<^verbatim>\<open>peer\<close>) is a parameter: a record of the calls the
  code makes. \<open>key_library\<close> states what the code relies on, that unmarshalling a
  marshalled private key gives the key back.
\<close>

section \<open>The key library as a parameter\<close>

record 'k keylib =
  GenerateKeyPair :: "'k result"
  MarshalPrivateKey :: "'k \<Rightarrow> string result"
  UnmarshalPrivateKey :: "string \<Rightarrow> 'k result"
  IDFromPublicKey :: "'k \<Rightarrow> string result"

definition key_library :: "'k keylib \<Rightarrow> bool" where
  "key_library kl \<longleftrightarrow>
     (\<forall>k b. MarshalPrivateKey kl k = Inr b \<longrightarrow> UnmarshalPrivateKey kl b = Inr k)"

text \<open>The two entries of an identity, as \<^verbatim>\<open>WithP2PPrivateKey\<close> and both \<^verbatim>\<open>initIdentity\<close> build them:
  the private key is marshalled first, then the peer ID is derived.\<close>

definition identity_entries :: "'k keylib \<Rightarrow> 'k \<Rightarrow> goval gomap result" where
  "identity_entries kl key =
     (case MarshalPrivateKey kl key of
        Inl err \<Rightarrow> Inl err
      | Inr skbytes \<Rightarrow>
          (case IDFromPublicKey kl key of
             Inl err \<Rightarrow> Inl err
           | Inr pid \<Rightarrow> Inr [(''PrivKey'', GStr (b64_encode skbytes)), (''ID'', GStr pid)]))"

section \<open>Reading the identity back\<close>

definition Identity :: "'k keylib \<Rightarrow> JsonConfig \<Rightarrow> 'k result outcome" where
  "Identity kl conf =
     (case Get decode_any_map conf ''Identity'' [] of
        (False, ident) \<Rightarrow> Ret (Inl (ErrorString ''Identity info missing''))
      | (True, ident) \<Rightarrow>
          (case map_of ident ''PrivKey'' of
             None \<Rightarrow> Ret (Inl (ErrorString ''Private key missing''))
           | Some (GStr privKeyStr) \<Rightarrow>
               (case b64_decode privKeyStr of
                  None \<Rightarrow> Ret (Inl (ErrorString ''illegal base64 data''))
                | Some pkBytes \<Rightarrow> Ret (UnmarshalPrivateKey kl pkBytes))
           | Some _ \<Rightarrow> Panic ''interface conversion''))"

lemma identity_entries_shape:
  assumes "identity_entries kl key = Inr ident"
  obtains sk pid where "MarshalPrivateKey kl key = Inr sk" "IDFromPublicKey kl key = Inr pid"
    "ident = [(''PrivKey'', GStr (b64_encode sk)), (''ID'', GStr pid)]"
  using assms by (auto simp: identity_entries_def split: sum.splits)

lemma wf_identity_entries: "identity_entries kl key = Inr ident \<Longrightarrow> wf_goval (GMap ident)"
  by (erule identity_entries_shape) (simp add: wf_gomap_def)

lemma marshal_identity:
  assumes "identity_entries kl key = Inr ident"
  obtains sk pid where "MarshalPrivateKey kl key = Inr sk" "IDFromPublicKey kl key = Inr pid"
    "marshal (GMap ident) = Some (JObj [(''ID'', JStr pid), (''PrivKey'', JStr (b64_encode sk))])"
  using assms
  by (elim identity_entries_shape)
    (simp add: less_eq_list_code less_char_def)

text \<open>Whatever configuration holds the identity of a key, \<^verbatim>\<open>Identity\<close> finds that key.\<close>

lemma Identity_of_doc:
  assumes "key_library kl" "identity_entries kl key = Inr ident" "wf_config c"
    and "doc_of c ''Identity'' = marshal (GMap ident)"
  shows "Identity kl c = Ret (Inr key)"
proof -
  obtain sk pid where sk: "MarshalPrivateKey kl key = Inr sk"
    and m: "marshal (GMap ident) = Some (JObj [(''ID'', JStr pid), (''PrivKey'', JStr (b64_encode sk))])"
    using marshal_identity [OF assms(2)] by blast
  have "Get decode_any_map c ''Identity'' [] =
      (True, [(''ID'', GStr pid), (''PrivKey'', GStr (b64_encode sk))])"
    using assms(4) m
    by (simp add: Get_doc_of [OF assms(3)] decode_map_def decode_any_def del: marshal.simps)
  with assms(1) sk show ?thesis
    by (simp add: Identity_def key_library_def)
qed

text \<open>A library that satisfies the hypothesis: keys are their own encoding.\<close>

definition sample_keylib :: "string keylib" where
  "sample_keylib = \<lparr>GenerateKeyPair = Inr ''k'', MarshalPrivateKey = Inr, UnmarshalPrivateKey = Inr,
     IDFromPublicKey = (\<lambda>k. Inr (CHR ''Q'' # k))\<rparr>"

lemma sample_keylib_ok: "key_library sample_keylib"
  by (simp add: key_library_def sample_keylib_def)

end
