(* ===== verification/Msuite_Options.thy ===== *)
theory Msuite_Options
  imports Identity_Keys
begin

text \<open>
  \<^verbatim>\<open>msuite.go\<close>: the public options. An option is a function on the start-up configuration;
  it can panic where the source asserts a dynamic type. \<^verbatim>\<open>New\<close> applies the options in order,
  adds the defaults and hands the configuration to the node.
\<close>

section \<open>The options\<close>

record BuildCfg =
  startupCfg :: JsonConfig

definition set_cfg :: "string \<Rightarrow> goval \<Rightarrow> BuildCfg \<Rightarrow> BuildCfg" where
  "set_cfg k v c = c\<lparr>startupCfg := Set (startupCfg c) k v\<rparr>"

type_synonym Option = "BuildCfg \<Rightarrow> BuildCfg outcome"

definition WithGRPC :: "string \<Rightarrow> goval \<Rightarrow> Option" where
  "WithGRPC nw id_val c =
     (let c = set_cfg ''UseGRPC'' (GBool True) c in
      if nw = ''tcp'' then
        (let c = set_cfg ''UseTCP'' (GBool True) c in
         case id_val of
           GInt n \<Rightarrow> Ret (set_cfg ''TCPPort'' (GInt n) c)
         | _ \<Rightarrow> Panic ''interface conversion'')
      else if nw = ''p2p'' then Ret (set_cfg ''UseP2PGRPC'' (GBool True) c)
      else if nw = ''unix'' then
        (let c = set_cfg ''UseUDS'' (GBool True) c in
         case id_val of
           GStr s \<Rightarrow> Ret (set_cfg ''UDSocket'' (GStr s) c)
         | _ \<Rightarrow> Panic ''interface conversion'')
      else Ret c)"

definition WithAuth :: "string \<Rightarrow> Option" where
  "WithAuth secret c =
     Ret (set_cfg ''JWTSecret'' (GStr secret) (set_cfg ''UseAuth'' (GBool True) c))"

definition WithTracing :: "string \<Rightarrow> string \<Rightarrow> Option" where
  "WithTracing name host c =
     Ret (set_cfg ''TracingHost'' (GStr host) (set_cfg ''TracingName'' (GStr name)
       (set_cfg ''UseTracing'' (GBool True) c)))"

definition WithHTTP :: "int \<Rightarrow> Option" where
  "WithHTTP port c = Ret (set_cfg ''HTTPPort'' (GInt port) (set_cfg ''UseHTTP'' (GBool True) c))"

definition WithLocker :: "string \<Rightarrow> string gomap \<Rightarrow> Option" where
  "WithLocker lkr cfg c =
     (let c = set_cfg ''Locker'' (GStr lkr) (set_cfg ''UseLocker'' (GBool True) c) in
      Ret (fold (\<lambda>(k, v) c. set_cfg k (GStr v) c) cfg c))"

definition WithP2PPrivateKey :: "'k keylib \<Rightarrow> 'k \<Rightarrow> Option" where
  "WithP2PPrivateKey kl key c =
     (case identity_entries kl key of
        Inl err \<Rightarrow> Ret c
      | Inr ident \<Rightarrow> Ret (set_cfg ''Identity'' (GMap ident) c))"

definition WithP2P :: "int \<Rightarrow> Option" where
  "WithP2P port c = Ret (set_cfg ''SwarmPort'' (GInt port) (set_cfg ''UseP2P'' (GBool True) c))"

definition WithRepositoryRoot :: "string \<Rightarrow> Option" where
  "WithRepositoryRoot path c = Ret (set_cfg ''RootPath'' (GStr path) c)"

text \<open>Without arguments the variadic slice is nil.\<close>

definition WithServices :: "string list \<Rightarrow> Option" where
  "WithServices services c =
     Ret (set_cfg ''Services'' (if services = [] then GNil else GStrs services) c)"

definition WithServiceACL :: "string gomap \<Rightarrow> Option" where
  "WithServiceACL acl c =
     (let existingAcls = snd (Get decode_str_map (startupCfg c) ''ACL'' []) in
      Ret (set_cfg ''ACL'' (GStrMap (put_all id acl existingAcls)) c))"

definition WithTaskManager :: "int \<Rightarrow> int \<Rightarrow> Option" where
  "WithTaskManager mn mx c =
     (let mx = (if mx < 20 then mx + 20 else mx) in
      Ret (set_cfg ''TMWorkers'' (GIntMap [(''Min'', mn), (''Max'', mx)]) c))"

definition WithPrometheus :: "bool \<Rightarrow> Option" where
  "WithPrometheus useLatency c =
     (let c = set_cfg ''UsePrometheus'' (GBool True) c in
      Ret (if useLatency then set_cfg ''UsePrometheusLatency'' (GBool True) c else c))"

definition WithStaticDiscovery :: "string gomap \<Rightarrow> Option" where
  "WithStaticDiscovery svcAddrs c =
     Ret (set_cfg ''StaticAddresses'' (GStrMap svcAddrs) (set_cfg ''UseStaticDiscovery'' (GBool True) c))"

definition WithDebug :: Option where
  "WithDebug c = Ret (set_cfg ''UseDebug'' (GBool True) c)"

definition WithFiles :: Option where
  "WithFiles c = Ret (set_cfg ''UseFiles'' (GBool True) c)"

definition WithBootstrapNodes :: "string list \<Rightarrow> Option" where
  "WithBootstrapNodes addrs c =
     Ret (if 0 < length addrs then set_cfg ''BootstrapAddresses'' (GStrs addrs) c else c)"

definition defaultOpts :: "BuildCfg \<Rightarrow> BuildCfg" where
  "defaultOpts c =
     (if \<not> Exists (startupCfg c) ''Services'' then set_cfg ''Services'' (GStrs [''msuite'']) c else c)"

text \<open>The options are applied one after the other; a panic ends the call.\<close>

fun apply_opts :: "Option list \<Rightarrow> BuildCfg \<Rightarrow> BuildCfg outcome" where
  "apply_opts [] c = Ret c"
| "apply_opts (opt # opts) c =
     (case opt c of Panic m \<Rightarrow> Panic m | Ret c' \<Rightarrow> apply_opts opts c')"

text \<open>\<^verbatim>\<open>New\<close>, with the node constructor it calls as an argument.\<close>

definition New_msuite :: "(JsonConfig \<Rightarrow> 'svc result) \<Rightarrow> Option list \<Rightarrow> 'svc result outcome" where
  "New_msuite node_New opts =
     (case apply_opts opts \<lparr>startupCfg = DefaultConfig\<rparr> of
        Panic m \<Rightarrow> Panic m
      | Ret bCfg \<Rightarrow> Ret (node_New (startupCfg (defaultOpts bCfg))))"


text \<open>
  The options write through \<open>set_cfg\<close>: a build configuration is a configuration store again, so
  the laws of a sequence of writes hold for the loop of \<^verbatim>\<open>WithLocker\<close>.
\<close>

interpretation bc: config_store "\<lambda>c. doc_of (startupCfg c)" "\<lambda>c k v. set_cfg k v c" "\<lambda>c. IsSet (startupCfg c)"
  "\<lambda>c. Exists (startupCfg c)" "\<lambda>c. wf_config (startupCfg c)"
  by unfold_locales (simp_all add: set_cfg_def jc.doc_put jc.flag_put jc.flag_put_other jc.has_put jc.inv_put)

lemma fold_strings_puts:
  "fold (\<lambda>(k, v) c. set_cfg k (GStr v) c) cfg c = bc.puts c (map (\<lambda>(k, v). (k, GStr v)) cfg)"
  by (simp add: bc.puts_def fold_map comp_def case_prod_unfold)

section \<open>What the options make of the configuration\<close>

text \<open>The keys the node later tests with \<^verbatim>\<open>IsSet\<close>, which panics on anything but a boolean.\<close>

definition flag_keys :: "string list" where
  "flag_keys = [''UseGRPC'', ''UseTCP'', ''UseP2PGRPC'', ''UseUDS'', ''UseAuth'', ''UseTracing'',
     ''UseHTTP'', ''UseLocker'', ''UseP2P'', ''UsePrometheus'', ''UsePrometheusLatency'',
     ''UseStaticDiscovery'', ''UseDebug'', ''UseFiles'']"

definition flag_ok :: "JsonConfig \<Rightarrow> string \<Rightarrow> bool" where
  "flag_ok c k = (case IsSet c k of Ret _ \<Rightarrow> True | Panic _ \<Rightarrow> False)"

definition encodable :: "JsonConfig \<Rightarrow> bool" where
  "encodable c = list_all (\<lambda>kv. marshal (snd kv) \<noteq> None) c"

definition usable_config :: "JsonConfig \<Rightarrow> bool" where
  "usable_config c = (wf_config c \<and> encodable c \<and> list_all (flag_ok c) flag_keys)"

definition flag_value :: "string \<Rightarrow> goval \<Rightarrow> bool" where
  "flag_value k v = (k \<in> set flag_keys \<longrightarrow> (\<exists>b. v = GBool b))"

lemma encodable_Set: "encodable c \<Longrightarrow> marshal v \<noteq> None \<Longrightarrow> encodable (Set c k v)"
  using set_alist_update [of k v c] by (auto simp: encodable_def Set_def list_all_iff)

lemma usable_Set:
  assumes "usable_config c" "wf_goval v" "marshal v \<noteq> None" "flag_value k v"
  shows "usable_config (Set c k v)"
proof -
  have "flag_ok (Set c k v) f" if "f \<in> set flag_keys" for f
    using assms(1,4) that
    by (cases "f = k") (auto simp: usable_config_def flag_ok_def flag_value_def list_all_iff
        IsSet_Set_other IsSet_Set_bool)
  with assms show ?thesis by (simp add: usable_config_def list_all_iff encodable_Set)
qed

lemma flag_value_simps [simp]:
  "flag_value k (GBool b)" "k \<notin> set flag_keys \<Longrightarrow> flag_value k v"
  by (simp_all add: flag_value_def)

lemma usable_default: "usable_config DefaultConfig"
  by (simp add: usable_config_def encodable_def list_all_iff flag_ok_def IsSet_def DefaultConfig_def
      wf_config_def)

text \<open>A call of an exported option, with any arguments its signature allows.\<close>

datatype 'k option_call =
  CallGRPC string goval | CallAuth string | CallTracing string string | CallHTTP int | CallLocker string "string gomap"
| CallP2PPrivateKey 'k | CallP2P int | CallRepositoryRoot string | CallServices "string list"
| CallServiceACL "string gomap" | CallTaskManager int int | CallPrometheus bool | CallStaticDiscovery "string gomap"
| CallDebug | CallFiles | CallBootstrapNodes "string list"

fun option_of :: "'k keylib \<Rightarrow> 'k option_call \<Rightarrow> Option" where
  "option_of kl (CallGRPC nw v) = WithGRPC nw v"
| "option_of kl (CallAuth secret) = WithAuth secret"
| "option_of kl (CallTracing name host) = WithTracing name host"
| "option_of kl (CallHTTP port) = WithHTTP port"
| "option_of kl (CallLocker lkr cfg) = WithLocker lkr cfg"
| "option_of kl (CallP2PPrivateKey key) = WithP2PPrivateKey kl key"
| "option_of kl (CallP2P port) = WithP2P port"
| "option_of kl (CallRepositoryRoot path) = WithRepositoryRoot path"
| "option_of kl (CallServices services) = WithServices services"
| "option_of kl (CallServiceACL acl) = WithServiceACL acl"
| "option_of kl (CallTaskManager mn mx) = WithTaskManager mn mx"
| "option_of kl (CallPrometheus useLatency) = WithPrometheus useLatency"
| "option_of kl (CallStaticDiscovery addrs) = WithStaticDiscovery addrs"
| "option_of kl CallDebug = WithDebug"
| "option_of kl CallFiles = WithFiles"
| "option_of kl (CallBootstrapNodes addrs) = WithBootstrapNodes addrs"

text \<open>Maps are maps, and integers fit a JSON number.\<close>

fun args_ok :: "'k option_call \<Rightarrow> bool" where
  "args_ok (CallGRPC nw (GInt port)) = safe_int port"
| "args_ok (CallHTTP port) = safe_int port"
| "args_ok (CallP2P port) = safe_int port"
| "args_ok (CallTaskManager mn mx) = (safe_int mn \<and> safe_int mx)"
| "args_ok (CallLocker lkr cfg) = wf_gomap cfg"
| "args_ok (CallServiceACL acl) = wf_gomap acl"
| "args_ok (CallStaticDiscovery addrs) = wf_gomap addrs"
| "args_ok _ = True"

text \<open>The calls that assert a type their argument does not have.\<close>

fun wrong_id :: "'k option_call \<Rightarrow> bool" where
  "wrong_id (CallGRPC nw v) =
     (nw = ''tcp'' \<and> (\<nexists>n. v = GInt n) \<or> nw = ''unix'' \<and> (\<nexists>s. v = GStr s))"
| "wrong_id _ = False"

text \<open>The flags a call switches on, and those a locker's map overwrites with a string.\<close>

fun switches_on :: "'k option_call \<Rightarrow> string list" where
  "switches_on (CallGRPC nw v) = ''UseGRPC'' #
     (if nw = ''tcp'' then [''UseTCP''] else if nw = ''p2p'' then [''UseP2PGRPC''] else if nw = ''unix'' then [''UseUDS''] else [])"
| "switches_on (CallAuth _) = [''UseAuth'']"
| "switches_on (CallTracing _ _) = [''UseTracing'']"
| "switches_on (CallHTTP _) = [''UseHTTP'']"
| "switches_on (CallLocker _ _) = [''UseLocker'']"
| "switches_on (CallP2P _) = [''UseP2P'']"
| "switches_on (CallPrometheus useLatency) = ''UsePrometheus'' # (if useLatency then [''UsePrometheusLatency''] else [])"
| "switches_on (CallStaticDiscovery _) = [''UseStaticDiscovery'']"
| "switches_on CallDebug = [''UseDebug'']"
| "switches_on CallFiles = [''UseFiles'']"
| "switches_on _ = []"

fun overwrites :: "'k option_call \<Rightarrow> string list" where
  "overwrites (CallLocker _ cfg) = go_keys cfg"
| "overwrites _ = []"

definition flag_after :: "string \<Rightarrow> bool outcome \<Rightarrow> 'k option_call \<Rightarrow> bool outcome" where
  "flag_after k s oc =
     (if k \<in> set (overwrites oc) then Panic ''interface conversion''
      else if k \<in> set (switches_on oc) then Ret True else s)"

definition storable :: "JsonConfig \<Rightarrow> bool" where
  "storable c \<longleftrightarrow> wf_config c \<and> encodable c"

lemma usable_iff: "usable_config c \<longleftrightarrow> storable c \<and> (\<forall>k \<in> set flag_keys. \<exists>b. IsSet c k = Ret b)"
proof -
  have "flag_ok c k \<longleftrightarrow> (\<exists>b. IsSet c k = Ret b)" for k by (cases "IsSet c k") (simp_all add: flag_ok_def)
  then show ?thesis by (simp add: usable_config_def storable_def list_all_iff)
qed

lemma flag_key_neq:
  assumes "k \<in> set flag_keys"
  shows "k \<noteq> ''TCPPort''" "k \<noteq> ''UDSocket''" "k \<noteq> ''JWTSecret''" "k \<noteq> ''TracingHost''" "k \<noteq> ''TracingName''" "k \<noteq> ''HTTPPort''"
    "k \<noteq> ''Locker''" "k \<noteq> ''Identity''" "k \<noteq> ''SwarmPort''" "k \<noteq> ''RootPath''" "k \<noteq> ''Services''" "k \<noteq> ''ACL''"
    "k \<noteq> ''TMWorkers''" "k \<noteq> ''StaticAddresses''" "k \<noteq> ''BootstrapAddresses''"
  using assms by (auto simp: flag_keys_def)

lemma storable_set_cfg:
  "storable (startupCfg c) \<Longrightarrow> wf_goval v \<Longrightarrow> marshal v \<noteq> None \<Longrightarrow> storable (startupCfg (set_cfg k v c))"
  by (simp add: storable_def set_cfg_def encodable_Set)

lemma IsSet_set_cfg:
  "IsSet (startupCfg (set_cfg k v c)) k' =
    (if k' = k then (case v of GBool b \<Rightarrow> Ret b | _ \<Rightarrow> Panic ''interface conversion'') else IsSet (startupCfg c) k')"
  by (simp add: set_cfg_def IsSet_Set_other) (simp add: IsSet_def Set_def go_simps split: goval.splits)

lemma wf_decoded_map: "wf_gomap (snd (decode_map dec zero [] j))"
  by (simp add: decode_map_def split: json.splits)

lemma wf_Get_str_map: "wf_gomap (snd (Get (decode_map dec zero) c k []))"
  by (auto simp: Get_def Unmarshal_def wf_decoded_map split: option.splits)

lemma safe_int_task_max: "safe_int mx \<Longrightarrow> safe_int (if mx < 20 then mx + 20 else mx)"
  by (auto simp: safe_int_def)

lemma fold_strings:
  "storable (startupCfg c) \<Longrightarrow> storable (startupCfg (fold (\<lambda>(k, v) c. set_cfg k (GStr v) c) cfg c))"
  "IsSet (startupCfg (fold (\<lambda>(k, v) c. set_cfg k (GStr v) c) cfg c)) k =
    (if k \<in> set (go_keys cfg) then Panic ''interface conversion'' else IsSet (startupCfg c) k)"
  by (induction cfg arbitrary: c) (auto simp: storable_set_cfg IsSet_set_cfg go_keys_def)

lemmas option_defs = WithGRPC_def WithAuth_def WithTracing_def WithHTTP_def WithLocker_def WithP2P_def WithRepositoryRoot_def
  WithServices_def WithServiceACL_def WithTaskManager_def WithPrometheus_def WithStaticDiscovery_def WithDebug_def
  WithFiles_def WithBootstrapNodes_def

text \<open>What one call does to a configuration.\<close>

lemma call_storable:
  assumes "args_ok oc" "\<not> wrong_id oc" "storable (startupCfg c)"
  shows "\<exists>c'. option_of kl oc c = Ret c' \<and> storable (startupCfg c')"
proof (cases oc)
  case (CallP2PPrivateKey key)
  show ?thesis
  proof (cases "identity_entries kl key")
    case (Inr ident)
    obtain j where "marshal (GMap ident) = Some j" using marshal_identity [OF Inr] by blast
    with Inr assms(3) CallP2PPrivateKey wf_identity_entries [OF Inr] show ?thesis
      by (auto simp: WithP2PPrivateKey_def simp del: marshal.simps wf_goval.simps intro!: storable_set_cfg)
  qed (use assms(3) CallP2PPrivateKey in \<open>simp add: WithP2PPrivateKey_def\<close>)
next
  case (CallGRPC nw v)
  consider n where "nw = ''tcp''" "v = GInt n" | "nw = ''p2p''" | str where "nw = ''unix''" "v = GStr str"
    | "nw \<noteq> ''tcp''" "nw \<noteq> ''p2p''" "nw \<noteq> ''unix''" using assms(2) CallGRPC by auto
  then show ?thesis using assms(1,3) CallGRPC by cases (simp_all add: WithGRPC_def Let_def storable_set_cfg)
next
  case (CallLocker lkr cfg)
  with assms show ?thesis by (auto simp: WithLocker_def Let_def intro!: fold_strings(1) storable_set_cfg)
next
  case (CallTaskManager mn mx)
  with assms safe_int_task_max [of mx] show ?thesis
    by (auto simp: WithTaskManager_def Let_def wf_gomap_def intro!: storable_set_cfg)
qed (use assms in \<open>auto simp: option_defs Let_def wf_Get_str_map intro!: storable_set_cfg\<close>)

lemma WithGRPC_flag:
  assumes "WithGRPC nw v c = Ret c'" "k \<in> set flag_keys"
  shows "IsSet (startupCfg c') k = (if k \<in> set (switches_on (CallGRPC nw v)) then Ret True else IsSet (startupCfg c) k)"
proof -
  note neq = flag_key_neq(1,2) [OF assms(2)]
  consider "nw = ''tcp''" | "nw = ''p2p''" | "nw = ''unix''" | "nw \<noteq> ''tcp''" "nw \<noteq> ''p2p''" "nw \<noteq> ''unix''" by blast
  then show ?thesis
  proof cases
    case 1
    with assms(1) obtain n where "c' = set_cfg ''TCPPort'' (GInt n) (set_cfg ''UseTCP'' (GBool True) (set_cfg ''UseGRPC'' (GBool True) c))"
      by (cases v) (auto simp: WithGRPC_def)
    with 1 neq show ?thesis by (simp add: IsSet_set_cfg)
  next
    case 3
    with assms(1) obtain str where
      "c' = set_cfg ''UDSocket'' (GStr str) (set_cfg ''UseUDS'' (GBool True) (set_cfg ''UseGRPC'' (GBool True) c))"
      by (cases v) (auto simp: WithGRPC_def)
    with 3 neq show ?thesis by (simp add: IsSet_set_cfg)
  qed (use assms(1) in \<open>auto simp: WithGRPC_def IsSet_set_cfg\<close>)
qed

lemma call_flag:
  assumes "option_of kl oc c = Ret c'" "k \<in> set flag_keys"
  shows "IsSet (startupCfg c') k = flag_after k (IsSet (startupCfg c) k) oc"
proof (cases oc)
  case (CallP2PPrivateKey key)
  with assms(1) show ?thesis using flag_key_neq [OF assms(2)]
    by (auto simp: WithP2PPrivateKey_def IsSet_set_cfg flag_after_def split: sum.splits)
next
  case (CallGRPC nw v)
  with WithGRPC_flag [of nw v c c' k] assms show ?thesis by (simp add: flag_after_def del: switches_on.simps)
next
  case (CallServiceACL acl)
  with assms(1) have "c' = set_cfg ''ACL'' (GStrMap (put_all id acl (snd (Get decode_str_map (startupCfg c) ''ACL'' [])))) c"
    by (simp add: WithServiceACL_def Let_def)
  with CallServiceACL flag_key_neq(12) [OF assms(2)] show ?thesis by (simp add: IsSet_set_cfg flag_after_def)
next
  case (CallLocker lkr cfg)
  with assms(1) have "c' = fold (\<lambda>(k, v) c. set_cfg k (GStr v) c) cfg (set_cfg ''Locker'' (GStr lkr) (set_cfg ''UseLocker'' (GBool True) c))"
    by (simp add: WithLocker_def Let_def)
  with CallLocker flag_key_neq(7) [OF assms(2)] show ?thesis by (simp add: fold_strings(2) IsSet_set_cfg flag_after_def)
qed (use assms(1) [symmetric] flag_key_neq [OF assms(2)] in \<open>simp_all add: option_defs Let_def IsSet_set_cfg flag_after_def\<close>)

lemma call_panics: "wrong_id oc \<Longrightarrow> \<exists>m. option_of kl oc c = Panic m"
  by (cases oc) (auto simp: WithGRPC_def Let_def split: goval.splits)

lemma apply_calls:
  assumes "\<forall>oc \<in> set calls. args_ok oc \<and> \<not> wrong_id oc" "storable (startupCfg c)"
  shows "\<exists>c'. apply_opts (map (option_of kl) calls) c = Ret c' \<and> storable (startupCfg c') \<and>
    (\<forall>k \<in> set flag_keys. IsSet (startupCfg c') k = foldl (flag_after k) (IsSet (startupCfg c) k) calls)"
  using assms
proof (induction calls arbitrary: c)
  case (Cons oc calls)
  then obtain c1 where c1: "option_of kl oc c = Ret c1" "storable (startupCfg c1)" using call_storable [of oc c kl] by auto
  from Cons.IH [OF _ c1(2)] Cons.prems(1) c1(1) call_flag [OF c1(1)] show ?case by auto
qed simp

lemma apply_calls_panics:
  assumes "\<exists>oc \<in> set calls. wrong_id oc"
  shows "\<exists>m. apply_opts (map (option_of kl) calls) c = Panic m"
  using assms
proof (induction calls arbitrary: c)
  case (Cons oc calls)
  then show ?case using call_panics [of oc kl c] by (auto split: outcome.splits)
qed simp

lemma storable_defaults:
  assumes "storable (startupCfg c)"
  shows "storable (startupCfg (defaultOpts c))" "Exists (startupCfg (defaultOpts c)) ''Services''"
    "k \<in> set flag_keys \<Longrightarrow> IsSet (startupCfg (defaultOpts c)) k = IsSet (startupCfg c) k"
  using assms by (auto simp: defaultOpts_def flag_keys_def IsSet_set_cfg intro!: storable_set_cfg)
    (simp add: set_cfg_def Exists_Set)



section \<open>Service ACLs accumulate\<close>

lemma WithServiceACL_Get:
  assumes "wf_config (startupCfg c)" "wf_gomap acl"
  obtains c' m where "WithServiceACL acl c = Ret c'" "wf_config (startupCfg c')"
    "Get decode_str_map (startupCfg c') ''ACL'' [] = (True, m)"
    "map_of m = map_of (snd (Get decode_str_map (startupCfg c) ''ACL'' [])) ++ map_of acl"
proof -
  let ?old = "snd (Get decode_str_map (startupCfg c) ''ACL'' [])"
  let ?new = "put_all id acl ?old"
  have wf: "wf_gomap ?new" by (simp add: wf_Get_str_map)
  let ?c' = "set_cfg ''ACL'' (GStrMap ?new) c"
  have "Get decode_str_map (startupCfg ?c') ''ACL'' [] =
      decode_str_map [] (JObj (sort_key fst (map (\<lambda>(k, s). (k, JStr s)) ?new)))"
    using assms(1) wf by (simp add: set_cfg_def Get_Set)
  then have "Get decode_str_map (startupCfg ?c') ''ACL'' [] =
      (True, snd (Get decode_str_map (startupCfg ?c') ''ACL'' []))"
    and "map_of (snd (Get decode_str_map (startupCfg ?c') ''ACL'' [])) = map_of ?new"
    using decode_str_map_entries [OF wf] by (metis prod.collapse)+
  moreover have "map_of ?new = map_of ?old ++ map_of acl"
    by (rule ext) (simp add: map_of_put_all [OF assms(2)] map_add_def split: option.splits)
  moreover have "wf_config (startupCfg ?c')" using assms(1) wf by (simp add: set_cfg_def)
  ultimately show ?thesis using that [of ?c'] by (simp add: WithServiceACL_def)
qed

text \<open>
  Several \<^verbatim>\<open>WithServiceACL\<close> options add up. The ACL entry of the configuration maps each
  service to the role the last option naming it gave, and services no option names keep
  the role they had.
\<close>

lemma service_acls_accumulate:
  assumes "wf_config (startupCfg c)" "\<forall>acl \<in> set acls. wf_gomap acl"
  shows "\<exists>c'. apply_opts (map WithServiceACL acls) c = Ret c' \<and>
    map_of (snd (Get decode_str_map (startupCfg c') ''ACL'' [])) =
      foldl (++) (map_of (snd (Get decode_str_map (startupCfg c) ''ACL'' []))) (map map_of acls)"
  using assms
proof (induction acls arbitrary: c)
  case (Cons acl acls)
  obtain c1 m where "WithServiceACL acl c = Ret c1" "wf_config (startupCfg c1)"
    "Get decode_str_map (startupCfg c1) ''ACL'' [] = (True, m)"
    "map_of m = map_of (snd (Get decode_str_map (startupCfg c) ''ACL'' [])) ++ map_of acl"
    using WithServiceACL_Get [of c acl] Cons.prems by auto
  with Cons.IH [of c1] Cons.prems(2) show ?case by auto
qed simp

lemma service_acls_accumulate_sample:
  "\<exists>c'. apply_opts (map WithServiceACL [[(''a'', ''admin'')], [(''b'', ''none''), (''a'', ''public_read'')]])
       \<lparr>startupCfg = DefaultConfig\<rparr> = Ret c' \<and>
     map_of (snd (Get decode_str_map (startupCfg c') ''ACL'' [])) ''a'' = Some ''public_read''"
  using service_acls_accumulate [of "\<lparr>startupCfg = DefaultConfig\<rparr>"
      "[[(''a'', ''admin'')], [(''b'', ''none''), (''a'', ''public_read'')]]"]
  by (auto simp: wf_gomap_def)

section \<open>A given private key is the node's key\<close>

text \<open>
  A node started with \<^verbatim>\<open>WithP2PPrivateKey\<close> uses that key. For a key the library can
  marshal and name, \<^verbatim>\<open>Identity\<close> on the configuration after the option returns the key, and so
  it does on the configuration read back from the file it was saved to.
\<close>

lemma private_key_is_identity:
  assumes "key_library kl" "identity_entries kl key = Inr ident" "wf_config (startupCfg c)"
    and "WithP2PPrivateKey kl key c = Ret c'"
    and "Reader (startupCfg c') = Inr buf" "WriteToFile fs buf f = (fs', None)"
  shows "Identity kl (startupCfg c') = Ret (Inr key) \<and>
    (\<exists>saved. FromFile fs' f = Inr saved \<and> Identity kl saved = Ret (Inr key))"
proof -
  have c': "startupCfg c' = Set (startupCfg c) ''Identity'' (GMap ident)"
    using assms(2,4) by (auto simp: WithP2PPrivateKey_def set_cfg_def)
  then have wf: "wf_config (startupCfg c')"
    using assms(3) wf_identity_entries [OF assms(2)] by simp
  have doc: "doc_of (startupCfg c') ''Identity'' = marshal (GMap ident)"
    by (simp add: c' doc_of_Set del: marshal.simps)
  obtain saved where s: "Unmarshal decode_any_map buf [] = (True, saved)" "wf_config saved"
    "doc_of saved = doc_of (startupCfg c')"
    using reload_decoded [OF wf] assms(5) [unfolded Reader_Inr] by metis
  have "FromFile fs' f = Inr saved"
    using WriteToFile_ok(1) [OF assms(6)] s(1) by (rule FromFile_read)
  with s doc wf Identity_of_doc [OF assms(1,2)] show ?thesis by auto
qed

lemma private_key_is_identity_sample:
  "\<exists>c' fs' saved. WithP2PPrivateKey sample_keylib ''key'' \<lparr>startupCfg = DefaultConfig\<rparr> = Ret c' \<and>
     FromFile fs' ''c.json'' = Inr saved \<and> Identity sample_keylib saved = Ret (Inr ''key'')"
proof -
  have kl: "key_library sample_keylib" by (rule sample_keylib_ok)
  have i: "identity_entries sample_keylib ''key'' =
      Inr [(''PrivKey'', GStr (b64_encode ''key'')), (''ID'', GStr ''Qkey'')]"
    by (simp add: identity_entries_def sample_keylib_def)
  define c' where "c' = set_cfg ''Identity''
    (GMap [(''PrivKey'', GStr (b64_encode ''key'')), (''ID'', GStr ''Qkey'')]) \<lparr>startupCfg = DefaultConfig\<rparr>"
  have o: "WithP2PPrivateKey sample_keylib ''key'' \<lparr>startupCfg = DefaultConfig\<rparr> = Ret c'"
    by (simp add: WithP2PPrivateKey_def i c'_def)
  obtain buf where b: "Reader (startupCfg c') = Inr buf"
    by (simp add: Reader_def Marshal_def c'_def set_cfg_def Set_def DefaultConfig_def del: b64_encode.simps)
  obtain fs' where w: "WriteToFile empty_fs buf ''c.json'' = (fs', None)"
    using empty_fs_write by blast
  from private_key_is_identity [OF kl i _ o b w] o show ?thesis by auto
qed

end
