(* ===== verification/Grpc_Client.thy ===== *)
theory Grpc_Client
  imports Msuite_Options
begin

text \<open>
  \<^verbatim>\<open>modules/grpc/client/client.go\<close> and \<^verbatim>\<open>modules/grpc/p2pgrpc/grpc_dialer.go\<close>: connections to other
  services, found through peer discovery or from static addresses, and the task that keeps
  the node's own services advertised. Discovery, hosts, \<^verbatim>\<open>grpc\<close> and the network are parameters;
  what a discovery channel delivers is a list of events that ends when the channel is closed.
\<close>

section \<open>Finding a peer\<close>

record AddrInfo =
  ai_ID :: string
  ai_Addrs :: "string list"

record clientImpl =
  cl_svcs :: "string list"
  cl_hostAddr :: AddrInfo

definition ErrNoPeerForSvc :: goerror where
  "ErrNoPeerForSvc = ErrorString ''failed to find any usable peer for service''"

definition NewP2PClientService ::
  "('h \<Rightarrow> string \<Rightarrow> string list \<Rightarrow> 'h) \<Rightarrow> 'h \<Rightarrow> JsonConfig \<Rightarrow> AddrInfo \<Rightarrow> 'h \<times> clientImpl" where
  "NewP2PClientService AddAddrs localDialer cfg mainHost =
     (AddAddrs localDialer (ai_ID mainHost) (ai_Addrs mainHost),
      \<lparr>cl_svcs = snd (Get decode_strings cfg ''Services'' []), cl_hostAddr = mainHost\<rparr>)"

text \<open>What the loop's \<^verbatim>\<open>select\<close> sees: a peer, or the end of the caller's context.\<close>

datatype find_event = Found AddrInfo | CtxDone goerror

fun try_peers ::
  "('h \<Rightarrow> AddrInfo \<Rightarrow> 'h \<times> goerror option) \<Rightarrow> ('h \<Rightarrow> string \<Rightarrow> 'conn result) \<Rightarrow> 'h \<Rightarrow> find_event list \<Rightarrow> 'h \<times> 'conn result" where
  "try_peers Connect Dial h [] = (h, Inl ErrNoPeerForSvc)"
| "try_peers Connect Dial h (CtxDone err # evs) = (h, Inl err)"
| "try_peers Connect Dial h (Found pAddr # evs) =
     (case Connect h pAddr of
        (h', Some err) \<Rightarrow> try_peers Connect Dial h' evs
      | (h', None) \<Rightarrow> (h', Dial h' (ai_ID pAddr)))"

definition Get_p2p ::
  "(string \<Rightarrow> find_event list result) \<Rightarrow> ('h \<Rightarrow> AddrInfo \<Rightarrow> 'h \<times> goerror option) \<Rightarrow> ('h \<Rightarrow> string \<Rightarrow> 'conn result) \<Rightarrow>
     clientImpl \<Rightarrow> 'h \<Rightarrow> string \<Rightarrow> 'h \<times> 'conn result" where
  "Get_p2p FindPeers Connect Dial c h svc =
     (if list_ex (\<lambda>v. svc = v) (cl_svcs c) then (h, Dial h (ai_ID (cl_hostAddr c)))
      else
        (case FindPeers svc of
           Inl err \<Rightarrow> (h, Inl err)
         | Inr p \<Rightarrow> try_peers Connect Dial h p))"

text \<open>A host on which a connection succeeds exactly for the peers that can be reached: the loop is
  a search for the first of them.\<close>

lemma try_peers_find:
  assumes "\<And>h p. snd (Connect h p) = None \<longleftrightarrow> ok p"
  shows "\<exists>h'. try_peers Connect Dial h (map Found ps) =
    (h', case List.find ok ps of None \<Rightarrow> Inl ErrNoPeerForSvc | Some p \<Rightarrow> Dial h' (ai_ID p))"
proof (induction ps arbitrary: h)
  case (Cons p ps)
  obtain h' e where c: "Connect h p = (h', e)" by fastforce
  show ?case
  proof (cases e)
    case None
    with c assms [of h p] show ?thesis by simp
  next
    case (Some err)
    with c assms [of h p] Cons.IH [of h'] show ?thesis by simp
  qed
qed simp

text \<open>
  Which peer a client connects to. For a service the node itself runs the client dials
  the node's own host and asks nobody; for any other service it dials the first peer, in the
  order discovery delivers them, that it can connect to, skipping the others, and reports
  \<^verbatim>\<open>ErrNoPeerForSvc\<close> when discovery is exhausted.
\<close>

lemma p2p_client_first_reachable:
  assumes "\<forall>h p. snd (Connect h p) = None \<longleftrightarrow> ok p" "FindPeers svc = Inr (map Found ps)"
    and "wf_config cfg" "Get decode_strings cfg ''Services'' [] = (True, services)"
    and "NewP2PClientService AddAddrs dialer cfg mainHost = (h, c)"
  shows "\<exists>h'. Get_p2p FindPeers Connect Dial c h svc =
    (h', if svc \<in> set services then Dial h (ai_ID mainHost)
         else case List.find ok ps of None \<Rightarrow> Inl ErrNoPeerForSvc | Some p \<Rightarrow> Dial h' (ai_ID p))"
proof -
  from assms(4,5) have c: "cl_svcs c = services" "cl_hostAddr c = mainHost"
    by (auto simp: NewP2PClientService_def)
  show ?thesis
  proof (cases "svc \<in> set services")
    case True
    then have "list_ex (\<lambda>v. svc = v) (cl_svcs c)" using c by (simp add: list_ex_iff)
    with True c show ?thesis by (simp add: Get_p2p_def)
  next
    case False
    then have "\<not> list_ex (\<lambda>v. svc = v) (cl_svcs c)" using c by (simp add: list_ex_iff)
    with False assms(2) try_peers_find [of Connect ok Dial h ps] assms(1) show ?thesis
      by (simp add: Get_p2p_def)
  qed
qed

definition sample_connect :: "nat \<Rightarrow> AddrInfo \<Rightarrow> nat \<times> goerror option" where
  "sample_connect h p = (Suc h, if ai_Addrs p = [] then Some (ErrorString ''no addresses'') else None)"

lemma p2p_client_first_reachable_sample:
  "snd (Get_p2p (\<lambda>_. Inr (map Found [\<lparr>ai_ID = ''p1'', ai_Addrs = []\<rparr>, \<lparr>ai_ID = ''p2'', ai_Addrs = [''/ip4'']\<rparr>]))
      sample_connect (\<lambda>_ p. Inr p) (snd (NewP2PClientService (\<lambda>h _ _. h) (0 :: nat) [(''Services'', GStrs [''a''])] \<lparr>ai_ID = ''me'', ai_Addrs = []\<rparr>))
      0 ''b'') = Inr ''p2''"
proof -
  let ?cfg = "[(''Services'', GStrs [''a''])]" and ?me = "\<lparr>ai_ID = ''me'', ai_Addrs = []\<rparr>"
  let ?ps = "[\<lparr>ai_ID = ''p1'', ai_Addrs = []\<rparr>, \<lparr>ai_ID = ''p2'', ai_Addrs = [''/ip4'']\<rparr>]"
  have wf: "wf_config ?cfg" by (simp add: wf_config_def wf_gomap_def)
  have g: "Get decode_strings ?cfg ''Services'' [] = (True, [''a''])"
    by (simp add: Get_doc_of [OF wf] doc_of_def decoder_defs)
  define c where "c = \<lparr>cl_svcs = [''a''], cl_hostAddr = ?me\<rparr>"
  have n: "NewP2PClientService (\<lambda>h _ _. h) (0 :: nat) ?cfg ?me = (0, c)"
    by (simp add: NewP2PClientService_def g c_def)
  have s: "\<forall>h p. snd (sample_connect h p) = None \<longleftrightarrow> ai_Addrs p \<noteq> []" by (simp add: sample_connect_def)
  have "\<exists>h'. Get_p2p (\<lambda>_. Inr (map Found ?ps)) sample_connect (\<lambda>_ p. Inr p) c 0 ''b'' =
    (h', if ''b'' \<in> set [''a''] then Inr (ai_ID ?me)
         else case List.find (\<lambda>p. ai_Addrs p \<noteq> []) ?ps of None \<Rightarrow> Inl ErrNoPeerForSvc | Some p \<Rightarrow> Inr (ai_ID p))"
    by (rule p2p_client_first_reachable [OF s refl wf g n])
  with n show ?thesis by auto
qed

section \<open>Dialling a peer\<close>

text \<open>The function behind the dialer option, and the call of \<^verbatim>\<open>grpc.DialContext\<close> with that option before
  the caller's.\<close>

definition getDialer :: "(string \<Rightarrow> 'id result) \<Rightarrow> ('id \<Rightarrow> 'c result) \<Rightarrow> string \<Rightarrow> 'c result" where
  "getDialer peer_Decode gostream_Dial peerIdStr =
     (case peer_Decode peerIdStr of
        Inl err \<Rightarrow> Inl err
      | Inr pid \<Rightarrow> gostream_Dial pid)"

definition Dial_p2p ::
  "((string \<Rightarrow> 'c result) \<Rightarrow> 'opt) \<Rightarrow> (string \<Rightarrow> 'opt list \<Rightarrow> 'conn result) \<Rightarrow> (string \<Rightarrow> 'c result) \<Rightarrow> string \<Rightarrow> 'opt list \<Rightarrow>
     'conn result" where
  "Dial_p2p WithContextDialer DialContext dialer peerId dialOpts =
     DialContext peerId ([WithContextDialer dialer] @ dialOpts)"

section \<open>Static addresses\<close>

record staticClientImpl =
  sc_svcAddrs :: "string gomap"

definition NewStaticClientService :: "JsonConfig \<Rightarrow> staticClientImpl" where
  "NewStaticClientService c = \<lparr>sc_svcAddrs = snd (Get decode_str_map c ''StaticAddresses'' [])\<rparr>"

text \<open>The dialer: the operating system's view of an address (\<open>ParseIP\<close>, the file tree, dialling),
  and whether the context ended first.\<close>

definition static_dialer ::
  "(string \<Rightarrow> bool) \<Rightarrow> filesys \<Rightarrow> (string \<Rightarrow> string \<Rightarrow> 'c result) \<Rightarrow> goerror option \<Rightarrow> string \<Rightarrow> 'c result" where
  "static_dialer ParseIP fs net_Dial ctxErr addr =
     (case ctxErr of
        Some err \<Rightarrow> Inl err
      | None \<Rightarrow>
          if ParseIP addr then net_Dial ''tcp'' addr
          else if stat fs addr = StatOk then net_Dial ''unix'' addr
          else Inl (ErrorString (''transport not supported '' @ addr)))"

definition Get_static ::
  "(string \<Rightarrow> (string \<Rightarrow> 'c result) \<Rightarrow> 'conn result) \<Rightarrow> (string \<Rightarrow> 'c result) \<Rightarrow> staticClientImpl \<Rightarrow> string \<Rightarrow> 'conn result" where
  "Get_static DialContext dialer c svc =
     (case map_of (sc_svcAddrs c) svc of
        None \<Rightarrow> Inl (ErrorString ''service address not configured'')
      | Some addr \<Rightarrow> DialContext addr dialer)"

text \<open>
  Static discovery resolves the addresses it was configured with. With the option
  \<^verbatim>\<open>WithStaticDiscovery\<close>, a client asks for exactly the address given for the service and
  refuses services that were not given.
\<close>

lemma static_discovery_resolves:
  assumes "wf_config (startupCfg b)" "wf_gomap addrs" "WithStaticDiscovery addrs b = Ret b'"
  shows "Get_static DialContext dialer (NewStaticClientService (startupCfg b')) svc =
    (case map_of addrs svc of
       None \<Rightarrow> Inl (ErrorString ''service address not configured'')
     | Some addr \<Rightarrow> DialContext addr dialer)"
proof -
  have b': "startupCfg b' = Set (Set (startupCfg b) ''UseStaticDiscovery'' (GBool True)) ''StaticAddresses'' (GStrMap addrs)"
    using assms(3) by (auto simp: WithStaticDiscovery_def set_cfg_def)
  have "wf_config (startupCfg b')" using assms(1,2) by (simp add: b')
  then have "Get decode_str_map (startupCfg b') ''StaticAddresses'' [] =
      decode_str_map [] (JObj (sort_key fst (map (\<lambda>(k, s). (k, JStr s)) addrs)))"
    by (simp add: Get_doc_of) (simp add: b' doc_of_Set)
  with decode_str_map_entries(2) [OF assms(2)] show ?thesis
    by (simp add: Get_static_def NewStaticClientService_def)
qed

section \<open>Advertising the node's services\<close>

text \<open>Durations are nanoseconds.\<close>

definition discoveryTTL :: int where "discoveryTTL = 15 * 60 * 1000000000"
definition advertise_wait :: int where "advertise_wait = 7 * discoveryTTL div 8"
definition retry_wait :: int where "retry_wait = 2 * 60 * 1000000000"

text \<open>One turn: the services in order until one fails.\<close>

definition advertise_round ::
  "('d \<Rightarrow> int \<Rightarrow> string \<Rightarrow> 'd \<times> goerror option) \<Rightarrow> int \<Rightarrow> string list \<Rightarrow> 'd \<Rightarrow> 'd \<times> goerror option" where
  "advertise_round Advertise now services d =
     each_until_error
       (\<lambda>d svc. case Advertise d now svc of
          (d', None) \<Rightarrow> (d', None)
        | (d', Some err) \<Rightarrow> (d', Some (Wrapped (''error advertising '' @ svc) err))) d services"

text \<open>The loop from a time on, for as many waits as end before the context does; the result is the
  state and the time at which the last wait ends.\<close>

fun Execute_provider ::
  "('d \<Rightarrow> int \<Rightarrow> string \<Rightarrow> 'd \<times> goerror option) \<Rightarrow> string list \<Rightarrow> nat \<Rightarrow> int \<Rightarrow> 'd \<Rightarrow> 'd \<times> int" where
  "Execute_provider Advertise services 0 now d = (d, now)"
| "Execute_provider Advertise services (Suc n) now d =
     (case advertise_round Advertise now services d of
        (d', Some err) \<Rightarrow> Execute_provider Advertise services n (now + retry_wait) d'
      | (d', None) \<Rightarrow> Execute_provider Advertise services n (now + advertise_wait) d')"

definition NewP2PClientAdvertiser :: "(string list \<Rightarrow> goerror option) \<Rightarrow> JsonConfig \<Rightarrow> goerror option" where
  "NewP2PClientAdvertiser tm_Go cfg =
     (case Get decode_strings cfg ''Services'' [] of
        (False, _) \<Rightarrow> None
      | (True, services) \<Rightarrow> tm_Go services)"

lemma advertise_wait_less: "advertise_wait < discoveryTTL"
  by (simp add: advertise_wait_def discoveryTTL_def)

lemma advertise_round_expiry:
  assumes "\<forall>d svc. \<exists>d'. Advertise d now svc = (d', None) \<and> expiry d' = (expiry d)(svc \<mapsto> now + discoveryTTL)"
  shows "\<exists>d'. advertise_round Advertise now services d = (d', None) \<and>
    (\<forall>svc. expiry d' svc = (if svc \<in> set services then Some (now + discoveryTTL) else expiry d svc))"
proof (induction services arbitrary: d)
  case (Cons svc services)
  from assms obtain d1 where d1: "Advertise d now svc = (d1, None)" "expiry d1 = (expiry d)(svc \<mapsto> now + discoveryTTL)"
    by blast
  from Cons.IH [of d1] obtain d' where d': "advertise_round Advertise now services d1 = (d', None)"
    "\<forall>svc. expiry d' svc = (if svc \<in> set services then Some (now + discoveryTTL) else expiry d1 svc)" by blast
  from d'(1) d1(1) have "advertise_round Advertise now (svc # services) d = (d', None)"
    by (simp add: advertise_round_def del: append.simps)
  with d'(2) d1(2) show ?case by auto
qed (simp add: advertise_round_def)

text \<open>
  Advertisements do not lapse. While every call of \<^verbatim>\<open>Advertise\<close> succeeds and grants the
  requested lifetime, each round renews all services, and whenever the next round begins, no
  service's advertisement has expired yet.
\<close>

lemma advertisements_do_not_lapse:
  assumes "\<forall>d now svc. \<exists>d'. Advertise d now svc = (d', None) \<and> expiry d' = (expiry d)(svc \<mapsto> now + discoveryTTL)"
    and "Execute_provider Advertise services (Suc n) now d = (d', next_round)" "svc \<in> set services"
  shows "\<exists>t. expiry d' svc = Some t \<and> next_round < t"
  using assms(2)
proof (induction n arbitrary: now d)
  case 0
  from advertise_round_expiry [of Advertise now expiry services d] assms(1) obtain d1 where
    d1: "advertise_round Advertise now services d = (d1, None)" "expiry d1 svc = Some (now + discoveryTTL)"
    using assms(3) by auto
  with 0 advertise_wait_less show ?case by auto
next
  case (Suc n)
  from advertise_round_expiry [of Advertise now expiry services d] assms(1) obtain d1 where
    "advertise_round Advertise now services d = (d1, None)" by blast
  with Suc.prems have "Execute_provider Advertise services (Suc n) (now + advertise_wait) d1 = (d', next_round)"
    by simp
  then show ?case by (rule Suc.IH)
qed

lemma advertisements_do_not_lapse_sample:
  "\<exists>t. fst (Execute_provider (\<lambda>d now svc. (d(svc \<mapsto> now + discoveryTTL), None)) [''a'', ''b''] 3 0 Map.empty) ''a'' = Some t \<and>
    snd (Execute_provider (\<lambda>d now svc. (d(svc \<mapsto> now + discoveryTTL), None)) [''a'', ''b''] 3 0 Map.empty) < t"
proof -
  let ?A = "\<lambda>d now svc. (d(svc \<mapsto> now + discoveryTTL), None)"
  obtain d' t' where e: "Execute_provider ?A [''a'', ''b''] (Suc 2) 0 Map.empty = (d', t')" by fastforce
  from advertisements_do_not_lapse [OF _ e, of "\<lambda>d. d" "''a''"] e show ?thesis by (simp add: numeral_3_eq_3 numeral_2_eq_2)
qed

end
