(* ===== verification/Mesher.thy ===== *)
theory Mesher
  imports Protocols Grpc_Client
begin

text \<open>
  \<^verbatim>\<open>modules/node/internal/mesher/mesher.go\<close>: a protocol by which a node introduces a newly connected
  peer to the peers it already has. The hosts of all nodes are one network, a parameter whose
  operations take the node that calls them; \<open>network_ok\<close> states what is documented of them.
  The encoding of peer addresses belongs to another package and is a parameter too.
\<close>

section \<open>Hosts\<close>

record 'g network =
  n_Peers :: "'g \<Rightarrow> string \<Rightarrow> string list"
  n_PeerInfo :: "'g \<Rightarrow> string \<Rightarrow> string \<Rightarrow> AddrInfo"
  n_Connected :: "'g \<Rightarrow> string \<Rightarrow> string \<Rightarrow> bool"
  n_Connect :: "'g \<Rightarrow> string \<Rightarrow> AddrInfo \<Rightarrow> 'g \<times> goerror option"
  n_AddAddrs :: "'g \<Rightarrow> string \<Rightarrow> string \<Rightarrow> string list \<Rightarrow> 'g"

text \<open>Documented behaviour: \<^verbatim>\<open>Peers\<close> lists the connections, a call of \<^verbatim>\<open>Connect\<close> that succeeds leaves the peer
  connected, the peer store holds addresses only. Other connections may come and go during a
  call: the host's connection manager closes some when there are too many.\<close>

definition network_ok :: "'g network \<Rightarrow> bool" where
  "network_ok N \<longleftrightarrow>
     (\<forall>g a q. q \<in> set (n_Peers N g a) \<longleftrightarrow> n_Connected N g a q) \<and>
     (\<forall>g a q. ai_ID (n_PeerInfo N g a q) = q) \<and>
     (\<forall>g a p g'. n_Connect N g a p = (g', None) \<longrightarrow> n_Connected N g' a (ai_ID p)) \<and>
     (\<forall>g a q addrs x y. n_Connected N (n_AddAddrs N g a q addrs) x y \<longleftrightarrow> n_Connected N g x y)"

lemma network_okD:
  assumes "network_ok N"
  shows "q \<in> set (n_Peers N g a) \<longleftrightarrow> n_Connected N g a q"
    and "ai_ID (n_PeerInfo N g a q) = q"
    and "n_Connect N g a p = (g', None) \<Longrightarrow> n_Connected N g' a (ai_ID p)"
    and "n_Connected N (n_AddAddrs N g a q addrs) x y \<longleftrightarrow> n_Connected N g x y"
  using assms by (auto simp: network_ok_def)

text \<open>A network in which no connection is closed while others are opened.\<close>

definition keeps_connections :: "'g network \<Rightarrow> bool" where
  "keeps_connections N \<longleftrightarrow>
     (\<forall>g a p x y. n_Connected N g x y \<longrightarrow> n_Connected N (fst (n_Connect N g a p)) x y)"

text \<open>A peer that a node can connect to whenever it tries.\<close>

definition reachable :: "'g network \<Rightarrow> string \<Rightarrow> AddrInfo \<Rightarrow> bool" where
  "reachable N a p \<longleftrightarrow> (\<forall>g. snd (n_Connect N g a p) = None)"

lemma reachable_connects:
  assumes "network_ok N" "reachable N a p"
  shows "n_Connected N (fst (n_Connect N g a p)) a (ai_ID p)"
  using network_okD(3) [OF assms(1), of g a p] assms(2) by (metis reachable_def prod.collapse)

section \<open>The protocol\<close>

text \<open>A message of some protocol, which may be a list of peers.\<close>

datatype any_msg = PeersList "AddrInfo list" | OtherMsg

definition peersList_message ::
  "(AddrInfo list \<Rightarrow> string result) \<Rightarrow> (string \<Rightarrow> AddrInfo list result) \<Rightarrow> any_msg Message" where
  "peersList_message json_Marshal json_Unmarshal =
     \<lparr>msg_Marshal = (\<lambda>m. case m of PeersList ps \<Rightarrow> json_Marshal ps | OtherMsg \<Rightarrow> Inl (ErrorString ''not a peers list'')),
      msg_Unmarshal = (\<lambda>_ buf. case json_Unmarshal buf of Inl err \<Rightarrow> Inl err | Inr ps \<Rightarrow> Inr (PeersList ps))\<rparr>"

definition getPeersFor :: "'g network \<Rightarrow> 'g \<Rightarrow> string \<Rightarrow> string \<Rightarrow> AddrInfo list" where
  "getPeersFor N g me pr =
     filter (\<lambda>info. 0 < length (ai_Addrs info))
       (map (n_PeerInfo N g me) (filter (\<lambda>p. \<not> (p = pr \<or> p = me)) (n_Peers N g me)))"

fun checkAndAddPeers :: "'g network \<Rightarrow> string \<Rightarrow> 'g \<Rightarrow> AddrInfo list \<Rightarrow> 'g \<times> AddrInfo list" where
  "checkAndAddPeers N me g [] = (g, [])"
| "checkAndAddPeers N me g (p # peers) =
     (if \<not> n_Connected N g me (ai_ID p) then
        (case n_Connect N g me p of
           (g', Some err) \<Rightarrow> checkAndAddPeers N me g' peers
         | (g', None) \<Rightarrow>
             (case checkAndAddPeers N me (n_AddAddrs N g' me (ai_ID p) (ai_Addrs p)) peers of
                (g'', successful) \<Rightarrow> (g'', p # successful)))
      else
        (case checkAndAddPeers N me g peers of
           (g'', successful) \<Rightarrow> (g'', p # successful)))"

definition HandleMsg :: "'g network \<Rightarrow> string \<Rightarrow> 'g \<Rightarrow> any_msg \<Rightarrow> string \<Rightarrow> 'g \<times> any_msg result" where
  "HandleMsg N me g req remote =
     (case req of
        PeersList peers \<Rightarrow> (case checkAndAddPeers N me g peers of (g', resp) \<Rightarrow> (g', Inr (PeersList resp)))
      | OtherMsg \<Rightarrow> (g, Inl (ErrorString ''incorrect msg received'')))"

definition mesher_protocol ::
  "'g network \<Rightarrow> (AddrInfo list \<Rightarrow> string result) \<Rightarrow> (string \<Rightarrow> AddrInfo list result) \<Rightarrow> string \<Rightarrow>
     ('g, any_msg, any_msg) Protocol" where
  "mesher_protocol N enc dec me =
     \<lparr>p_ID = ''/msuite/mesher/1.0.0'', p_HandleMsg = HandleMsg N me, p_ReqFactory = PeersList [],
      p_RespFactory = PeersList [], p_Req = peersList_message enc dec, p_Resp = peersList_message enc dec\<rparr>"

text \<open>\<open>send\<close> is the sender the protocols service provides; it runs the peer's handler.\<close>

definition BroadcastPeers ::
  "'g network \<Rightarrow> ('g \<Rightarrow> string \<Rightarrow> any_msg \<Rightarrow> 'g \<times> any_msg result) \<Rightarrow> string \<Rightarrow> 'g \<Rightarrow> string \<Rightarrow> 'g \<times> goerror option" where
  "BroadcastPeers N send me g p =
     (let req = getPeersFor N g me p in
      if length req = 0 then (g, None)
      else
        (case send g p (PeersList req) of
           (g', Inl err) \<Rightarrow> (g', Some err)
         | (g', Inr _) \<Rightarrow> (g', None)))"

text \<open>The worker: one broadcast for every new peer that arrives before its context ends; errors are
  logged.\<close>

fun mesher_worker ::
  "'g network \<Rightarrow> ('g \<Rightarrow> string \<Rightarrow> any_msg \<Rightarrow> 'g \<times> any_msg result) \<Rightarrow> string \<Rightarrow> 'g \<Rightarrow> string list \<Rightarrow> 'g \<times> goerror list" where
  "mesher_worker N send me g [] = (g, [])"
| "mesher_worker N send me g (p # newPeerChan) =
     (case BroadcastPeers N send me g p of
        (g', e) \<Rightarrow>
          (case mesher_worker N send me g' newPeerChan of
             (g'', warnings) \<Rightarrow> (g'', (case e of Some err \<Rightarrow> [err] | None \<Rightarrow> []) @ warnings)))"

text \<open>Start-up: the protocol is registered, then the worker started, then the notifier installed.\<close>

definition New_mesher ::
  "goerror option \<Rightarrow> ('g, any_msg, any_msg) Protocol gomap \<Rightarrow> ('g, any_msg, any_msg) Protocol \<Rightarrow>
     ('g, any_msg, any_msg) Protocol gomap \<times> bool \<times> goerror option" where
  "New_mesher tm_GoFunc handlers s =
     (let handlers' = Register handlers s in
      case tm_GoFunc of
        Some err \<Rightarrow> (handlers', False, Some err)
      | None \<Rightarrow> (handlers', True, None))"

section \<open>Introducing a peer\<close>

text \<open>The peers of a list take their turns one after the other.\<close>

lemma checkAndAddPeers_append:
  "checkAndAddPeers N me g (ps @ qs) =
    (case checkAndAddPeers N me g ps of (g1, s1) \<Rightarrow>
       case checkAndAddPeers N me g1 qs of (g2, s2) \<Rightarrow> (g2, s1 @ s2))"
  by (induction N me g ps rule: checkAndAddPeers.induct) (auto split: prod.splits option.splits)

lemma checkAndAddPeers_state:
  "fst (checkAndAddPeers N me g (ps @ qs)) = fst (checkAndAddPeers N me (fst (checkAndAddPeers N me g ps)) qs)"
  by (simp add: checkAndAddPeers_append split: prod.splits)

text \<open>When its turn is over, a peer that is answered for is connected, and a reachable peer is both.\<close>

lemma checkAndAddPeers_turn:
  assumes "network_ok N" "checkAndAddPeers N me g [p] = (g', successful)"
  shows "p \<in> set successful \<Longrightarrow> n_Connected N g' me (ai_ID p)"
    and "reachable N me p \<Longrightarrow> p \<in> set successful"
  using assms(2) network_okD(3,4) [OF assms(1)]
  by (auto simp: reachable_def split: if_splits prod.splits option.splits) (metis option.distinct(1) snd_conv)+

lemma checkAndAddPeers_keeps:
  assumes "network_ok N" "keeps_connections N" "n_Connected N g x y"
  shows "n_Connected N (fst (checkAndAddPeers N me g peers)) x y"
  using assms(3)
proof (induction peers arbitrary: g)
  case (Cons p peers)
  obtain g1 e where c: "n_Connect N g me p = (g1, e)" by fastforce
  with assms(2) Cons.prems have "n_Connected N g1 x y" unfolding keeps_connections_def by (metis fst_conv)
  then have "n_Connected N (n_AddAddrs N g1 me (ai_ID p) (ai_Addrs p)) x y" by (simp add: network_okD(4) [OF assms(1)])
  note IH = Cons.IH [OF Cons.prems] Cons.IH [OF \<open>n_Connected N g1 x y\<close>] Cons.IH [OF this]
  then show ?case using c by (cases e) (auto split: prod.splits)
qed simp

lemma checkAndAddPeers_sub: "set (snd (checkAndAddPeers N me g peers)) \<subseteq> set peers"
proof (induction N me g peers rule: checkAndAddPeers.induct)
  case (2 N me g p peers)
  then show ?case by (fastforce split: prod.splits option.splits if_splits)
qed simp

text \<open>Every reachable peer has its turn, whatever happens at the turns of the others.\<close>

lemma reachable_turn:
  assumes "network_ok N" "reachable N me p"
  shows "n_Connected N (fst (checkAndAddPeers N me g (us @ [p]))) me (ai_ID p)"
proof -
  let ?g = "fst (checkAndAddPeers N me g us)"
  obtain g2 s2 where g2: "checkAndAddPeers N me ?g [p] = (g2, s2)" by fastforce
  from checkAndAddPeers_turn [OF assms(1) g2] assms(2) have "n_Connected N g2 me (ai_ID p)" by blast
  then show ?thesis by (simp only: checkAndAddPeers_state g2 fst_conv)
qed

lemma reachable_connected:
  assumes "network_ok N" "keeps_connections N" "reachable N me p" "p \<in> set peers"
  shows "n_Connected N (fst (checkAndAddPeers N me g peers)) me (ai_ID p)"
proof -
  from assms(4) obtain us vs where peers: "peers = (us @ [p]) @ vs" by (metis append.assoc append_Cons append_Nil in_set_conv_decomp)
  from checkAndAddPeers_keeps [OF assms(1,2) reachable_turn [OF assms(1,3)]]
  show ?thesis unfolding peers by (simp only: checkAndAddPeers_state)
qed

section \<open>Over the wire\<close>

text \<open>
  The sender the protocols service gives the mesher, over a link between two nodes: the request
  is written on \<open>w\<close>, the peer's handler reads it in the portions \<open>srv\<close> and writes on \<open>w0\<close>, the
  answer is read back in the portions \<open>cl\<close>.
\<close>

definition wire_send ::
  "(string \<Rightarrow> ('g, any_msg, any_msg) Protocol) \<Rightarrow> ('w \<Rightarrow> string \<Rightarrow> 'w \<times> goerror option) \<Rightarrow> 'w \<Rightarrow> 'w \<Rightarrow>
     ('w \<Rightarrow> string list) \<Rightarrow> ('w \<Rightarrow> string list) \<Rightarrow> string \<Rightarrow> 'g \<Rightarrow> string \<Rightarrow> any_msg \<Rightarrow> 'g \<times> any_msg result" where
  "wire_send proto W w w0 srv cl me g peer req =
     (fst (stream_handler (proto peer) W g (newReader (srv (fst (WriteMsg (p_Req (proto me)) W w req))) EOF) w0 me),
      SendMsg (\<lambda>_ _. Inr (w, \<lambda>w'. newReader (cl (fst (snd (stream_handler (proto peer) W g (newReader (srv w') EOF) w0 me)))) EOF))
        W peer (proto me) req)"

lemma mesher_parts:
  "p_ID (mesher_protocol N enc dec n) = ''/msuite/mesher/1.0.0''" "p_Req (mesher_protocol N enc dec n) = peersList_message enc dec"
  "p_Resp (mesher_protocol N enc dec n) = peersList_message enc dec" "p_ReqFactory (mesher_protocol N enc dec n) = PeersList []"
  "p_RespFactory (mesher_protocol N enc dec n) = PeersList []" "p_HandleMsg (mesher_protocol N enc dec n) = HandleMsg N n"
  by (simp_all add: mesher_protocol_def)

lemma HandleMsg_peers:
  "HandleMsg N me g (PeersList peers) remote =
    (fst (checkAndAddPeers N me g peers), Inr (PeersList (snd (checkAndAddPeers N me g peers))))"
  by (simp add: HandleMsg_def split: prod.splits)

text \<open>A list of peers that arrives whole is handled; the answer is returned if it arrives whole too.\<close>

lemma wire_send_peers:
  assumes "message (peersList_message enc dec) (PeersList []) good" "good (PeersList peers)"
    and "good (PeersList (snd (checkAndAddPeers N new g peers)))"
    and "stream_writes W sent" "\<forall>w b. snd (W w b) = None" "sent w = []" "sent w0 = []" "delivers sent srv" "delivers sent cl"
    and "2 \<le> length (hd (srv (fst (WriteMsg (peersList_message enc dec) W w (PeersList peers)))))"
    and "\<forall>b. enc peers = Inr b \<longrightarrow> length b < 65536"
  shows "fst (wire_send (mesher_protocol N enc dec) W w w0 srv cl me g new (PeersList peers)) =
      fst (checkAndAddPeers N new g peers)"
    and "2 \<le> length (hd (cl (fst (WriteMsg (peersList_message enc dec) W w0
        (PeersList (snd (checkAndAddPeers N new g peers))))))) \<Longrightarrow>
      \<forall>b. enc (snd (checkAndAddPeers N new g peers)) = Inr b \<longrightarrow> length b < 65536 \<Longrightarrow>
      snd (wire_send (mesher_protocol N enc dec) W w w0 srv cl me g new (PeersList peers)) =
        Inr (PeersList (snd (checkAndAddPeers N new g peers)))"
proof -
  let ?p = "mesher_protocol N enc dec new" and ?M = "peersList_message enc dec" and ?c = "checkAndAddPeers N new g peers"
  obtain w' where w': "WriteMsg ?M W w (PeersList peers) = (w', None)"
    using WriteMsg_total [OF assms(5) message.marshals [OF assms(1,2)]] by blast
  obtain wr where wr: "WriteMsg ?M W w0 (PeersList (snd ?c)) = (wr, None)"
    using WriteMsg_total [OF assms(5) message.marshals [OF assms(1,3)]] by blast
  obtain r where "ReadMsg ?M (newReader (srv w') EOF) (PeersList []) = Inr (PeersList peers, r)"
    using message.send_receive [OF assms(1,2,4) w' assms(6,8)] assms(10,11) w' by (auto simp: peersList_message_def)
  then have h: "stream_handler ?p W g (newReader (srv w') EOF) w0 me = (fst ?c, wr, Open)"
    by (simp add: stream_handler_def mesher_parts HandleMsg_peers wr)
  with w' show "fst (wire_send (mesher_protocol N enc dec) W w w0 srv cl me g new (PeersList peers)) = fst ?c"
    by (simp add: wire_send_def mesher_parts)
  assume whole: "2 \<le> length (hd (cl (fst (WriteMsg ?M W w0 (PeersList (snd ?c))))))"
    "\<forall>b. enc (snd ?c) = Inr b \<longrightarrow> length b < 65536"
  then obtain r' where "ReadMsg ?M (newReader (cl wr) EOF) (PeersList []) = Inr (PeersList (snd ?c), r')"
    using message.send_receive [OF assms(1,3,4) wr assms(7,9)] wr by (auto simp: peersList_message_def)
  with w' h show "snd (wire_send (mesher_protocol N enc dec) W w w0 srv cl me g new (PeersList peers)) = Inr (PeersList (snd ?c))"
    by (simp add: wire_send_def SendMsg_def mesher_parts)
qed

text \<open>The peers a node introduces: those it is connected to and has an address of, but for the new one.\<close>

lemma getPeersFor_iff:
  assumes "network_ok N"
  shows "p \<in> set (getPeersFor N g me new) \<longleftrightarrow>
    p = n_PeerInfo N g me (ai_ID p) \<and> n_Connected N g me (ai_ID p) \<and> ai_ID p \<noteq> me \<and> ai_ID p \<noteq> new \<and> ai_Addrs p \<noteq> []"
  using network_okD(1,2) [OF assms] by (auto simp: getPeersFor_def)

text \<open>
  C17: a new peer is introduced to the peers of a node. Provided the list of peers arrives whole over
  the stream (fewer than 65536 bytes, both length bytes in the first portion), a broadcast to
  the new node gives every listed peer its turn there, in order: a peer the new node can reach
  is connected to it when its turn is over, whatever happened at the turns of others. The
  listed peers are exactly the node's own peers with a known address, but for the new one. If
  no connection is closed meanwhile, the new node is in the end connected to each of them it
  can reach. The broadcast reports no error if the answer arrives whole as well.
\<close>

theorem mesh_join:
  assumes "network_ok N" "message (peersList_message enc dec) (PeersList []) good"
    and "\<forall>ps. set ps \<subseteq> set (getPeersFor N g me new) \<longrightarrow> good (PeersList ps)"
    and "stream_writes W sent" "\<forall>w b. snd (W w b) = None" "sent w = []" "sent w0 = []" "delivers sent srv" "delivers sent cl"
    and "2 \<le> length (hd (srv (fst (WriteMsg (peersList_message enc dec) W w (PeersList (getPeersFor N g me new))))))"
    and "\<forall>b. enc (getPeersFor N g me new) = Inr b \<longrightarrow> length b < 65536"
    and "BroadcastPeers N (wire_send (mesher_protocol N enc dec) W w w0 srv cl me) me g new = (g', e)"
  shows "g' = fst (checkAndAddPeers N new g (getPeersFor N g me new)) \<and>
    (\<forall>us p vs. getPeersFor N g me new = us @ p # vs \<and> reachable N new p \<longrightarrow>
       n_Connected N (fst (checkAndAddPeers N new g (us @ [p]))) new (ai_ID p)) \<and>
    (\<forall>p. p \<in> set (getPeersFor N g me new) \<longleftrightarrow> p = n_PeerInfo N g me (ai_ID p) \<and> n_Connected N g me (ai_ID p) \<and>
       ai_ID p \<noteq> me \<and> ai_ID p \<noteq> new \<and> ai_Addrs p \<noteq> []) \<and>
    (keeps_connections N \<longrightarrow> (\<forall>p \<in> set (getPeersFor N g me new). reachable N new p \<longrightarrow> n_Connected N g' new (ai_ID p))) \<and>
    (2 \<le> length (hd (cl (fst (WriteMsg (peersList_message enc dec) W w0
         (PeersList (snd (checkAndAddPeers N new g (getPeersFor N g me new)))))))) \<and>
     (\<forall>b. enc (snd (checkAndAddPeers N new g (getPeersFor N g me new))) = Inr b \<longrightarrow> length b < 65536) \<longrightarrow> e = None)"
proof -
  let ?req = "getPeersFor N g me new"
  have good: "good (PeersList ?req)" "good (PeersList (snd (checkAndAddPeers N new g ?req)))"
    using assms(3) checkAndAddPeers_sub [of N new g ?req] by auto
  note send = wire_send_peers [OF assms(2) good assms(4-11), of me]
  have g': "g' = fst (checkAndAddPeers N new g ?req)"
    using assms(12) send(1) by (auto simp: BroadcastPeers_def Let_def split: if_splits prod.splits sum.splits)
  moreover have "keeps_connections N \<longrightarrow> (\<forall>p \<in> set ?req. reachable N new p \<longrightarrow> n_Connected N g' new (ai_ID p))"
    using reachable_connected [OF assms(1)] g' by blast
  moreover have "2 \<le> length (hd (cl (fst (WriteMsg (peersList_message enc dec) W w0
         (PeersList (snd (checkAndAddPeers N new g ?req))))))) \<and>
     (\<forall>b. enc (snd (checkAndAddPeers N new g ?req)) = Inr b \<longrightarrow> length b < 65536) \<longrightarrow> e = None"
    using assms(12) send(2) by (auto simp: BroadcastPeers_def Let_def split: if_splits prod.splits sum.splits)
  ultimately show ?thesis using reachable_turn [OF assms(1)] getPeersFor_iff [OF assms(1)] by blast
qed

text \<open>A network as a set of connected pairs in which every node has one address.\<close>

definition sample_nodes :: "string list" where "sample_nodes = [''a'', ''b'', ''c'']"

definition linked :: "(string \<times> string) set \<Rightarrow> string \<Rightarrow> string \<Rightarrow> bool" where
  "linked g a q \<longleftrightarrow> a \<in> set sample_nodes \<and> q \<in> set sample_nodes \<and> ((a, q) \<in> g \<or> (q, a) \<in> g)"

definition sample_network :: "(string \<times> string) set network" where
  "sample_network = \<lparr>n_Peers = (\<lambda>g a. filter (linked g a) sample_nodes),
     n_PeerInfo = (\<lambda>_ _ q. \<lparr>ai_ID = q, ai_Addrs = [''/addr'']\<rparr>), n_Connected = linked,
     n_Connect = (\<lambda>g a p. if a \<in> set sample_nodes \<and> ai_ID p \<in> set sample_nodes then (insert (a, ai_ID p) g, None)
        else (g, Some (ErrorString ''unknown peer''))),
     n_AddAddrs = (\<lambda>g _ _ _. g)\<rparr>"

lemma sample_network_ok: "network_ok sample_network" "keeps_connections sample_network"
  by (auto simp: network_ok_def keeps_connections_def sample_network_def linked_def split: if_splits)

definition b_info :: AddrInfo where "b_info = \<lparr>ai_ID = ''b'', ai_Addrs = [''/addr'']\<rparr>"

lemma b_info_reachable: "a \<in> set sample_nodes \<Longrightarrow> reachable sample_network a b_info"
  by (simp add: reachable_def sample_network_def b_info_def sample_nodes_def)

text \<open>One byte for every mention of the same peer.\<close>

definition unary_enc :: "AddrInfo list \<Rightarrow> string result" where "unary_enc ps = Inr (replicate (length ps) CHR ''b'')"
definition unary_dec :: "string \<Rightarrow> AddrInfo list result" where "unary_dec buf = Inr (replicate (length buf) b_info)"

lemma unary_codec: "message (peersList_message unary_enc unary_dec) (PeersList []) (\<lambda>m. \<exists>n. m = PeersList (replicate n b_info))"
  by unfold_locales (auto simp: peersList_message_def unary_enc_def unary_dec_def)

theorem mesh_join_witness:
  "\<exists>g' e. BroadcastPeers sample_network (wire_send (mesher_protocol sample_network unary_enc unary_dec)
      buffer_write [] [] in_two in_two ''a'') ''a'' {(''a'', ''b''), (''c'', ''a'')} ''c'' = (g', e) \<and>
    n_Connected sample_network g' ''c'' ''b''"
proof -
  let ?g = "{(''a'', ''b''), (''c'', ''a'')}"
  have req: "getPeersFor sample_network ?g ''a'' ''c'' = [b_info]"
    by (simp add: getPeersFor_def sample_network_def linked_def sample_nodes_def b_info_def)
  have good: "\<forall>ps. set ps \<subseteq> set (getPeersFor sample_network ?g ''a'' ''c'') \<longrightarrow>
      (\<exists>n. PeersList ps = PeersList (replicate n b_info))"
  proof (intro allI impI exI)
    fix ps assume "set ps \<subseteq> set (getPeersFor sample_network ?g ''a'' ''c'')"
    then have "ps = replicate (length ps) b_info" unfolding req by (intro replicate_eqI) auto
    then show "PeersList ps = PeersList (replicate (length ps) b_info)" by simp
  qed
  have whole: "2 \<le> length (hd (in_two (fst (WriteMsg (peersList_message unary_enc unary_dec) buffer_write []
      (PeersList (getPeersFor sample_network ?g ''a'' ''c''))))))"
    by (simp add: req WriteMsg_def peersList_message_def unary_enc_def buffer_write_def in_two_def)
  obtain g' e where b: "BroadcastPeers sample_network (wire_send (mesher_protocol sample_network unary_enc unary_dec)
      buffer_write [] [] in_two in_two ''a'') ''a'' ?g ''c'' = (g', e)" by fastforce
  have "reachable sample_network ''c'' b_info" by (rule b_info_reachable) (simp add: sample_nodes_def)
  moreover have "\<forall>b. unary_enc (getPeersFor sample_network ?g ''a'' ''c'') = Inr b \<longrightarrow> length b < 65536"
    by (simp add: req unary_enc_def)
  moreover have "b_info \<in> set (getPeersFor sample_network ?g ''a'' ''c'')" by (simp add: req)
  ultimately have "n_Connected sample_network g' ''c'' (ai_ID b_info)"
    using mesh_join [OF sample_network_ok(1) unary_codec good buffer_write_ok refl refl in_two_delivers in_two_delivers whole _ b]
      sample_network_ok(2) by blast
  with b show ?thesis by (auto simp: b_info_def)
qed

end
