(* ===== verification/P2P_Host.thy ===== *)
theory P2P_Host
  imports Mesher
begin

text \<open>
  \<^verbatim>\<open>modules/node/ipfs/host.go\<close> and \<^verbatim>\<open>modules/node/ipfs/discovery.go\<close>: the peer-to-peer host from the
  configuration, the bootstrap task that keeps the node connected to given peers, and the
  notification of locally discovered peers. Multiaddresses and hosts are parameters; the
  network is that of \<^verbatim>\<open>Mesher\<close>.
\<close>

section \<open>The host\<close>

definition Libp2p ::
  "(string \<Rightarrow> 'a result) \<Rightarrow> ('k \<Rightarrow> 'a list \<Rightarrow> ('h \<times> 'dht) result) \<Rightarrow> JsonConfig \<Rightarrow> 'k \<Rightarrow> ('h \<times> 'dht) result" where
  "Libp2p NewMultiaddr SetupLibp2p conf priv =
     (case Get decode_int conf ''SwarmPort'' 0 of
        (False, _) \<Rightarrow> Inl (ErrorString ''Swarm Port missing'')
      | (True, swPort) \<Rightarrow>
          (case NewMultiaddr (''/ip4/0.0.0.0/tcp/'' @ int_str swPort) of
             Inl err \<Rightarrow> Inl (Wrapped ''Invalid swarm port Err'' err)
           | Inr tcpAddr \<Rightarrow> SetupLibp2p priv [tcpAddr]))"

section \<open>Bootstrapping\<close>

fun parse_multiaddrs :: "(string \<Rightarrow> 'a result) \<Rightarrow> string list \<Rightarrow> 'a list result" where
  "parse_multiaddrs NewMultiaddr [] = Inr []"
| "parse_multiaddrs NewMultiaddr (addr # addrs) =
     (case NewMultiaddr addr of
        Inl err \<Rightarrow> Inl err
      | Inr m \<Rightarrow>
          (case parse_multiaddrs NewMultiaddr addrs of
             Inl err \<Rightarrow> Inl err
           | Inr ms \<Rightarrow> Inr (m # ms)))"

definition parseBootstrapPeers ::
  "(string \<Rightarrow> 'a result) \<Rightarrow> ('a list \<Rightarrow> AddrInfo list result) \<Rightarrow> string list \<Rightarrow> AddrInfo list result" where
  "parseBootstrapPeers NewMultiaddr AddrInfosFromP2pAddrs addrs =
     (case parse_multiaddrs NewMultiaddr addrs of
        Inl err \<Rightarrow> Inl err
      | Inr maddrs \<Rightarrow> AddrInfosFromP2pAddrs maddrs)"

text \<open>The result: an error, no task, or the peers of the task that is started with the node.\<close>

definition Bootstrapper ::
  "(string \<Rightarrow> 'a result) \<Rightarrow> ('a list \<Rightarrow> AddrInfo list result) \<Rightarrow> JsonConfig \<Rightarrow> AddrInfo list option result" where
  "Bootstrapper NewMultiaddr AddrInfosFromP2pAddrs cfg =
     (case Get decode_strings cfg ''BootstrapAddresses'' [] of
        (False, _) \<Rightarrow> Inr None
      | (True, addrs) \<Rightarrow>
          (case parseBootstrapPeers NewMultiaddr AddrInfosFromP2pAddrs addrs of
             Inl err \<Rightarrow> Inl err
           | Inr peers \<Rightarrow> Inr (Some peers)))"

text \<open>
  One tick of the task. \<open>Connect\<close> takes the state of the context it is called with, which is the
  context the start of the node was given, not the task's own.
\<close>

definition bootstrap_tick ::
  "'g network \<Rightarrow> (goerror option \<Rightarrow> 'g \<Rightarrow> string \<Rightarrow> AddrInfo \<Rightarrow> 'g \<times> goerror option) \<Rightarrow> string \<Rightarrow> AddrInfo list \<Rightarrow>
     goerror option \<Rightarrow> 'g \<Rightarrow> 'g" where
  "bootstrap_tick N Connect me peers ctxErr g =
     fold (\<lambda>p g. if \<not> n_Connected N g me (ai_ID p)
                 then fst (Connect ctxErr (n_AddAddrs N g me (ai_ID p) (ai_Addrs p)) me p) else g) peers g"

text \<open>The task, for the ticks that come before its own context ends.\<close>

definition bootstrap_task ::
  "'g network \<Rightarrow> (goerror option \<Rightarrow> 'g \<Rightarrow> string \<Rightarrow> AddrInfo \<Rightarrow> 'g \<times> goerror option) \<Rightarrow> string \<Rightarrow> AddrInfo list \<Rightarrow>
     goerror option list \<Rightarrow> 'g \<Rightarrow> 'g" where
  "bootstrap_task N Connect me peers ticks g = fold (bootstrap_tick N Connect me peers) ticks g"

text \<open>The start hook: the error of the task manager, or of a context that ends before the task runs.\<close>

definition bootstrap_OnStart :: "goerror option \<Rightarrow> goerror option \<Rightarrow> goerror option" where
  "bootstrap_OnStart tm_GoFunc ctxErr = (case tm_GoFunc of Some err \<Rightarrow> Some err | None \<Rightarrow> ctxErr)"

section \<open>Local discovery\<close>

definition HandlePeerFound :: "'g network \<Rightarrow> string \<Rightarrow> 'g \<Rightarrow> AddrInfo \<Rightarrow> 'g" where
  "HandlePeerFound N me g pi = fst (n_Connect N (n_AddAddrs N g me (ai_ID pi) (ai_Addrs pi)) me pi)"

text \<open>The service of the discovery package searches every five minutes under a fixed name; the host gets
  one notifiee, whose connections use a context that does not end.\<close>

definition Rendezvous :: string where
  "Rendezvous = ''/msuite/node''"

definition NewMDNSDiscovery ::
  "(string \<Rightarrow> int \<Rightarrow> string \<Rightarrow> 's result) \<Rightarrow> ('s \<Rightarrow> ('g \<Rightarrow> AddrInfo \<Rightarrow> 'g) \<Rightarrow> 's) \<Rightarrow> 'g network \<Rightarrow> string \<Rightarrow> 's result" where
  "NewMDNSDiscovery NewMdnsService RegisterNotifee N h =
     (case NewMdnsService h (5 * 60 * 1000000000) Rendezvous of
        Inl err \<Rightarrow> Inl err
      | Inr ser \<Rightarrow> Inr (RegisterNotifee ser (HandlePeerFound N h)))"

text \<open>A peer that was found and can be reached is connected at once; if no connection is closed
  meanwhile it still is after all notifications, whatever is found besides.\<close>

lemma found_connected:
  assumes "network_ok N" "reachable N me p"
  shows "n_Connected N (HandlePeerFound N me g p) me (ai_ID p)"
  unfolding HandlePeerFound_def by (rule reachable_connects [OF assms])

lemma found_keeps:
  assumes "network_ok N" "keeps_connections N" "n_Connected N g x y"
  shows "n_Connected N (HandlePeerFound N me g p) x y"
  using assms(2,3) by (simp add: HandlePeerFound_def keeps_connections_def network_okD(4) [OF assms(1)])

lemma found_peers_connected:
  assumes "network_ok N" "keeps_connections N" "p \<in> set found" "reachable N me p"
  shows "n_Connected N (foldl (HandlePeerFound N me) g found) me (ai_ID p)"
proof -
  have keeps: "n_Connected N g x y \<Longrightarrow> n_Connected N (foldl (HandlePeerFound N me) g ps) x y" for g x y ps
    by (induction ps arbitrary: g) (simp_all add: found_keeps [OF assms(1,2)])
  from assms(3) obtain us vs where "found = us @ p # vs" by (meson split_list)
  then show ?thesis by (simp add: keeps found_connected [OF assms(1,4)])
qed

section \<open>The bootstrap task connects\<close>

text \<open>Documented behaviour of \<^verbatim>\<open>Connect\<close> with a context: it connects while the context lives, and fails
  with the context's error after it ended.\<close>

definition respects_context ::
  "'g network \<Rightarrow> (goerror option \<Rightarrow> 'g \<Rightarrow> string \<Rightarrow> AddrInfo \<Rightarrow> 'g \<times> goerror option) \<Rightarrow> bool" where
  "respects_context N Connect \<longleftrightarrow> Connect None = n_Connect N \<and> (\<forall>err g me p. Connect (Some err) g me p = (g, Some err))"

lemma Connect_keeps:
  assumes "keeps_connections N" "respects_context N Connect" "n_Connected N g x y"
  shows "n_Connected N (fst (Connect ctxErr g me p)) x y"
  using assms by (cases ctxErr) (simp_all add: respects_context_def keeps_connections_def)

lemma tick_keeps:
  assumes "network_ok N" "keeps_connections N" "respects_context N Connect" "n_Connected N g x y"
  shows "n_Connected N (bootstrap_tick N Connect me peers ctxErr g) x y"
  using assms(4)
proof (induction peers arbitrary: g)
  case (Cons p peers)
  from Cons.IH Connect_keeps [OF assms(2,3)] Cons.prems show ?case
    by (simp add: bootstrap_tick_def network_okD(4) [OF assms(1)])
qed (simp add: bootstrap_tick_def)

lemma task_keeps:
  assumes "network_ok N" "keeps_connections N" "respects_context N Connect" "n_Connected N g x y"
  shows "n_Connected N (bootstrap_task N Connect me peers ticks g) x y"
  using assms(4) by (induction ticks arbitrary: g) (auto simp: bootstrap_task_def tick_keeps [OF assms(1-3)])

lemma tick_append: "bootstrap_tick N Connect me (us @ vs) c g = bootstrap_tick N Connect me vs c (bootstrap_tick N Connect me us c g)"
  by (simp add: bootstrap_tick_def)

text \<open>In a tick with a live context every reachable peer is connected when its turn is over.\<close>

lemma tick_turn:
  assumes "network_ok N" "respects_context N Connect" "reachable N me p"
  shows "n_Connected N (bootstrap_tick N Connect me (us @ [p]) None g) me (ai_ID p)"
proof -
  have "Connect None = n_Connect N" using assms(2) by (simp add: respects_context_def)
  then show ?thesis using reachable_connects [OF assms(1,3)] by (simp add: tick_append) (simp add: bootstrap_tick_def)
qed

lemma tick_alive:
  assumes "network_ok N" "keeps_connections N" "respects_context N Connect" "reachable N me p" "p \<in> set peers"
  shows "n_Connected N (bootstrap_tick N Connect me peers None g) me (ai_ID p)"
proof -
  from assms(5) obtain us vs where "peers = (us @ [p]) @ vs" by (metis append.assoc append_Cons append_Nil in_set_conv_decomp)
  with tick_keeps [OF assms(1-3) tick_turn [OF assms(1,3,4), of us g], of me vs None] show ?thesis
    by (simp only: tick_append)
qed

lemma task_dead:
  assumes "network_ok N" "respects_context N Connect" "None \<notin> set ticks"
  shows "n_Connected N (bootstrap_task N Connect me peers ticks g) x y \<longleftrightarrow> n_Connected N g x y"
proof -
  have tick: "n_Connected N (bootstrap_tick N Connect me peers (Some err) g) x y \<longleftrightarrow> n_Connected N g x y" for err g
    using assms(2) by (induction peers arbitrary: g)
      (auto simp: bootstrap_tick_def respects_context_def network_okD(4) [OF assms(1)])
  show ?thesis using assms(3)
  proof (induction ticks arbitrary: g)
    case (Cons t ticks)
    then obtain err where "t = Some err" by (cases t) auto
    with Cons tick show ?case by (simp add: bootstrap_task_def)
  qed (simp add: bootstrap_task_def)
qed

text \<open>
  C37: what the bootstrap task achieves. A node configured with \<^verbatim>\<open>WithBootstrapNodes\<close> runs the task for
  the peers these addresses denote. At every tick that comes while the context of the node's
  start is alive, each peer that can be reached is connected when its turn is over, also if
  the attempts for other peers fail; and if no connection is closed meanwhile, it is still
  connected in the end. The attempts use that context: if it has ended when the first tick
  comes, no later tick ever changes a connection, however often the task retries.
\<close>

theorem bootstrap_connects:
  assumes "network_ok N" "respects_context N Connect"
    and "wf_config (startupCfg b)" "addrs \<noteq> []" "WithBootstrapNodes addrs b = Ret b'"
    and "parseBootstrapPeers NewMultiaddr AddrInfos addrs = Inr peers"
  shows "Bootstrapper NewMultiaddr AddrInfos (startupCfg b') = Inr (Some peers) \<and>
    (\<forall>before after us p vs. ticks = before @ None # after \<and> peers = us @ p # vs \<and> reachable N me p \<longrightarrow>
       n_Connected N (bootstrap_tick N Connect me (us @ [p]) None (bootstrap_task N Connect me peers before g)) me (ai_ID p)) \<and>
    (if None \<in> set ticks
     then \<forall>p \<in> set peers. keeps_connections N \<and> reachable N me p \<longrightarrow>
       n_Connected N (bootstrap_task N Connect me peers ticks g) me (ai_ID p)
     else \<forall>x y. n_Connected N (bootstrap_task N Connect me peers ticks g) x y \<longleftrightarrow> n_Connected N g x y)"
proof (intro conjI)
  have b': "startupCfg b' = Set (startupCfg b) ''BootstrapAddresses'' (GStrs addrs)"
    using assms(4,5) by (auto simp: WithBootstrapNodes_def set_cfg_def)
  have "Get decode_strings (startupCfg b') ''BootstrapAddresses'' [] = (True, addrs)"
    unfolding b' using decode_strings_map [of "[]" addrs] by (simp add: Get_Set [OF assms(3)])
  then show "Bootstrapper NewMultiaddr AddrInfos (startupCfg b') = Inr (Some peers)"
    by (simp add: Bootstrapper_def assms(6))
  show "\<forall>before after us p vs. ticks = before @ None # after \<and> peers = us @ p # vs \<and> reachable N me p \<longrightarrow>
      n_Connected N (bootstrap_tick N Connect me (us @ [p]) None (bootstrap_task N Connect me peers before g)) me (ai_ID p)"
    using tick_turn [OF assms(1,2)] by blast
  show "if None \<in> set ticks
     then \<forall>p \<in> set peers. keeps_connections N \<and> reachable N me p \<longrightarrow>
       n_Connected N (bootstrap_task N Connect me peers ticks g) me (ai_ID p)
     else \<forall>x y. n_Connected N (bootstrap_task N Connect me peers ticks g) x y \<longleftrightarrow> n_Connected N g x y"
  proof (cases "None \<in> set ticks")
    case True
    then obtain before after where ticks: "ticks = before @ None # after" by (meson split_list)
    let ?g = "bootstrap_task N Connect me peers before g"
    have "bootstrap_task N Connect me peers ticks g =
        bootstrap_task N Connect me peers after (bootstrap_tick N Connect me peers None ?g)"
      by (simp add: ticks bootstrap_task_def)
    with True tick_alive [OF assms(1) _ assms(2), of me _ peers ?g] task_keeps [OF assms(1) _ assms(2)] show ?thesis by auto
  qed (simp add: task_dead [OF assms(1,2)])
qed

definition ctx_connect :: "goerror option \<Rightarrow> (string \<times> string) set \<Rightarrow> string \<Rightarrow> AddrInfo \<Rightarrow> (string \<times> string) set \<times> goerror option" where
  "ctx_connect ctxErr g me p = (case ctxErr of None \<Rightarrow> n_Connect sample_network g me p | Some err \<Rightarrow> (g, Some err))"

definition unknown_info :: AddrInfo where "unknown_info = \<lparr>ai_ID = ''z'', ai_Addrs = [''/addr'']\<rparr>"

theorem bootstrap_connects_witness:
  "\<exists>b'. WithBootstrapNodes [''/ip4/b''] \<lparr>startupCfg = DefaultConfig\<rparr> = Ret b' \<and>
    Bootstrapper Inr (\<lambda>_. Inr [unknown_info, b_info]) (startupCfg b') = Inr (Some [unknown_info, b_info]) \<and>
    n_Connected sample_network
      (bootstrap_task sample_network ctx_connect ''a'' [unknown_info, b_info] [Some (ErrorString ''x''), None] {}) ''a'' ''b''"
proof -
  obtain b' where b': "WithBootstrapNodes [''/ip4/b''] \<lparr>startupCfg = DefaultConfig\<rparr> = Ret b'" by (simp add: WithBootstrapNodes_def)
  have c: "respects_context sample_network ctx_connect" by (auto simp: respects_context_def ctx_connect_def fun_eq_iff)
  have r: "reachable sample_network ''a'' b_info" by (rule b_info_reachable) (simp add: sample_nodes_def)
  have p: "parseBootstrapPeers Inr (\<lambda>_. Inr [unknown_info, b_info]) [''/ip4/b''] = Inr [unknown_info, b_info]"
    by (simp add: parseBootstrapPeers_def)
  from bootstrap_connects [OF sample_network_ok(1) c _ _ b' p, of "[Some (ErrorString ''x''), None]" "''a''" "{}"] b' r
    sample_network_ok(2)
  show ?thesis by (auto simp: b_info_def)
qed

end
