(* ===== verification/Fs_Datastore.thy ===== *)
theory Fs_Datastore
  imports Json_Config
begin

text \<open>
  \<^verbatim>\<open>modules/repo/fsrepo/datastore.go\<close>: the datastore of an on-disk repository, mounted from the
  entries of the configuration's \<^verbatim>\<open>Mounts\<close> map. The datastores themselves (\<^verbatim>\<open>leveldb\<close>, \<^verbatim>\<open>flatfs\<close>,
  \<^verbatim>\<open>mount\<close>, the key-value store on top) are third party: a record of the calls, on a state
  \<open>'d\<close>, that hands out numbered handles. \<open>ds_library\<close> names what the code relies on, in
  terms of the set of handles that are open.
\<close>

section \<open>The datastore libraries\<close>

record Mount =
  mnt_Prefix :: string
  mnt_Datastore :: nat

record 'd dslib =
  leveldb_New :: "'d \<Rightarrow> string \<Rightarrow> 'd \<times> nat result"
  ParseShardFunc :: "string \<Rightarrow> string result"
  flatfs_CreateOrOpen :: "'d \<Rightarrow> string \<Rightarrow> string \<Rightarrow> bool \<Rightarrow> 'd \<times> nat result"
  mount_New :: "'d \<Rightarrow> Mount list \<Rightarrow> 'd \<times> nat"
  store_New :: "'d \<Rightarrow> nat option \<Rightarrow> 'd \<times> nat"
  ds_Close :: "'d \<Rightarrow> nat \<Rightarrow> 'd \<times> goerror option"
  NewKey :: "string \<Rightarrow> string"
  PersistentUsage :: "'d \<Rightarrow> nat \<Rightarrow> nat result option"
  OldPersistentUsage :: "'d \<Rightarrow> nat \<Rightarrow> nat result option"

definition ds_library :: "'d dslib \<Rightarrow> ('d \<Rightarrow> nat set) \<Rightarrow> bool" where
  "ds_library L opened \<longleftrightarrow>
     (\<forall>d p d' h. leveldb_New L d p = (d', Inr h) \<longrightarrow> h \<notin> opened d \<and> opened d' = insert h (opened d)) \<and>
     (\<forall>d p d' e. leveldb_New L d p = (d', Inl e) \<longrightarrow> opened d' = opened d) \<and>
     (\<forall>d p f s d' h. flatfs_CreateOrOpen L d p f s = (d', Inr h) \<longrightarrow>
        h \<notin> opened d \<and> opened d' = insert h (opened d)) \<and>
     (\<forall>d p f s d' e. flatfs_CreateOrOpen L d p f s = (d', Inl e) \<longrightarrow> opened d' = opened d) \<and>
     (\<forall>d ms d' h. mount_New L d ms = (d', h) \<longrightarrow> opened d' = opened d) \<and>
     (\<forall>d h d' e. ds_Close L d h = (d', e) \<longrightarrow> opened d' = opened d - {h})"

section \<open>Opening the mounts\<close>

definition DefaultMountInfo :: "goval gomap" where
  "DefaultMountInfo =
     [(''level'', GMap [(''path'', GStr ''kv''), (''prefix'', GStr ''/'')]),
      (''flatfs'', GMap [(''path'', GStr ''blocks''), (''prefix'', GStr ''blocks''),
         (''shardFunc'', GStr ''/repo/flatfs/shard/v1/next-to-last/2''), (''sync'', GBool True)])]"

text \<open>Type assertions with a comma-ok result, on a missing key too.\<close>

definition as_string :: "goval option \<Rightarrow> string option" where
  "as_string v = (case v of Some (GStr s) \<Rightarrow> Some s | _ \<Rightarrow> None)"

definition as_bool :: "goval option \<Rightarrow> bool option" where
  "as_bool v = (case v of Some (GBool b) \<Rightarrow> Some b | _ \<Rightarrow> None)"

definition as_map :: "goval option \<Rightarrow> goval gomap option" where
  "as_map v = (case v of Some (GMap m) \<Rightarrow> Some m | _ \<Rightarrow> None)"

record mountedDS =
  md_Batching :: nat
  md_mnts :: "Mount gomap"

record 'd open_state =
  os_fs :: filesys
  os_ds :: 'd
  os_mnts :: "Mount list"
  os_infos :: "Mount gomap"

definition mount_path :: "filesys \<Rightarrow> string \<Rightarrow> goval gomap \<Rightarrow> filesys \<times> string result" where
  "mount_path fs root dCfg =
     (case as_string (map_of dCfg ''path'') of
        None \<Rightarrow> (fs, Inr root)
      | Some p \<Rightarrow>
          (case MkdirIfNotExists fs (Join root p) of
             (fs', Some err) \<Rightarrow> (fs', Inl err)
           | (fs', None) \<Rightarrow> (fs', Inr (Join root p))))"

definition new_datastore :: "'d dslib \<Rightarrow> 'd \<Rightarrow> string \<Rightarrow> goval gomap \<Rightarrow> string \<Rightarrow> 'd \<times> nat result" where
  "new_datastore L d k dCfg path =
     (if k = ''level'' then leveldb_New L d path
      else if k = ''flatfs'' then
        (let sFn = (case as_string (map_of dCfg ''shardFunc'') of
               None \<Rightarrow> ''/repo/flatfs/shard/v1/next-to-last/2'' | Some s \<Rightarrow> s);
             sn = (case as_bool (map_of dCfg ''sync'') of None \<Rightarrow> True | Some b \<Rightarrow> b)
         in case ParseShardFunc L sFn of
              Inl e \<Rightarrow> (d, Inl e)
            | Inr sf \<Rightarrow> flatfs_CreateOrOpen L d path sf sn)
      else (d, Inl (ErrorString ''Invalid datastore type'')))"

text \<open>One turn of the loop over the mounts.\<close>

definition open_mount :: "'d dslib \<Rightarrow> string \<Rightarrow> 'd open_state \<Rightarrow> string \<times> goval \<Rightarrow> 'd open_state \<times> goerror option" where
  "open_mount L root st kv =
     (case as_map (Some (snd kv)) of
        None \<Rightarrow> (st, Some (ErrorString ''Sub DS config missing for datastore''))
      | Some dCfg \<Rightarrow>
          (case as_string (map_of dCfg ''prefix'') of
             None \<Rightarrow> (st, Some (ErrorString ''Prefix missing for datastore''))
           | Some prefix \<Rightarrow>
               (case mount_path (os_fs st) root dCfg of
                  (fs', Inl err) \<Rightarrow> (st\<lparr>os_fs := fs'\<rparr>, Some err)
                | (fs', Inr path) \<Rightarrow>
                    (case new_datastore L (os_ds st) (fst kv) dCfg path of
                       (d', Inl err) \<Rightarrow> (st\<lparr>os_fs := fs', os_ds := d'\<rparr>, Some err)
                     | (d', Inr h) \<Rightarrow>
                         (let newMnt = \<lparr>mnt_Prefix = NewKey L prefix, mnt_Datastore = h\<rparr>
                          in (\<lparr>os_fs = fs', os_ds = d', os_mnts = os_mnts st @ [newMnt],
                               os_infos = AList.update path newMnt (os_infos st)\<rparr>, None))))))"

text \<open>The deferred function: close what was opened, errors ignored.\<close>

definition close_mounts :: "'d dslib \<Rightarrow> 'd \<Rightarrow> Mount list \<Rightarrow> 'd" where
  "close_mounts L d mnts = fold (\<lambda>m d. fst (ds_Close L d (mnt_Datastore m))) mnts d"

definition mount_config :: "JsonConfig \<Rightarrow> goval gomap" where
  "mount_config c =
     (case Get decode_any_map c ''Mounts'' [] of
        (True, mntInfo) \<Rightarrow> mntInfo
      | (False, _) \<Rightarrow> DefaultMountInfo)"

definition openDatastoreFromCfg ::
  "'d dslib \<Rightarrow> (goval gomap \<Rightarrow> goval gomap) \<Rightarrow> filesys \<Rightarrow> 'd \<Rightarrow> string \<Rightarrow> JsonConfig \<Rightarrow>
     filesys \<times> 'd \<times> mountedDS result" where
  "openDatastoreFromCfg L ord fs d root c =
     (case each_until_error (open_mount L root) \<lparr>os_fs = fs, os_ds = d, os_mnts = [], os_infos = []\<rparr>
         (ord (mount_config c)) of
        (st, Some err) \<Rightarrow> (os_fs st, close_mounts L (os_ds st) (os_mnts st), Inl err)
      | (st, None) \<Rightarrow>
          (case mount_New L (os_ds st) (os_mnts st) of
             (d', h) \<Rightarrow> (os_fs st, d', Inr \<lparr>md_Batching = h, md_mnts = os_infos st\<rparr>)))"

section \<open>Mount information\<close>

record MountInfo =
  mi_Path :: string
  mi_Prefix :: string
  mi_Usage :: nat

text \<open>The two interfaces a datastore may have for its disk usage are asked one after the other.\<close>

definition mount_usage :: "(nat \<Rightarrow> nat result option) \<Rightarrow> string \<times> Mount \<Rightarrow> MountInfo list result" where
  "mount_usage usage kv =
     (case usage (mnt_Datastore (snd kv)) of
        None \<Rightarrow> Inr []
      | Some (Inl err) \<Rightarrow> Inl err
      | Some (Inr usg) \<Rightarrow> Inr [\<lparr>mi_Path = fst kv, mi_Prefix = mnt_Prefix (snd kv), mi_Usage = usg\<rparr>])"

fun Mounts_from :: "'d dslib \<Rightarrow> 'd \<Rightarrow> Mount gomap \<Rightarrow> MountInfo list \<Rightarrow> MountInfo list result" where
  "Mounts_from L d [] acc = Inr acc"
| "Mounts_from L d (kv # kvs) acc =
     (case mount_usage (PersistentUsage L d) kv of
        Inl err \<Rightarrow> Inl err
      | Inr a \<Rightarrow>
          (case mount_usage (OldPersistentUsage L d) kv of
             Inl err \<Rightarrow> Inl err
           | Inr b \<Rightarrow> Mounts_from L d kvs (acc @ a @ b)))"

definition Mounts :: "'d dslib \<Rightarrow> 'd \<Rightarrow> mountedDS \<Rightarrow> MountInfo list result" where
  "Mounts L d m = Mounts_from L d (md_mnts m) []"

section \<open>Nothing stays open after a failure\<close>

lemma ds_libraryD:
  assumes "ds_library L opened"
  shows "leveldb_New L d p = (d', Inr h) \<Longrightarrow> h \<notin> opened d \<and> opened d' = insert h (opened d)"
    and "leveldb_New L d p = (d', Inl e) \<Longrightarrow> opened d' = opened d"
    and "flatfs_CreateOrOpen L d p f s = (d', Inr h) \<Longrightarrow> h \<notin> opened d \<and> opened d' = insert h (opened d)"
    and "flatfs_CreateOrOpen L d p f s = (d', Inl e) \<Longrightarrow> opened d' = opened d"
    and "mount_New L d ms = (d', h) \<Longrightarrow> opened d' = opened d"
    and "ds_Close L d h = (d', ce) \<Longrightarrow> opened d' = opened d - {h}"
  using assms unfolding ds_library_def by metis+

lemma new_datastore_opened:
  assumes "ds_library L opened" "new_datastore L d k dCfg path = (d', r)"
  shows "case r of Inl _ \<Rightarrow> opened d' = opened d | Inr h \<Rightarrow> h \<notin> opened d \<and> opened d' = insert h (opened d)"
proof -
  from assms(2) consider "leveldb_New L d path = (d', r)"
    | sf sn where "flatfs_CreateOrOpen L d path sf sn = (d', r)"
    | e where "d' = d" "r = Inl e"
    by (auto simp: new_datastore_def Let_def split: if_splits sum.splits)
  then show ?thesis
    by cases (auto dest: ds_libraryD [OF assms(1)] split: sum.splits)
qed

lemma close_mounts_opened:
  "ds_library L opened \<Longrightarrow> opened (close_mounts L d ms) = opened d - mnt_Datastore ` set ms"
proof (induction ms arbitrary: d)
  case (Cons m ms)
  obtain d' e where c: "ds_Close L d (mnt_Datastore m) = (d', e)" by (cases "ds_Close L d (mnt_Datastore m)")
  have "opened d' = opened d - {mnt_Datastore m}" by (rule ds_libraryD(6) [OF Cons.prems c])
  with Cons.IH [OF Cons.prems, of d'] c show ?case by (auto simp: close_mounts_def)
qed (simp add: close_mounts_def)

text \<open>Invariant of the loop: the open handles are the old ones and those of the mounts so far.\<close>

definition mounts_inv :: "('d \<Rightarrow> nat set) \<Rightarrow> nat set \<Rightarrow> 'd open_state \<Rightarrow> bool" where
  "mounts_inv opened old st \<longleftrightarrow> opened (os_ds st) = old \<union> mnt_Datastore ` set (os_mnts st) \<and>
     distinct (map mnt_Datastore (os_mnts st)) \<and> old \<inter> mnt_Datastore ` set (os_mnts st) = {}"

lemma open_mount_inv:
  assumes "ds_library L opened" "mounts_inv opened old st" "open_mount L root st kv = (st', e)"
  shows "mounts_inv opened old st'"
proof -
  from assms(3) consider "os_ds st' = os_ds st" "os_mnts st' = os_mnts st"
    | dCfg path d' err where "new_datastore L (os_ds st) (fst kv) dCfg path = (d', Inl err)"
        "os_ds st' = d'" "os_mnts st' = os_mnts st"
    | dCfg path d' h pre where "new_datastore L (os_ds st) (fst kv) dCfg path = (d', Inr h)"
        "os_ds st' = d'" "os_mnts st' = os_mnts st @ [\<lparr>mnt_Prefix = pre, mnt_Datastore = h\<rparr>]"
    by (auto simp: open_mount_def Let_def split: option.splits prod.splits sum.splits)
  then show ?thesis
  proof cases
    case 1
    with assms(2) show ?thesis by (simp add: mounts_inv_def)
  next
    case 2
    from new_datastore_opened [OF assms(1) 2(1)] 2 assms(2) show ?thesis by (simp add: mounts_inv_def)
  next
    case 3
    from new_datastore_opened [OF assms(1) 3(1)] 3 assms(2) show ?thesis by (auto simp: mounts_inv_def)
  qed
qed

lemma open_mount_grows:
  "open_mount L root st kv = (st', None) \<Longrightarrow> length (os_mnts st') = Suc (length (os_mnts st))"
  by (auto simp: open_mount_def Let_def split: option.splits prod.splits sum.splits)

text \<open>
  C22: opening the datastore is all or nothing. If some mount of the configuration cannot be
  opened, every datastore opened before it is closed again, whatever order the mounts are
  visited in; otherwise each configured mount contributes one newly opened datastore to the
  mounted whole.
\<close>

theorem open_datastore_all_or_nothing:
  assumes "ds_library L opened" "openDatastoreFromCfg L ord fs d root c = (fs', d', res)"
  shows "case res of
      Inl err \<Rightarrow> opened d' = opened d
    | Inr m \<Rightarrow> (\<exists>d1 mnts. mount_New L d1 mnts = (d', md_Batching m) \<and>
        length mnts = length (ord (mount_config c)) \<and> distinct (map mnt_Datastore mnts) \<and>
        opened d \<inter> mnt_Datastore ` set mnts = {} \<and> opened d' = opened d \<union> mnt_Datastore ` set mnts)"
proof -
  let ?st0 = "\<lparr>os_fs = fs, os_ds = d, os_mnts = [], os_infos = []\<rparr>"
  obtain st e where run: "each_until_error (open_mount L root) ?st0 (ord (mount_config c)) = (st, e)"
    by (cases "each_until_error (open_mount L root) ?st0 (ord (mount_config c))")
  have inv: "mounts_inv opened (opened d) st"
    by (rule each_until_error_invariant [OF run])
      (simp add: mounts_inv_def, rule open_mount_inv [OF assms(1)])
  show ?thesis
  proof (cases e)
    case None
    have "length (os_mnts st) = fold (\<lambda>_ n. Suc n) (ord (mount_config c)) (length (os_mnts ?st0))"
      by (rule each_until_error_refines [OF run [unfolded None]]) (rule open_mount_grows)
    also have "\<dots> = length (ord (mount_config c))"
    proof -
      have "fold (\<lambda>_ n. Suc n) xs n = n + length xs" for xs :: "(string \<times> goval) list" and n
        by (induction xs arbitrary: n) auto
      then show ?thesis by simp
    qed
    finally have len: "length (os_mnts st) = length (ord (mount_config c))" .
    obtain dm h where m: "mount_New L (os_ds st) (os_mnts st) = (dm, h)" by fastforce
    have "opened dm = opened (os_ds st)" by (rule ds_libraryD(5) [OF assms(1) m])
    with inv len m run None assms(2) show ?thesis
      by (auto simp: openDatastoreFromCfg_def mounts_inv_def intro!: exI [of _ "os_ds st"] exI [of _ "os_mnts st"])
  next
    case (Some err)
    with run assms(2) have "d' = close_mounts L (os_ds st) (os_mnts st)" "res = Inl err"
      by (simp_all add: openDatastoreFromCfg_def)
    with close_mounts_opened [OF assms(1)] inv show ?thesis by (auto simp: mounts_inv_def)
  qed
qed

text \<open>A library of numbered handles in which nothing fails.\<close>

definition sample_dslib :: "(nat set \<times> nat) dslib" where
  "sample_dslib =
     \<lparr>leveldb_New = (\<lambda>(s, n) p. ((insert n s, Suc n), Inr n)),
      ParseShardFunc = Inr,
      flatfs_CreateOrOpen = (\<lambda>(s, n) p f b. ((insert n s, Suc n), Inr n)),
      mount_New = (\<lambda>(s, n) ms. ((s, n), 1000)),
      store_New = (\<lambda>d h. (d, 2000)),
      ds_Close = (\<lambda>(s, n) h. ((s - {h}, n), None)),
      NewKey = (\<lambda>k. k),
      PersistentUsage = (\<lambda>_ _. None), OldPersistentUsage = (\<lambda>_ _. None)\<rparr>"

definition sample_opened :: "nat set \<times> nat \<Rightarrow> nat set" where
  "sample_opened d = {h \<in> fst d. h < snd d}"

lemma sample_dslib_ok: "ds_library sample_dslib sample_opened"
  by (auto simp: ds_library_def sample_dslib_def sample_opened_def)

definition bad_mounts :: JsonConfig where
  "bad_mounts = [(''Mounts'', GMap [(''level'', GMap [(''prefix'', GStr ''/'')]), (''badger'', GMap [(''prefix'', GStr ''b'')])])]"

theorem open_datastore_all_or_nothing_witness:
  "\<exists>fs' d' err. openDatastoreFromCfg sample_dslib rev empty_fs ({}, 0) ''r'' bad_mounts = (fs', d', Inl err) \<and>
    sample_opened d' = {}"
proof -
  have "mount_config bad_mounts =
      [(''badger'', GMap [(''prefix'', GStr ''b'')]), (''level'', GMap [(''prefix'', GStr ''/'')])]"
    unfolding mount_config_def bad_mounts_def
    by (subst Get_doc_of) (simp_all add: doc_of_def wf_config_def wf_gomap_def decode_map_def decode_any_def)
  then obtain fs' d' err where o: "openDatastoreFromCfg sample_dslib rev empty_fs ({}, 0) ''r'' bad_mounts = (fs', d', Inl err)"
    by (simp add: openDatastoreFromCfg_def open_mount_def as_map_def as_string_def mount_path_def
        new_datastore_def sample_dslib_def close_mounts_def Let_def)
  from open_datastore_all_or_nothing [OF sample_dslib_ok o] o show ?thesis
    by (simp add: sample_opened_def)
qed

end
