(* ===== verification/Fs_Repo.thy ===== *)
theory Fs_Repo
  imports Fs_Datastore Identity_Keys
begin

text \<open>
  \<^verbatim>\<open>modules/repo/fsrepo/fsrepo.go\<close>: the on-disk repository. A world holds the file tree, the
  state of the datastore libraries, the heap of \<^verbatim>\<open>fsRepo\<close> objects and the opener's table of
  active repositories with their reference counts, because two callers that open one path
  share one object. The package lock makes each operation one step.

  The locale \<open>repo_config\<close> is the part of the interface \<^verbatim>\<open>repo.Repo\<close> that concerns the
  configuration; both repository providers are instances of it.
\<close>

section \<open>Objects and the world\<close>

record fsRepo =
  r_path :: string
  r_cfg :: JsonConfig
  r_rootDS :: "mountedDS option"
  r_kvStore :: "nat option"

record ActiveRepo =
  ar_Active :: nat
  ar_RefCnt :: int

record 'd repo_world =
  w_fs :: filesys
  w_ds :: 'd
  w_objs :: "nat \<Rightarrow> fsRepo option"
  w_next :: nat
  w_active :: "ActiveRepo gomap"

definition datastorePath :: "string \<Rightarrow> string" where
  "datastorePath root = Join root ''datastore''"

definition configPath :: "string \<Rightarrow> string" where
  "configPath root = Join root ''config.json''"

section \<open>Initialising a repository\<close>

definition initRepo :: "filesys \<Rightarrow> string \<Rightarrow> filesys \<times> goerror option" where
  "initRepo fs path =
     (case MkdirIfNotExists fs path of
        (fs', Some err) \<Rightarrow> (fs', Some err)
      | (fs', None) \<Rightarrow> MkdirIfNotExists fs' (datastorePath path))"

definition initIdentity :: "'k keylib \<Rightarrow> JsonConfig \<Rightarrow> JsonConfig \<times> goerror option" where
  "initIdentity kl c =
     (case GenerateKeyPair kl of
        Inl err \<Rightarrow> (c, Some err)
      | Inr key \<Rightarrow>
          (case identity_entries kl key of
             Inl err \<Rightarrow> (c, Some err)
           | Inr ident \<Rightarrow> (Set c ''Identity'' (GMap ident), None)))"

definition isInitialized :: "filesys \<Rightarrow> string \<Rightarrow> bool" where
  "isInitialized fs path = Exists_path fs (configPath path)"

text \<open>\<^verbatim>\<open>Init\<close> may change the tree and the configuration it is given.\<close>

definition Init :: "'k keylib \<Rightarrow> filesys \<Rightarrow> string \<Rightarrow> JsonConfig \<Rightarrow> filesys \<times> JsonConfig \<times> goerror option" where
  "Init kl fs path c =
     (if isInitialized fs path then (fs, c, Some (ErrorString ''already initialized''))
      else
        (case initRepo fs path of
           (fs1, Some err) \<Rightarrow> (fs1, c, Some (Wrapped ''failed creating directories'' err))
         | (fs1, None) \<Rightarrow>
             (case (if \<not> fst (Get decode_any_map c ''Identity'' []) then initIdentity kl c else (c, None)) of
                (c1, Some err) \<Rightarrow> (fs1, c1, Some (Wrapped ''failed creating identity'' err))
              | (c1, None) \<Rightarrow>
                  (case Reader c1 of
                     Inl err \<Rightarrow> (fs1, c1, Some (Wrapped ''failed reading config'' err))
                   | Inr confRdr \<Rightarrow>
                       (case WriteToFile fs1 confRdr (configPath path) of
                          (fs2, Some err) \<Rightarrow> (fs2, c1, Some (Wrapped ''failed creating config'' err))
                        | (fs2, None) \<Rightarrow> (fs2, c1, None))))))"

section \<open>Opening and closing\<close>

definition openConfig :: "filesys \<Rightarrow> string \<Rightarrow> JsonConfig result" where
  "openConfig fs path =
     (if \<not> Exists_path fs (configPath path) then Inl (ErrorString ''config is absent'')
      else FromFile fs (configPath path))"

text \<open>When the directory is missing it is made, and the datastore stays \<^verbatim>\<open>nil\<close>.\<close>

definition openDatastore ::
  "'d dslib \<Rightarrow> (goval gomap \<Rightarrow> goval gomap) \<Rightarrow> filesys \<Rightarrow> 'd \<Rightarrow> string \<Rightarrow> JsonConfig \<Rightarrow>
     filesys \<times> 'd \<times> mountedDS option result" where
  "openDatastore L ord fs d path cfg =
     (if \<not> Exists_path fs (datastorePath path) then
        (case MkdirIfNotExists fs (datastorePath path) of
           (fs', Some err) \<Rightarrow> (fs', d, Inl err)
         | (fs', None) \<Rightarrow> (fs', d, Inr None))
      else
        (case openDatastoreFromCfg L ord fs d path cfg of
           (fs', d', Inl err) \<Rightarrow> (fs', d', Inl err)
         | (fs', d', Inr m) \<Rightarrow> (fs', d', Inr (Some m))))"

text \<open>\<^verbatim>\<open>namespace.Wrap\<close> and \<^verbatim>\<open>ipfsdsStore.New\<close> are library calls, here one parameter. On a \<^verbatim>\<open>nil\<close> datastore the
  former panics; what is stated of \<open>open_repo\<close> then concerns a call that does not return.\<close>

definition openStore :: "'d dslib \<Rightarrow> 'd \<Rightarrow> mountedDS option \<Rightarrow> 'd \<times> nat" where
  "openStore L d rootDS = store_New L d (map_option md_Batching rootDS)"

definition open_repo ::
  "'d dslib \<Rightarrow> (goval gomap \<Rightarrow> goval gomap) \<Rightarrow> 'd repo_world \<Rightarrow> string \<Rightarrow> 'd repo_world \<times> nat result" where
  "open_repo L ord w path =
     (case openConfig (w_fs w) path of
        Inl err \<Rightarrow> (w, Inl (Wrapped ''failed opening config'' err))
      | Inr cfg \<Rightarrow>
          (case openDatastore L ord (w_fs w) (w_ds w) path cfg of
             (fs', d', Inl err) \<Rightarrow> (w\<lparr>w_fs := fs', w_ds := d'\<rparr>, Inl (Wrapped ''failed opening datastore'' err))
           | (fs', d', Inr rootDS) \<Rightarrow>
               (case openStore L d' rootDS of
                  (d'', kv) \<Rightarrow>
                    (w\<lparr>w_fs := fs', w_ds := d'', w_next := Suc (w_next w),
                       w_objs := (w_objs w)(w_next w \<mapsto>
                         \<lparr>r_path = path, r_cfg = cfg, r_rootDS = rootDS, r_kvStore = Some kv\<rparr>)\<rparr>,
                     Inr (w_next w)))))"

definition opener_Open ::
  "'d dslib \<Rightarrow> (goval gomap \<Rightarrow> goval gomap) \<Rightarrow> 'd repo_world \<Rightarrow> string \<Rightarrow> 'd repo_world \<times> nat result" where
  "opener_Open L ord w path =
     (case map_of (w_active w) path of
        Some ar \<Rightarrow>
          (w\<lparr>w_active := AList.update path (ar\<lparr>ar_RefCnt := ar_RefCnt ar + 1\<rparr>) (w_active w)\<rparr>,
           Inr (ar_Active ar))
      | None \<Rightarrow>
          (case open_repo L ord w path of
             (w', Inl err) \<Rightarrow> (w', Inl err)
           | (w', Inr rp) \<Rightarrow>
               (w'\<lparr>w_active := AList.update path \<lparr>ar_Active = rp, ar_RefCnt = 1\<rparr> (w_active w')\<rparr>, Inr rp)))"

text \<open>\<^verbatim>\<open>close\<close>: both parts are closed and dropped, their errors collected.\<close>

definition close_opt :: "'d dslib \<Rightarrow> 'd \<Rightarrow> nat option \<Rightarrow> 'd \<times> goerror option" where
  "close_opt L d h = (case h of None \<Rightarrow> (d, None) | Some h \<Rightarrow> ds_Close L d h)"

definition close_repo :: "'d dslib \<Rightarrow> 'd repo_world \<Rightarrow> nat \<Rightarrow> 'd repo_world \<times> goerror option" where
  "close_repo L w rp =
     (case w_objs w rp of
        None \<Rightarrow> (w, None)
      | Some f \<Rightarrow>
          (case close_opt L (w_ds w) (r_kvStore f) of
             (d1, e1) \<Rightarrow>
               (case close_opt L d1 (map_option md_Batching (r_rootDS f)) of
                  (d2, e2) \<Rightarrow>
                    (w\<lparr>w_ds := d2, w_objs := (w_objs w)(rp \<mapsto> f\<lparr>r_kvStore := None, r_rootDS := None\<rparr>)\<rparr>,
                     ErrorOrNil (Append_error (Append_error [] e1) e2)))))"

definition opener_Close :: "'d dslib \<Rightarrow> 'd repo_world \<Rightarrow> string \<Rightarrow> 'd repo_world \<times> goerror option" where
  "opener_Close L w path =
     (case map_of (w_active w) path of
        None \<Rightarrow> (w, None)
      | Some ar \<Rightarrow>
          if ar_RefCnt ar - 1 > 0 then
            (w\<lparr>w_active := AList.update path (ar\<lparr>ar_RefCnt := ar_RefCnt ar - 1\<rparr>) (w_active w)\<rparr>, None)
          else close_repo L (w\<lparr>w_active := AList.delete path (w_active w)\<rparr>) (ar_Active ar))"

section \<open>The package's functions and the repository's methods\<close>

definition IsInitialized :: "'d repo_world \<Rightarrow> string \<Rightarrow> bool" where
  "IsInitialized w path = isInitialized (w_fs w) path"

definition Open_fs ::
  "'d dslib \<Rightarrow> (goval gomap \<Rightarrow> goval gomap) \<Rightarrow> 'd repo_world \<Rightarrow> string \<Rightarrow> 'd repo_world \<times> nat result" where
  "Open_fs L ord w path =
     (if \<not> isInitialized (w_fs w) path then (w, Inl (ErrorString ''not initialized''))
      else opener_Open L ord w path)"

definition CreateOrOpen_fs ::
  "'k keylib \<Rightarrow> 'd dslib \<Rightarrow> (goval gomap \<Rightarrow> goval gomap) \<Rightarrow> 'd repo_world \<Rightarrow> JsonConfig \<Rightarrow>
     'd repo_world \<times> JsonConfig \<times> nat result" where
  "CreateOrOpen_fs kl L ord w c =
     (case Get decode_string c ''RootPath'' [] of
        (False, _) \<Rightarrow> (w, c, Inl (ErrorString ''root path not specified''))
      | (True, path) \<Rightarrow>
          (case (if \<not> IsInitialized w path then Init kl (w_fs w) path c else (w_fs w, c, None)) of
             (fs', c', Some err) \<Rightarrow> (w\<lparr>w_fs := fs'\<rparr>, c', Inl err)
           | (fs', c', None) \<Rightarrow>
               (case Open_fs L ord (w\<lparr>w_fs := fs'\<rparr>) path of
                  (w', r) \<Rightarrow> (w', c', r))))"

definition Config_fs :: "nat \<Rightarrow> 'd repo_world \<Rightarrow> JsonConfig" where
  "Config_fs rp w = (case w_objs w rp of Some f \<Rightarrow> r_cfg f | None \<Rightarrow> [])"

definition SetConfig_fs :: "nat \<Rightarrow> 'd repo_world \<Rightarrow> JsonConfig \<Rightarrow> 'd repo_world \<times> goerror option" where
  "SetConfig_fs rp w c =
     (case w_objs w rp of
        None \<Rightarrow> (w, None)
      | Some f \<Rightarrow>
          (let w1 = w\<lparr>w_objs := (w_objs w)(rp \<mapsto> f\<lparr>r_cfg := c\<rparr>)\<rparr> in
           case Reader c of
             Inl err \<Rightarrow> (w1, Some err)
           | Inr confRdr \<Rightarrow>
               (case WriteToFile (w_fs w) confRdr (configPath (r_path f)) of
                  (fs', e) \<Rightarrow> (w1\<lparr>w_fs := fs'\<rparr>, e))))"

definition Store_fs :: "nat \<Rightarrow> 'd repo_world \<Rightarrow> nat option" where
  "Store_fs rp w = (case w_objs w rp of Some f \<Rightarrow> r_kvStore f | None \<Rightarrow> None)"

definition Datastore_fs :: "nat \<Rightarrow> 'd repo_world \<Rightarrow> mountedDS option" where
  "Datastore_fs rp w = (case w_objs w rp of Some f \<Rightarrow> r_rootDS f | None \<Rightarrow> None)"

definition Close_fs :: "'d dslib \<Rightarrow> 'd repo_world \<Rightarrow> nat \<Rightarrow> 'd repo_world \<times> goerror option" where
  "Close_fs L w rp = (case w_objs w rp of Some f \<Rightarrow> opener_Close L w (r_path f) | None \<Rightarrow> (w, None))"

datatype repo_status = StatusText string | OnDiskMounts "MountInfo list"

definition Status_fs :: "'d dslib \<Rightarrow> nat \<Rightarrow> 'd repo_world \<Rightarrow> repo_status" where
  "Status_fs L rp w =
     (case Datastore_fs rp w of
        None \<Rightarrow> StatusText ''Invalid datastore''
      | Some ds \<Rightarrow>
          (case Mounts L (w_ds w) ds of
             Inl err \<Rightarrow> StatusText ''Invalid mount info''
           | Inr mntInfo \<Rightarrow> OnDiskMounts mntInfo))"

section \<open>Reference counts\<close>

text \<open>What holds between operations: an active repository has a positive count and its object is open.\<close>

definition active_ok :: "'d repo_world \<Rightarrow> string \<Rightarrow> ActiveRepo \<Rightarrow> bool" where
  "active_ok w path ar \<longleftrightarrow> 1 \<le> ar_RefCnt ar \<and> ar_Active ar < w_next w \<and>
     (\<exists>f. w_objs w (ar_Active ar) = Some f \<and> r_path f = path \<and> r_kvStore f \<noteq> None)"

definition repo_inv :: "'d repo_world \<Rightarrow> bool" where
  "repo_inv w \<longleftrightarrow> wf_gomap (w_active w) \<and>
     (\<forall>path ar. map_of (w_active w) path = Some ar \<longrightarrow> active_ok w path ar)"

text \<open>The abstract view: how many holders a path has.\<close>

definition refs_of :: "'d repo_world \<Rightarrow> string \<Rightarrow> nat" where
  "refs_of w path = (case map_of (w_active w) path of None \<Rightarrow> 0 | Some ar \<Rightarrow> nat (ar_RefCnt ar))"

datatype repo_op = ROpen string | RClose string

definition exec_repo ::
  "'d dslib \<Rightarrow> (goval gomap \<Rightarrow> goval gomap) \<Rightarrow> 'd repo_world \<Rightarrow> repo_op \<Rightarrow> 'd repo_world \<times> bool" where
  "exec_repo L ord w op =
     (case op of
        ROpen path \<Rightarrow> (case Open_fs L ord w path of (w', r) \<Rightarrow> (w', is_ok r))
      | RClose path \<Rightarrow> (fst (opener_Close L w path), True))"

fun refs_step :: "repo_op \<Rightarrow> bool \<Rightarrow> (string \<Rightarrow> nat) \<Rightarrow> string \<Rightarrow> nat" where
  "refs_step (ROpen path) ok r = (if ok then r(path := r path + 1) else r)"
| "refs_step (RClose path) ok r = r(path := r path - 1)"

fun run_repo ::
  "'d dslib \<Rightarrow> (goval gomap \<Rightarrow> goval gomap) \<Rightarrow> 'd repo_world \<Rightarrow> repo_op list \<Rightarrow> 'd repo_world \<times> bool list" where
  "run_repo L ord w [] = (w, [])"
| "run_repo L ord w (op # ops) =
     (case exec_repo L ord w op of
        (w', ok) \<Rightarrow> (case run_repo L ord w' ops of (w'', oks) \<Rightarrow> (w'', ok # oks)))"

text \<open>The pieces of an \<^verbatim>\<open>open\<close> and a \<^verbatim>\<open>close\<close>.\<close>

lemma open_repo_cases:
  assumes "open_repo L ord w path = (w', r)"
  obtains (failed) e where "r = Inl e" "w_active w' = w_active w" "w_objs w' = w_objs w" "w_next w' = w_next w"
  | (opened) cfg ds kv where "r = Inr (w_next w)" "openConfig (w_fs w) path = Inr cfg"
      "w_active w' = w_active w" "w_next w' = Suc (w_next w)"
      "w_objs w' = (w_objs w)(w_next w \<mapsto> \<lparr>r_path = path, r_cfg = cfg, r_rootDS = ds, r_kvStore = Some kv\<rparr>)"
  using assms by (auto simp: open_repo_def split: sum.splits prod.splits)

lemma close_repo_effect:
  assumes "w_objs w rp = Some f" "close_repo L w rp = (w', e)"
  shows "w_active w' = w_active w" "w_next w' = w_next w" "w_fs w' = w_fs w"
    "w_objs w' = (w_objs w)(rp \<mapsto> f\<lparr>r_kvStore := None, r_rootDS := None\<rparr>)"
  using assms by (auto simp: close_repo_def split: prod.splits)

lemma repo_invD:
  assumes "repo_inv w" "map_of (w_active w) path = Some ar"
  obtains f where "w_objs w (ar_Active ar) = Some f" "r_path f = path" "r_kvStore f \<noteq> None"
    "1 \<le> ar_RefCnt ar" "ar_Active ar < w_next w"
  using assms unfolding repo_inv_def active_ok_def by blast

lemma refs_of_update:
  "refs_of (w\<lparr>w_active := AList.update path ar (w_active w)\<rparr>) = (refs_of w)(path := nat (ar_RefCnt ar))"
  by (rule ext) (simp add: refs_of_def go_simps)

lemma repo_inv_active_update:
  assumes "repo_inv w" "active_ok w path ar"
  shows "repo_inv (w\<lparr>w_active := AList.update path ar (w_active w)\<rparr>)"
  using assms by (auto simp: repo_inv_def active_ok_def go_simps)

lemma opener_Open_step:
  assumes "repo_inv w" "opener_Open L ord w path = (w', r)"
  shows "repo_inv w' \<and> refs_of w' = refs_step (ROpen path) (is_ok r) (refs_of w)"
proof (cases "map_of (w_active w) path")
  case (Some ar)
  let ?ar = "ar\<lparr>ar_RefCnt := ar_RefCnt ar + 1\<rparr>"
  from Some assms(2) have w': "w' = w\<lparr>w_active := AList.update path ?ar (w_active w)\<rparr>" "is_ok r"
    by (auto simp: opener_Open_def)
  have "active_ok w path ar" using assms(1) Some by (simp add: repo_inv_def)
  then have ok: "active_ok w path ?ar" "1 \<le> ar_RefCnt ar" by (auto simp: active_ok_def)
  have "refs_of w path = nat (ar_RefCnt ar)" using Some by (simp add: refs_of_def)
  with ok repo_inv_active_update [OF assms(1) ok(1)] w' show ?thesis
    by (simp add: refs_of_update nat_add_distrib)
next
  case None
  obtain w1 r1 where o: "open_repo L ord w path = (w1, r1)" by (cases "open_repo L ord w path")
  from o show ?thesis
  proof (cases rule: open_repo_cases)
    case failed
    with None assms o show ?thesis
      by (auto simp: opener_Open_def repo_inv_def active_ok_def refs_of_def)
  next
    case (opened cfg ds kv)
    let ?ar = "\<lparr>ar_Active = w_next w, ar_RefCnt = 1\<rparr>"
    from None assms(2) o opened have w': "w' = w1\<lparr>w_active := AList.update path ?ar (w_active w1)\<rparr>" "is_ok r"
      by (auto simp: opener_Open_def)
    have "repo_inv w1"
      using assms(1) opened unfolding repo_inv_def active_ok_def by fastforce
    moreover have "active_ok w1 path ?ar" using opened by (simp add: active_ok_def)
    ultimately have "repo_inv w'" unfolding w' by (rule repo_inv_active_update)
    moreover have "refs_of w1 = refs_of w" "refs_of w path = 0"
      using None opened by (simp_all add: refs_of_def fun_eq_iff)
    ultimately show ?thesis using w' by (simp add: refs_of_update)
  qed
qed

lemma opener_Close_step:
  assumes "repo_inv w" "opener_Close L w path = (w', e)"
  shows "repo_inv w' \<and> refs_of w' = refs_step (RClose path) ok (refs_of w)"
proof (cases "map_of (w_active w) path")
  case None
  with assms show ?thesis by (auto simp: opener_Close_def refs_of_def)
next
  case (Some ar)
  have refs: "refs_of w path = nat (ar_RefCnt ar)" using Some by (simp add: refs_of_def)
  obtain f where f: "w_objs w (ar_Active ar) = Some f" "r_path f = path" "r_kvStore f \<noteq> None"
    "1 \<le> ar_RefCnt ar" "ar_Active ar < w_next w" by (rule repo_invD [OF assms(1) Some])
  show ?thesis
  proof (cases "ar_RefCnt ar - 1 > 0")
    case True
    let ?ar = "ar\<lparr>ar_RefCnt := ar_RefCnt ar - 1\<rparr>"
    from True Some assms(2) have w': "w' = w\<lparr>w_active := AList.update path ?ar (w_active w)\<rparr>"
      by (simp add: opener_Close_def)
    have "active_ok w path ?ar" using True f by (auto simp: active_ok_def)
    from repo_inv_active_update [OF assms(1) this] refs f(4) show ?thesis
      unfolding w' by (simp add: refs_of_update nat_diff_distrib)
  next
    case False
    let ?w = "w\<lparr>w_active := AList.delete path (w_active w)\<rparr>"
    from False Some assms(2) have c: "close_repo L ?w (ar_Active ar) = (w', e)"
      by (simp add: opener_Close_def)
    have "w_objs ?w (ar_Active ar) = Some f" using f by simp
    note w' = close_repo_effect [OF this c]
    have other: "active_ok w' q a" if a: "map_of (w_active w) q = Some a" "q \<noteq> path" for q a
    proof -
      obtain g where
        g: "w_objs w (ar_Active a) = Some g" "r_path g = q" "r_kvStore g \<noteq> None"
        "1 \<le> ar_RefCnt a" "ar_Active a < w_next w" by (rule repo_invD [OF assms(1) a(1)])
      with f a(2) have "ar_Active a \<noteq> ar_Active ar" by auto
      with g w' show ?thesis by (simp add: active_ok_def)
    qed
    have "repo_inv w'"
      using assms(1) other w' by (auto simp: repo_inv_def go_simps split: if_splits)
    moreover have "refs_of w' = (refs_of w)(path := 0)"
      using w'(1) by (rule_tac ext) (simp add: refs_of_def go_simps)
    moreover have "ar_RefCnt ar = 1" using False f(4) by simp
    ultimately show ?thesis using refs by simp
  qed
qed

lemma exec_repo_step:
  assumes "repo_inv w" "exec_repo L ord w op = (w', ok)"
  shows "repo_inv w' \<and> refs_of w' = refs_step op ok (refs_of w)"
proof (cases op)
  case (ROpen path)
  with assms opener_Open_step [OF assms(1)] show ?thesis
    by (auto simp: exec_repo_def Open_fs_def split: prod.splits if_splits)
next
  case (RClose path)
  with assms(2) opener_Close_step [OF assms(1) surjective_pairing, of L path ok] show ?thesis
    by (simp add: exec_repo_def)
qed

lemma run_repo_refines:
  "repo_inv w \<Longrightarrow> run_repo L ord w ops = (w', oks) \<Longrightarrow>
    repo_inv w' \<and> refs_of w' = fold (\<lambda>(op, ok). refs_step op ok) (zip ops oks) (refs_of w)"
proof (induction ops arbitrary: w oks)
  case (Cons op ops)
  obtain w1 ok where e: "exec_repo L ord w op = (w1, ok)" by (cases "exec_repo L ord w op")
  obtain oks' where r: "run_repo L ord w1 ops = (w', oks')" "oks = ok # oks'"
    using Cons.prems(2) e by (auto split: prod.splits)
  from exec_repo_step [OF Cons.prems(1) e] Cons.IH [OF _ r(1)] r(2) show ?case by simp
qed simp

text \<open>While a path is held, its object is open and every further \<^verbatim>\<open>Open\<close> returns it.\<close>

lemma held_path_open:
  assumes "repo_inv w" "0 < refs_of w path" "isInitialized (w_fs w) path"
  obtains rp where "Store_fs rp w \<noteq> None" "snd (Open_fs L ord w path) = Inr rp"
proof -
  from assms(2) obtain ar where ar: "map_of (w_active w) path = Some ar"
    by (auto simp: refs_of_def split: option.splits)
  obtain f where f: "w_objs w (ar_Active ar) = Some f" "r_path f = path" "r_kvStore f \<noteq> None"
    "1 \<le> ar_RefCnt ar" "ar_Active ar < w_next w" by (rule repo_invD [OF assms(1) ar])
  with ar assms(3) show ?thesis
    by (intro that [of "ar_Active ar"]) (auto simp: Store_fs_def Open_fs_def opener_Open_def)
qed

text \<open>
  C4: the opener counts holders. Over any sequence of opens and closes of any paths, the
  reference count of a path is the number of successful opens minus the closes (a close of
  a path nobody holds does nothing); and as long as a path is held, its repository object is
  open and a further \<^verbatim>\<open>Open\<close> of the path returns that same object.
\<close>

theorem repo_refcount:
  assumes "repo_inv w" "run_repo L ord w ops = (w', oks)"
  shows "repo_inv w' \<and> refs_of w' = fold (\<lambda>(op, ok). refs_step op ok) (zip ops oks) (refs_of w) \<and>
    (\<forall>path. 0 < refs_of w' path \<longrightarrow> isInitialized (w_fs w') path \<longrightarrow>
      (\<exists>rp. Store_fs rp w' \<noteq> None \<and> snd (Open_fs L ord w' path) = Inr rp))"
proof -
  have r: "repo_inv w' \<and> refs_of w' = fold (\<lambda>(op, ok). refs_step op ok) (zip ops oks) (refs_of w)"
    by (rule run_repo_refines [OF assms])
  moreover have "\<exists>rp. Store_fs rp w' \<noteq> None \<and> snd (Open_fs L ord w' path) = Inr rp"
    if "0 < refs_of w' path" "isInitialized (w_fs w') path" for path
    using held_path_open [of w' path L ord] r that by blast
  ultimately show ?thesis by blast
qed


section \<open>The configuration on disk\<close>

lemma open_reads_config:
  assumes "read_file (w_fs w) (configPath path) = Inr buf" "Reader c = Inr buf" "wf_config c"
    and "map_of (w_active w) path = None" "Open_fs L ord w path = (w', Inr rp)"
  obtains c' where "Config_fs rp w' = c'" "wf_config c'" "doc_of c' = doc_of c"
    "\<And>k. Exists c' k = Exists c k" "\<And>k. IsSet c' k = IsSet c k"
proof -
  have m: "Marshal (GMap c) = Some buf" using assms(2) by (simp add: Reader_Inr)
  show ?thesis
  proof (rule reload_decoded [OF assms(3) m])
    fix c'
    assume c': "Unmarshal decode_any_map buf [] = (True, c')" "wf_config c'" "doc_of c' = doc_of c"
      "\<And>k. Exists c' k = Exists c k" "\<And>k. IsSet c' k = IsSet c k"
    have f: "FromFile (w_fs w) (configPath path) = Inr c'" by (rule FromFile_read [OF assms(1) c'(1)])
    from assms(4,5) obtain w1 where o: "open_repo L ord w path = (w1, Inr rp)"
      and w': "w_objs w' = w_objs w1"
      by (auto simp: Open_fs_def opener_Open_def split: if_splits prod.splits sum.splits)
    from o have "Config_fs rp w' = c'"
    proof (cases rule: open_repo_cases)
      case (opened cfg ds kv)
      from opened(2) f have "cfg = c'" by (simp add: openConfig_def split: if_splits)
      with opened w' show ?thesis by (simp add: Config_fs_def)
    qed simp
    then show ?thesis by (rule that) (rule c')+
  qed
qed

lemma plain_names [simp]: "plain_comp ''datastore''" "plain_comp ''config.json''"
  by (simp_all add: plain_comp_def)

lemma resolve_repo_paths:
  "resolve (configPath path) = (fst (resolve path), snd (resolve path) @ [''config.json''])"
  "resolve (datastorePath path) = (fst (resolve path), snd (resolve path) @ [''datastore''])"
  by (simp_all add: configPath_def datastorePath_def resolve_Join)

lemma read_file_exists: "read_file fs s = Inr c \<Longrightarrow> Exists_path fs s"
  by (auto simp: read_file_def Exists_path_def split: stat_result.splits)

lemma WriteToFile_other_exists:
  assumes "WriteToFile fs buf f = (fs', None)" "resolve f \<notin> set (ancestors (resolve s) @ [resolve s])"
  shows "Exists_path fs' s = Exists_path fs s"
proof -
  have n: "node_at fs' q = node_at fs q" if "q \<in> set (ancestors (resolve s) @ [resolve s])" for q
    using WriteToFile_ok(2) [OF assms(1)] assms(2) that by metis
  have l: "list_ex (\<lambda>q. P (node_at fs' q)) (ancestors (resolve s)) = list_ex (\<lambda>q. P (node_at fs q)) (ancestors (resolve s))" for P
    using n by (intro list_ex_cong) auto
  have "stat fs' s = stat fs s"
    using WriteToFile_ok(3) [OF assms(1)] l [of is_file] l [of "\<lambda>n. n = None"] n [of "resolve s"]
    by (simp add: stat_def Let_def)
  then show ?thesis by (simp add: Exists_path_def)
qed

lemma config_not_above_datastore:
  "resolve (configPath path) \<notin> set (ancestors (resolve (datastorePath path)) @ [resolve (datastorePath path)])"
  unfolding resolve_repo_paths by (auto simp: ancestors_def dest: arg_cong [of _ _ length])

definition sample_fs :: filesys where
  "sample_fs = empty_fs\<lparr>fs_nodes := [(False, [''r'']) \<mapsto> DirNode,
     (False, [''r'', ''config.json'']) \<mapsto> FileNode ''{}'', (False, [''r'', ''datastore'']) \<mapsto> DirNode]\<rparr>"

lemma sample_fs_init: "isInitialized sample_fs ''r''"
proof -
  have r: "resolve (configPath ''r'') = (False, [''r'', ''config.json''])"
    unfolding resolve_repo_paths by (simp add: resolve_def is_rooted_def push_comp_def)
  have "configPath ''r'' \<noteq> []" by (simp add: configPath_def)
  then show ?thesis
    by (simp add: isInitialized_def Exists_path_def stat_def r ancestors_def sample_fs_def empty_fs_def
        node_at_def is_file_def upt_rec)
qed

definition sample_world :: "(nat set \<times> nat) repo_world" where
  "sample_world = \<lparr>w_fs = sample_fs, w_ds = ({7, 8}, 9),
     w_objs = [0 \<mapsto> \<lparr>r_path = ''r'', r_cfg = [], r_rootDS = Some \<lparr>md_Batching = 7, md_mnts = []\<rparr>, r_kvStore = Some 8\<rparr>],
     w_next = 1, w_active = [(''r'', \<lparr>ar_Active = 0, ar_RefCnt = 1\<rparr>)]\<rparr>"

lemma sample_world_inv: "repo_inv sample_world"
  by (auto simp: repo_inv_def sample_world_def active_ok_def wf_gomap_def split: if_splits)

theorem repo_refcount_witness:
  "refs_of (fst (run_repo sample_dslib rev sample_world [ROpen ''r'', RClose ''r''])) ''r'' = 1"
proof -
  let ?ops = "[ROpen ''r'', RClose ''r'']"
  have "snd (run_repo sample_dslib rev sample_world ?ops) = [True, True]"
    using sample_fs_init
    by (simp add: exec_repo_def Open_fs_def opener_Open_def sample_world_def)
  then obtain w' where run: "run_repo sample_dslib rev sample_world ?ops = (w', [True, True])"
    by (metis prod.collapse)
  from repo_refcount [OF sample_world_inv run] run show ?thesis
    by (simp add: refs_of_def sample_world_def)
qed


section \<open>A new repository\<close>

lemma Init_ok:
  assumes "Init kl fs path c = (fs', c', None)"
  obtains fs1 buf where "\<not> isInitialized fs path" "initRepo fs path = (fs1, None)" "Reader c' = Inr buf"
    "WriteToFile fs1 buf (configPath path) = (fs', None)"
    "(if fst (Get decode_any_map c ''Identity'' []) then c' = c else initIdentity kl c = (c', None))"
  using assms by (auto simp: Init_def split: if_splits prod.splits option.splits sum.splits)

lemma initIdentity_ok:
  assumes "initIdentity kl c = (c', None)"
  obtains key ident where "GenerateKeyPair kl = Inr key" "identity_entries kl key = Inr ident"
    "c' = Set c ''Identity'' (GMap ident)"
  using assms by (auto simp: initIdentity_def split: sum.splits)

lemma Init_config:
  assumes "Init kl fs path c = (fs', c', None)" "wf_config c"
  obtains (given) "fst (Get decode_any_map c ''Identity'' [])" "c' = c"
  | (made) key ident where "\<not> fst (Get decode_any_map c ''Identity'' [])" "GenerateKeyPair kl = Inr key"
      "identity_entries kl key = Inr ident" "c' = Set c ''Identity'' (GMap ident)" "wf_config c'"
proof (cases "fst (Get decode_any_map c ''Identity'' [])")
  case True
  with assms(1) given show ?thesis by (auto elim: Init_ok)
next
  case False
  with assms(1) have "initIdentity kl c = (c', None)" by (auto elim: Init_ok)
  then show ?thesis
  proof (rule initIdentity_ok)
    fix key ident
    assume i: "GenerateKeyPair kl = Inr key" "identity_entries kl key = Inr ident" "c' = Set c ''Identity'' (GMap ident)"
    have "wf_config c'" unfolding i(3) by (rule wf_config_Set [OF assms(2) wf_identity_entries [OF i(2)]])
    with False i made show ?thesis by blast
  qed
qed

lemma Init_paths:
  assumes "Init kl fs path c = (fs', c', None)"
  shows "\<exists>buf. Reader c' = Inr buf \<and> read_file fs' (configPath path) = Inr buf"
    and "Exists_path fs' (datastorePath path)" "isInitialized fs' path"
proof -
  obtain fs1 buf where i: "initRepo fs path = (fs1, None)" "Reader c' = Inr buf"
    "WriteToFile fs1 buf (configPath path) = (fs', None)"
    using assms by (rule Init_ok)
  have r: "read_file fs' (configPath path) = Inr buf" by (rule WriteToFile_ok(1) [OF i(3)])
  with i(2) show "\<exists>buf. Reader c' = Inr buf \<and> read_file fs' (configPath path) = Inr buf" by blast
  show "isInitialized fs' path" unfolding isInitialized_def by (rule read_file_exists [OF r])
  from i(1) obtain fs0 where "MkdirIfNotExists fs0 (datastorePath path) = (fs1, None)"
    by (auto simp: initRepo_def split: prod.splits option.splits)
  from MkdirIfNotExists_ok(1) [OF this] show "Exists_path fs' (datastorePath path)"
    using WriteToFile_other_exists [OF i(3) config_not_above_datastore] by simp
qed

lemma open_has_datastore:
  assumes "Exists_path (w_fs w) (datastorePath path)" "map_of (w_active w) path = None"
    and "Open_fs L ord w path = (w', Inr rp)"
  shows "Datastore_fs rp w' \<noteq> None"
  using assms
  by (auto simp: Open_fs_def opener_Open_def open_repo_def openDatastore_def Datastore_fs_def
      split: if_splits prod.splits sum.splits)

text \<open>
  C9: a repository that \<^verbatim>\<open>Init\<close> created opens with the configuration it was given. The
  configuration of the opened repository answers every \<^verbatim>\<open>Get\<close>, \<^verbatim>\<open>Exists\<close> and \<^verbatim>\<open>IsSet\<close> like the one
  handed to \<^verbatim>\<open>Init\<close>, completed by an identity if it had none; the identity that was made is
  found by the node again; the datastore is mounted; and a second \<^verbatim>\<open>Init\<close> is refused.
\<close>

theorem init_then_open:
  assumes "Init kl fs path c = (fs', c', None)" "wf_config c" "key_library kl"
    and "w_fs w = fs'" "map_of (w_active w) path = None" "Open_fs L ord w path = (w', Inr rp)"
  shows "(\<forall>k val. Get dec (Config_fs rp w') k val = Get dec c' k val) \<and>
    (\<forall>k. Exists (Config_fs rp w') k = Exists c' k \<and> IsSet (Config_fs rp w') k = IsSet c' k) \<and>
    (\<forall>k. k \<noteq> ''Identity'' \<longrightarrow> doc_of c' k = doc_of c k) \<and>
    (if fst (Get decode_any_map c ''Identity'' []) then c' = c
     else \<exists>key. GenerateKeyPair kl = Inr key \<and> Identity kl (Config_fs rp w') = Ret (Inr key)) \<and>
    Datastore_fs rp w' \<noteq> None \<and>
    Init kl fs' path c2 = (fs', c2, Some (ErrorString ''already initialized''))"
proof -
  obtain buf where t: "Reader c' = Inr buf" "read_file fs' (configPath path) = Inr buf"
    using Init_paths(1) [OF assms(1)] by blast
  have wf': "wf_config c'" by (rule Init_config [OF assms(1,2)]) (use assms(2) in auto)
  let ?c = "Config_fs rp w'"
  have cfg: "wf_config ?c \<and> doc_of ?c = doc_of c' \<and> (\<forall>k. Exists ?c k = Exists c' k) \<and> (\<forall>k. IsSet ?c k = IsSet c' k)"
    by (rule open_reads_config [OF _ t(1) wf' assms(5,6)]) (use t(2) assms(4) in simp_all)
  have id: "if fst (Get decode_any_map c ''Identity'' []) then c' = c
     else \<exists>key. GenerateKeyPair kl = Inr key \<and> Identity kl ?c = Ret (Inr key)"
  proof (rule Init_config [OF assms(1,2)])
    fix key ident
    assume m: "\<not> fst (Get decode_any_map c ''Identity'' [])" "GenerateKeyPair kl = Inr key"
      "identity_entries kl key = Inr ident" "c' = Set c ''Identity'' (GMap ident)"
    have "doc_of ?c ''Identity'' = marshal (GMap ident)"
      using cfg m(4) by (simp add: doc_of_Set del: marshal.simps)
    with Identity_of_doc [OF assms(3) m(3)] cfg m(1,2) show ?thesis by (simp del: marshal.simps)
  qed simp
  have other: "\<forall>k. k \<noteq> ''Identity'' \<longrightarrow> doc_of c' k = doc_of c k"
    by (rule Init_config [OF assms(1,2)]) (simp_all add: doc_of_Set)
  have "Datastore_fs rp w' \<noteq> None"
    by (rule open_has_datastore [OF _ assms(5,6)]) (use Init_paths(2) [OF assms(1)] assms(4) in simp)
  moreover have "Init kl fs' path c2 = (fs', c2, Some (ErrorString ''already initialized''))"
    using Init_paths(3) [OF assms(1)] by (simp add: Init_def)
  ultimately show ?thesis using cfg id other wf' by (simp add: Get_doc_of)
qed

text \<open>A repository whose saved configuration asks for no mounts opens.\<close>

lemma open_without_mounts:
  assumes "read_file (w_fs w) (configPath path) = Inr buf" "Reader c = Inr buf" "wf_config c"
    and "doc_of c ''Mounts'' = Some (JObj [])" "Exists_path (w_fs w) (datastorePath path)"
    and "map_of (w_active w) path = None"
  shows "\<exists>w' rp. Open_fs L (\<lambda>m. m) w path = (w', Inr rp)"
proof -
  have m: "Marshal (GMap c) = Some buf" using assms(2) by (simp add: Reader_Inr)
  have ex: "Exists_path (w_fs w) (configPath path)" by (rule read_file_exists [OF assms(1)])
  show ?thesis
  proof (rule reload_decoded [OF assms(3) m])
    fix cfg
    assume cfg: "Unmarshal decode_any_map buf [] = (True, cfg)" "wf_config cfg" "doc_of cfg = doc_of c"
    have "openConfig (w_fs w) path = Inr cfg"
      using FromFile_read [OF assms(1) cfg(1)] ex by (simp add: openConfig_def)
    moreover have "mount_config cfg = []"
      using assms(4) cfg(3) by (simp add: mount_config_def Get_doc_of [OF cfg(2)] decode_map_def)
    ultimately show ?thesis
      using assms(5,6) ex
      by (simp add: Open_fs_def isInitialized_def opener_Open_def open_repo_def openDatastore_def
          openDatastoreFromCfg_def split: prod.splits)
  qed
qed

definition sample_repo_config :: JsonConfig where
  "sample_repo_config = [(''Mounts'', GMap [])]"

definition sample_init :: "filesys \<times> JsonConfig \<times> goerror option" where
  "sample_init = Init sample_keylib empty_fs ''r'' sample_repo_config"

text \<open>In an empty file tree every configuration that can be encoded is accepted.\<close>

lemma Init_empty_fs:
  assumes "\<not> fst (Get decode_any_map c ''Identity'' [])" "initIdentity kl c = (c', None)" "Reader c' = Inr buf"
  shows "\<not> isInitialized empty_fs ''r''" "\<exists>fs'. Init kl empty_fs ''r'' c = (fs', c', None)"
proof -
  have r: "resolve (configPath ''r'') = (False, [''r'', ''config.json''])"
    "resolve (datastorePath ''r'') = (False, [''r'', ''datastore''])" "resolve ''r'' = (False, [''r''])"
    unfolding resolve_repo_paths by (simp_all add: resolve_def is_rooted_def push_comp_def)
  have n: "configPath ''r'' \<noteq> []" "datastorePath ''r'' \<noteq> []"
    by (simp_all add: configPath_def datastorePath_def)
  have i: "initRepo empty_fs ''r'' = (empty_fs\<lparr>fs_nodes := [(False, [''r'']) \<mapsto> DirNode,
      (False, [''r'', ''datastore'']) \<mapsto> DirNode]\<rparr>, None)"
    using n by (simp add: initRepo_def MkdirIfNotExists_def Exists_path_def stat_def r ancestors_def
        empty_fs_def node_at_def MkdirAll_def mkdir_one_def upt_rec is_file_def)
  show ni: "\<not> isInitialized empty_fs ''r''"
    using n by (simp add: isInitialized_def Exists_path_def stat_def r ancestors_def empty_fs_def node_at_def upt_rec is_file_def)
  obtain fs2 where "WriteToFile (empty_fs\<lparr>fs_nodes := [(False, [''r'']) \<mapsto> DirNode,
      (False, [''r'', ''datastore'']) \<mapsto> DirNode]\<rparr>) buf (configPath ''r'') = (fs2, None)"
    using n by (simp add: WriteToFile_def create_file_def copy_to_def r ancestors_def empty_fs_def node_at_def upt_rec)
  with i ni assms show "\<exists>fs'. Init kl empty_fs ''r'' c = (fs', c', None)" by (simp add: Init_def)
qed

lemma sample_init_ok: "\<exists>fs' c'. sample_init = (fs', c', None)"
proof -
  have "\<not> fst (Get decode_any_map sample_repo_config ''Identity'' [])"
    by (simp add: sample_repo_config_def Get_def)
  moreover obtain c' buf where "initIdentity sample_keylib sample_repo_config = (c', None)" "Reader c' = Inr buf"
    by (simp add: initIdentity_def sample_keylib_def identity_entries_def sample_repo_config_def Set_def
        Reader_def Marshal_def del: b64_encode.simps)
  ultimately show ?thesis unfolding sample_init_def using Init_empty_fs(2) by blast
qed

theorem init_then_open_witness:
  "\<exists>fs' c' w' rp. sample_init = (fs', c', None) \<and>
    Open_fs sample_dslib (\<lambda>m. m) (sample_world\<lparr>w_fs := fs', w_active := []\<rparr>) ''r'' = (w', Inr rp) \<and>
    Identity sample_keylib (Config_fs rp w') = Ret (Inr ''k'')"
proof -
  obtain fs' c' where i: "Init sample_keylib empty_fs ''r'' sample_repo_config = (fs', c', None)"
    using sample_init_ok unfolding sample_init_def by blast
  let ?w = "sample_world\<lparr>w_fs := fs', w_active := []\<rparr>"
  have wf: "wf_config sample_repo_config" by (simp add: sample_repo_config_def wf_config_def wf_gomap_def)
  have g: "\<not> fst (Get decode_any_map sample_repo_config ''Identity'' [])"
    by (simp add: sample_repo_config_def Get_def)
  have "wf_config c' \<and> doc_of c' ''Mounts'' = Some (JObj [])"
    by (rule Init_config [OF i wf]) (use g in \<open>simp_all add: doc_of_Set, simp add: doc_of_def sample_repo_config_def\<close>)
  then obtain w' rp where o: "Open_fs sample_dslib (\<lambda>m. m) ?w ''r'' = (w', Inr rp)"
    using open_without_mounts [of ?w "''r''" _ c' sample_dslib] Init_paths(1,2) [OF i] by auto
  have "\<exists>key. GenerateKeyPair sample_keylib = Inr key \<and> Identity sample_keylib (Config_fs rp w') = Ret (Inr key)"
    using init_then_open [OF i wf sample_keylib_ok _ _ o, where dec = decode_string and ?c2.0 = "[]"] g by simp
  with i o show ?thesis by (auto simp: sample_init_def sample_keylib_def)
qed

section \<open>Opening changes no file\<close>

text \<open>Making directories leaves every file readable and as it was, also when it fails half-way.\<close>

lemma mkdir_one_reads:
  assumes "read_file fs s = Inr c" "mkdir_one fs p = (fs', e)"
  shows "read_file fs' s = Inr c"
proof (cases "node_at fs p = None \<and> \<not> fs_denied fs p")
  case True
  then have ne: "snd p \<noteq> []" by (auto simp: node_at_def split: if_splits)
  from True assms(2) have fs': "fs' = fs\<lparr>fs_nodes := (fs_nodes fs)(p \<mapsto> DirNode)\<rparr>" by (simp add: mkdir_one_def)
  from assms(1) True have "resolve s \<noteq> p" by (auto simp: read_file_Inr_iff)
  with assms(1) show ?thesis
    by (auto simp: read_file_Inr_iff fs' node_at_upd [OF ne] reachable_path_def dir_chain_def list_all_iff)
next
  case False
  with assms show ?thesis by (auto simp: mkdir_one_def split: if_splits option.splits node.splits)
qed

lemma MkdirIfNotExists_reads:
  assumes "read_file fs s = Inr c" "MkdirIfNotExists fs path = (fs', e)"
  shows "read_file fs' s = Inr c"
proof (cases "Exists_path fs path \<or> path = []")
  case False
  with assms(2) have "each_until_error mkdir_one fs (ancestors (resolve path) @ [resolve path]) = (fs', e)"
    by (simp add: MkdirIfNotExists_def MkdirAll_def Let_def)
  then show ?thesis by (rule each_until_error_invariant [where I = "\<lambda>fs. read_file fs s = Inr c"])
      (use assms(1) mkdir_one_reads in blast)+
qed (use assms in \<open>auto simp: MkdirIfNotExists_def MkdirAll_def split: if_splits\<close>)

lemma open_mount_reads:
  assumes "read_file (os_fs st) s = Inr c" "open_mount L root st kv = (st', e)"
  shows "read_file (os_fs st') s = Inr c"
proof -
  have "read_file fs' s = Inr c" if "mount_path (os_fs st) root dCfg = (fs', r)" for fs' r dCfg
    using that MkdirIfNotExists_reads [OF assms(1)] assms(1)
    by (auto simp: mount_path_def split: option.splits prod.splits)
  with assms show ?thesis
    by (auto simp: open_mount_def Let_def split: option.splits prod.splits sum.splits)
qed

lemma openDatastore_reads:
  assumes "read_file fs s = Inr c" "openDatastore L ord fs d path cfg = (fs', d', r)"
  shows "read_file fs' s = Inr c"
proof (cases "Exists_path fs (datastorePath path)")
  case True
  obtain st e where l: "each_until_error (open_mount L path) \<lparr>os_fs = fs, os_ds = d, os_mnts = [], os_infos = []\<rparr>
      (ord (mount_config cfg)) = (st, e)" by fastforce
  have "read_file (os_fs st) s = Inr c"
    by (rule each_until_error_invariant [OF l, where I = "\<lambda>st. read_file (os_fs st) s = Inr c"])
      (use assms(1) open_mount_reads in auto)
  moreover from assms(2) l True have "fs' = os_fs st"
    by (auto simp: openDatastore_def openDatastoreFromCfg_def split: option.splits prod.splits sum.splits)
  ultimately show ?thesis by simp
next
  case False
  with assms MkdirIfNotExists_reads [OF assms(1)] show ?thesis
    by (auto simp: openDatastore_def split: prod.splits option.splits)
qed

lemma Open_fs_reads:
  assumes "read_file (w_fs w) s = Inr c" "Open_fs L ord w path = (w', r)"
  shows "read_file (w_fs w') s = Inr c"
  using assms openDatastore_reads [OF assms(1)]
  by (auto simp: Open_fs_def opener_Open_def open_repo_def split: if_splits option.splits prod.splits sum.splits)

section \<open>Changing the configuration\<close>

locale repo_config =
  fixes cfg_of :: "'r \<Rightarrow> JsonConfig"
    and set_cfg_of :: "'r \<Rightarrow> JsonConfig \<Rightarrow> 'r \<times> goerror option"
    and valid :: "'r \<Rightarrow> bool"
  assumes config_set: "valid r \<Longrightarrow> set_cfg_of r c = (r', e) \<Longrightarrow> cfg_of r' = c"
    and valid_set: "valid r \<Longrightarrow> set_cfg_of r c = (r', e) \<Longrightarrow> valid r'"
begin

text \<open>Changing one key: what a client reads afterwards, even if the change could not be saved.\<close>

lemma change_key:
  assumes "valid r" "wf_config (cfg_of r)" "wf_goval v" "set_cfg_of r (Set (cfg_of r) k v) = (r', e)"
  shows "Get dec (cfg_of r') k' val =
    (if k' = k then (case marshal v of None \<Rightarrow> (False, val) | Some j \<Rightarrow> dec val j) else Get dec (cfg_of r) k' val)"
  by (simp add: config_set [OF assms(1,4)] Get_Set [OF assms(2,3)])

lemma last_set_wins:
  assumes "valid r" "set_cfg_of r c1 = (r1, e1)" "set_cfg_of r1 c2 = (r2, e2)"
  shows "cfg_of r2 = c2 \<and> valid r2"
  using config_set [OF valid_set [OF assms(1,2)] assms(3)] valid_set [OF valid_set [OF assms(1,2)] assms(3)] by simp

end

interpretation fsr: repo_config "Config_fs rp" "SetConfig_fs rp" "\<lambda>w. w_objs w rp \<noteq> None" for rp
  by unfold_locales (auto simp: SetConfig_fs_def Config_fs_def Let_def split: sum.splits prod.splits)

text \<open>
  C29: what an opening finds after \<^verbatim>\<open>SetConfig\<close>. A successful \<^verbatim>\<open>SetConfig\<close> changes the configuration of the
  object it is called on and of no other. Suppose that since then neither the configuration
  file nor the object's configuration was written again. An opening of a path that is not open
  any more gets a configuration that answers every question as the one that was set. An opening of a
  path that is still held shares the object of its holders: it gets exactly the configuration
  that was set if that is the object \<^verbatim>\<open>SetConfig\<close> was called on; otherwise, when the path had been
  closed and opened again before, it gets the configuration of that later object.
\<close>

theorem set_config_persists:
  assumes "w_objs w rp = Some f" "SetConfig_fs rp w c = (w1, None)" "wf_config c"
    and "read_file (w_fs w2) (configPath (r_path f)) = read_file (w_fs w1) (configPath (r_path f))"
    and "Config_fs rp w2 = Config_fs rp w1" "Open_fs L ord w2 (r_path f) = (w3, Inr rp3)"
  shows "Config_fs rp w1 = c \<and> (\<forall>rp'. rp' \<noteq> rp \<longrightarrow> Config_fs rp' w1 = Config_fs rp' w) \<and>
    (case map_of (w_active w2) (r_path f) of
       None \<Rightarrow> (\<forall>k val. Get dec (Config_fs rp3 w3) k val = Get dec c k val) \<and>
         (\<forall>k. Exists (Config_fs rp3 w3) k = Exists c k \<and> IsSet (Config_fs rp3 w3) k = IsSet c k)
     | Some ar \<Rightarrow> rp3 = ar_Active ar \<and> Config_fs rp3 w3 = (if rp3 = rp then c else Config_fs rp3 w2))"
proof -
  from assms(1,2) obtain buf where b: "Reader c = Inr buf"
    "WriteToFile (w_fs w) buf (configPath (r_path f)) = (w_fs w1, None)" "w_objs w1 = (w_objs w)(rp \<mapsto> f\<lparr>r_cfg := c\<rparr>)"
    by (auto simp: SetConfig_fs_def Let_def split: sum.splits prod.splits)
  then have set: "Config_fs rp w1 = c" "\<forall>rp'. rp' \<noteq> rp \<longrightarrow> Config_fs rp' w1 = Config_fs rp' w" by (simp_all add: Config_fs_def)
  show ?thesis
  proof (cases "map_of (w_active w2) (r_path f)")
    case None
    have r: "read_file (w_fs w2) (configPath (r_path f)) = Inr buf"
      unfolding assms(4) by (rule WriteToFile_ok(1) [OF b(2)])
    let ?c = "Config_fs rp3 w3"
    have "wf_config ?c \<and> doc_of ?c = doc_of c \<and> (\<forall>k. Exists ?c k = Exists c k) \<and> (\<forall>k. IsSet ?c k = IsSet c k)"
      by (rule open_reads_config [OF r b(1) assms(3) None assms(6)]) simp_all
    with set None assms(3) show ?thesis by (simp add: Get_doc_of)
  next
    case (Some ar)
    with assms(6) have "w_objs w3 = w_objs w2" "rp3 = ar_Active ar"
      by (auto simp: Open_fs_def opener_Open_def split: if_splits)
    with Some set assms(5) show ?thesis by (simp add: Config_fs_def)
  qed
qed

theorem set_config_persists_witness:
  "\<exists>w1 w3 rp3. SetConfig_fs 0 sample_world [(''Mounts'', GMap []), (''TCPPort'', GInt 7)] = (w1, None) \<and>
    Open_fs sample_dslib (\<lambda>m. m) (w1\<lparr>w_active := []\<rparr>) ''r'' = (w3, Inr rp3) \<and>
    Get decode_int (Config_fs rp3 w3) ''TCPPort'' 0 = (True, 7)"
proof -
  let ?c = "[(''Mounts'', GMap []), (''TCPPort'', GInt 7)]"
  define f where "f = \<lparr>r_path = ''r'', r_cfg = [], r_rootDS = Some \<lparr>md_Batching = 7, md_mnts = []\<rparr>, r_kvStore = Some 8\<rparr>"
  have f: "w_objs sample_world 0 = Some f" "r_path f = ''r''" by (simp_all add: sample_world_def f_def)
  have wf: "wf_config ?c" by (simp add: wf_config_def wf_gomap_def safe_int_def)
  obtain buf where b: "Reader ?c = Inr buf" by (simp add: Reader_def Marshal_def)
  have r: "resolve (configPath ''r'') = (False, [''r'', ''config.json''])"
    unfolding resolve_repo_paths by (simp add: resolve_def is_rooted_def push_comp_def)
  have "configPath ''r'' \<noteq> []" by (simp add: configPath_def)
  then obtain fs' where w: "WriteToFile sample_fs buf (configPath ''r'') = (fs', None)"
    by (simp add: WriteToFile_def create_file_def copy_to_def r ancestors_def sample_fs_def empty_fs_def node_at_def upt_rec)
  then obtain w1 where s: "SetConfig_fs 0 sample_world ?c = (w1, None)" "w_fs w1 = fs'"
    using f b by (simp add: SetConfig_fs_def) (simp add: sample_world_def)
  have "Exists_path sample_fs (datastorePath ''r'')"
  proof -
    have rd: "resolve (datastorePath ''r'') = (False, [''r'', ''datastore''])" "datastorePath ''r'' \<noteq> []"
      unfolding resolve_repo_paths by (simp_all add: resolve_def is_rooted_def push_comp_def datastorePath_def)
    then show ?thesis
      by (simp add: Exists_path_def stat_def ancestors_def sample_fs_def empty_fs_def node_at_def is_file_def upt_rec)
  qed
  then have "Exists_path fs' (datastorePath ''r'')"
    using WriteToFile_other_exists [OF w config_not_above_datastore] by simp
  with open_without_mounts [of "w1\<lparr>w_active := []\<rparr>" "''r''" buf ?c sample_dslib] WriteToFile_ok(1) [OF w] s(2) b wf
  obtain w3 rp3 where o: "Open_fs sample_dslib (\<lambda>m. m) (w1\<lparr>w_active := []\<rparr>) ''r'' = (w3, Inr rp3)"
    by (auto simp: doc_of_def)
  have "Get decode_int (Config_fs rp3 w3) ''TCPPort'' 0 = Get decode_int ?c ''TCPPort'' 0"
    using set_config_persists [OF f(1) s(1) wf, of "w1\<lparr>w_active := []\<rparr>" sample_dslib "\<lambda>m. m" w3 rp3 decode_int] o f(2)
    by (simp add: Config_fs_def [of 0])
  also have "\<dots> = (True, 7)" by (simp add: Get_doc_of [OF wf] doc_of_def decode_int_def)
  finally show ?thesis using s o by blast
qed

end
