(* ===== verification/Inmem_Repo.thy ===== *)
theory Inmem_Repo
  imports Fs_Repo
begin

text \<open>
  \<^verbatim>\<open>modules/repo/inmem/inmem.go\<close>: the repository that lives in memory. It is the second instance
  of \<open>repo_config\<close>. Its \<^verbatim>\<open>initIdentity\<close> asks the configuration for an identity with a target that
  is not a pointer, so the question is never answered with yes.
\<close>

record inmemRepo =
  im_c :: JsonConfig
  im_ds :: nat
  im_st :: nat

definition initIdentity_mem :: "'k keylib \<Rightarrow> JsonConfig \<Rightarrow> JsonConfig \<times> goerror option" where
  "initIdentity_mem kl c =
     (if fst (Get decode_non_pointer c ''Identity'' ([] :: goval gomap)) then (c, None)
      else
        (case GenerateKeyPair kl of
           Inl err \<Rightarrow> (c, Some err)
         | Inr key \<Rightarrow>
             (case identity_entries kl key of
                Inl err \<Rightarrow> (c, Some err)
              | Inr ident \<Rightarrow> (Set c ''Identity'' (GMap ident), None))))"

text \<open>\<open>NewMapDatastore\<close> and \<open>store_New\<close> hand out the datastore and the store on top of it.\<close>

definition CreateOrOpen_mem ::
  "'k keylib \<Rightarrow> 'd dslib \<Rightarrow> ('d \<Rightarrow> 'd \<times> nat) \<Rightarrow> 'd \<Rightarrow> JsonConfig \<Rightarrow> 'd \<times> JsonConfig \<times> inmemRepo result" where
  "CreateOrOpen_mem kl L NewMapDatastore d c =
     (case initIdentity_mem kl c of
        (c', Some err) \<Rightarrow> (d, c', Inl err)
      | (c', None) \<Rightarrow>
          (case NewMapDatastore d of
             (d1, ds) \<Rightarrow>
               (case store_New L d1 (Some ds) of
                  (d2, st) \<Rightarrow> (d2, c', Inr \<lparr>im_c = c', im_ds = ds, im_st = st\<rparr>))))"

definition Config_mem :: "inmemRepo \<Rightarrow> JsonConfig" where
  "Config_mem i = im_c i"

definition SetConfig_mem :: "inmemRepo \<Rightarrow> JsonConfig \<Rightarrow> inmemRepo \<times> goerror option" where
  "SetConfig_mem i c = (i\<lparr>im_c := c\<rparr>, None)"

definition Datastore_mem :: "inmemRepo \<Rightarrow> nat" where
  "Datastore_mem i = im_ds i"

definition Store_mem :: "inmemRepo \<Rightarrow> nat" where
  "Store_mem i = im_st i"

text \<open>The errors of both closes are dropped.\<close>

definition Close_mem :: "'d dslib \<Rightarrow> 'd \<Rightarrow> inmemRepo \<Rightarrow> 'd \<times> goerror option" where
  "Close_mem L d i = (fst (ds_Close L (fst (ds_Close L d (im_ds i))) (im_st i)), None)"

definition Status_mem :: "inmemRepo \<Rightarrow> repo_status" where
  "Status_mem i = StatusText ''In-mem repository''"

interpretation imr: repo_config Config_mem SetConfig_mem "\<lambda>_. True"
  by unfold_locales (auto simp: Config_mem_def SetConfig_mem_def)

lemma Get_non_pointer: "fst (Get decode_non_pointer c k val) = False"
  by (simp add: Get_def Unmarshal_def decode_non_pointer_def split: option.splits)

text \<open>
  An in-memory repository always starts with a newly generated identity. Whatever
  identity the configuration held, the one made by this start replaces it; the node finds
  the new key, and every other entry is as it was.
\<close>

lemma inmem_identity_replaced:
  assumes "CreateOrOpen_mem kl L NewMap d c = (d', c', Inr r)" "wf_config c" "key_library kl"
  shows "\<exists>key. GenerateKeyPair kl = Inr key \<and> Identity kl (Config_mem r) = Ret (Inr key) \<and>
    Config_mem r = c' \<and> (\<forall>k val. k \<noteq> ''Identity'' \<longrightarrow> Get dec (Config_mem r) k val = Get dec c k val)"
proof -
  from assms(1) obtain key ident where k: "GenerateKeyPair kl = Inr key" "identity_entries kl key = Inr ident"
    "c' = Set c ''Identity'' (GMap ident)" "Config_mem r = c'"
    by (auto simp: CreateOrOpen_mem_def initIdentity_mem_def Get_non_pointer Config_mem_def
        split: prod.splits option.splits sum.splits)
  have wf: "wf_goval (GMap ident)" by (rule wf_identity_entries [OF k(2)])
  have wfc: "wf_config c'" unfolding k(3) by (rule wf_config_Set [OF assms(2) wf])
  have "doc_of c' ''Identity'' = marshal (GMap ident)" unfolding k(3) doc_of_Set by simp
  from Identity_of_doc [OF assms(3) k(2) wfc this] have "Identity kl c' = Ret (Inr key)" .
  moreover have "Get dec c' j val = Get dec c j val" if "j \<noteq> ''Identity''" for j val
    using that unfolding k(3) Get_Set [OF assms(2) wf] by simp
  ultimately show ?thesis using k by simp
qed

lemma inmem_identity_replaced_sample:
  "\<exists>d' c' r. CreateOrOpen_mem sample_keylib sample_dslib (\<lambda>d. (d, 1)) ({}, 0)
      [(''Identity'', GMap [(''PrivKey'', GStr ''mine'')])] = (d', c', Inr r) \<and>
    Identity sample_keylib (Config_mem r) = Ret (Inr ''k'')"
proof -
  let ?c = "[(''Identity'', GMap [(''PrivKey'', GStr ''mine'')])]"
  obtain d' c' r where o: "CreateOrOpen_mem sample_keylib sample_dslib (\<lambda>d. (d, 1)) ({}, 0) ?c = (d', c', Inr r)"
    by (simp add: CreateOrOpen_mem_def initIdentity_mem_def Get_non_pointer sample_keylib_def
        identity_entries_def sample_dslib_def del: b64_encode.simps)
  have wf: "wf_config ?c" by (simp add: wf_config_def wf_gomap_def)
  from inmem_identity_replaced [OF o wf sample_keylib_ok, where dec = decode_string] o show ?thesis
    by (auto simp: sample_keylib_def)
qed

text \<open>
  A client that changes one entry of a repository's configuration reads, in either kind
  of repository, the new value under that key and the old values under all others; on disk
  this holds in memory even if saving failed.
\<close>

lemma repo_change_key:
  assumes "w_objs w rp \<noteq> None" "wf_config (Config_fs rp w)" "wf_config (Config_mem i)" "wf_goval v"
    and "SetConfig_fs rp w (Set (Config_fs rp w) k v) = (w', e)"
    and "SetConfig_mem i (Set (Config_mem i) k v) = (i', e')" "marshal v = Some j"
  shows "Get dec (Config_fs rp w') k' val = (if k' = k then dec val j else Get dec (Config_fs rp w) k' val) \<and>
    Get dec (Config_mem i') k' val = (if k' = k then dec val j else Get dec (Config_mem i) k' val)"
  using fsr.change_key [OF assms(1,2,4,5), of dec k' val]
    imr.change_key [OF TrueI assms(3,4,6), of dec k' val] assms(7) by simp

end
