(* ===== verification/Acl_Manager.thy ===== *)
theory Acl_Manager
  imports Json_Config "HOL-Library.Multiset"
begin

text \<open>
  \<^verbatim>\<open>modules/auth/aclManager.go\<close>: which role a resource asks for. The manager keeps its entries
  in a key-value store (\<^verbatim>\<open>gkvstore\<close>, third party): a record of the three calls the manager
  makes is an argument of every operation, and \<open>acl_store_ok\<close> names what the manager relies
  on (a read sees the last successful update or delete of its key). An abstract policy, a
  map from resources to required levels, is refined by the operations.

  The locale \<open>acl_interface\<close> is the interface \<^verbatim>\<open>auth.ACL\<close> as the middlewares use it; the
  manager is its instance, whatever the store answers.
\<close>

section \<open>Roles and entries\<close>

type_synonym Role = string

definition RoleNone :: Role where "RoleNone = ''none''"
definition PublicRead :: Role where "PublicRead = ''public_read''"
definition PublicWrite :: Role where "PublicWrite = ''public_write''"
definition AuthRead :: Role where "AuthRead = ''authenticated_read''"
definition AuthWrite :: Role where "AuthWrite = ''authenticated_write''"
definition Admin :: Role where "Admin = ''admin''"

definition noRole :: int where "noRole = 0"
definition pubRead :: int where "pubRead = 1"
definition pubWrite :: int where "pubWrite = 2"
definition authRead :: int where "authRead = 3"
definition authWrite :: int where "authWrite = 4"
definition admin :: int where "admin = 5"

lemmas role_defs = RoleNone_def PublicRead_def PublicWrite_def AuthRead_def AuthWrite_def Admin_def
lemmas level_defs = noRole_def pubRead_def pubWrite_def authRead_def authWrite_def admin_def

definition aclMap :: "Role \<Rightarrow> int option" where
  "aclMap r = map_of [(RoleNone, noRole), (PublicRead, pubRead), (PublicWrite, pubWrite),
     (AuthRead, authRead), (AuthWrite, authWrite), (Admin, admin)] r"

text \<open>A missing key of a Go map reads as the zero value, here the empty string.\<close>

definition raclMap :: "int \<Rightarrow> Role" where
  "raclMap i =
     (case map_of [(noRole, RoleNone), (pubRead, PublicRead), (pubWrite, PublicWrite),
        (authRead, AuthRead), (authWrite, AuthWrite), (admin, Admin)] i of
        Some r \<Rightarrow> r | None \<Rightarrow> [])"

record Acl =
  acl_Key :: string
  acl_Roles :: int

definition GetID :: "Acl \<Rightarrow> string" where
  "GetID m = acl_Key m"

definition GetNamespace :: "Acl \<Rightarrow> string" where
  "GetNamespace m = ''acl''"

definition Acl_Marshal :: "Acl \<Rightarrow> string" where
  "Acl_Marshal m = print_json (JObj [(''Key'', JStr (acl_Key m)), (''Roles'', JNum (acl_Roles m))])"

text \<open>Decoding into a struct: object keys select fields without regard to case, other keys are
  skipped, \<^verbatim>\<open>null\<close> changes nothing.\<close>

definition decode_acl_field :: "string \<times> json \<Rightarrow> bool \<times> Acl \<Rightarrow> bool \<times> Acl" where
  "decode_acl_field kv st =
     (if equal_fold (fst kv) ''Key'' then
        (let (ok, v) = decode_string (acl_Key (snd st)) (snd kv)
         in (fst st \<and> ok, (snd st)\<lparr>acl_Key := v\<rparr>))
      else if equal_fold (fst kv) ''Roles'' then
        (let (ok, v) = decode_int (acl_Roles (snd st)) (snd kv)
         in (fst st \<and> ok, (snd st)\<lparr>acl_Roles := v\<rparr>))
      else st)"

definition decode_acl :: "Acl decoder" where
  "decode_acl m j =
     (case j of
        JObj kvs \<Rightarrow> fold decode_acl_field kvs (True, m)
      | JNull \<Rightarrow> (True, m)
      | _ \<Rightarrow> (False, m))"

definition Acl_Unmarshal :: "Acl \<Rightarrow> string \<Rightarrow> bool \<times> Acl" where
  "Acl_Unmarshal m b = Unmarshal decode_acl b m"

section \<open>The manager\<close>

text \<open>The store's calls for ACL entries: \<^verbatim>\<open>Read\<close> fills the entry it is given.\<close>

record 's acl_store =
  st_Read :: "'s \<Rightarrow> Acl \<Rightarrow> Acl result"
  st_Update :: "'s \<Rightarrow> Acl \<Rightarrow> 's \<times> goerror option"
  st_Delete :: "'s \<Rightarrow> Acl \<Rightarrow> 's \<times> goerror option"

definition Configure :: "'s acl_store \<Rightarrow> 's \<Rightarrow> string \<Rightarrow> Role \<Rightarrow> 's \<times> goerror option" where
  "Configure S st rsc role =
     (case aclMap role of
        None \<Rightarrow> (st, Some (ErrorString ''Invalid Role''))
      | Some r \<Rightarrow> st_Update S st \<lparr>acl_Key = rsc, acl_Roles = r\<rparr>)"

definition Delete :: "'s acl_store \<Rightarrow> 's \<Rightarrow> string \<Rightarrow> 's \<times> goerror option" where
  "Delete S st rsc = st_Delete S st \<lparr>acl_Key = rsc, acl_Roles = 0\<rparr>"

definition Authorized :: "'s acl_store \<Rightarrow> 's \<Rightarrow> string \<Rightarrow> Role \<Rightarrow> bool" where
  "Authorized S st rsc role =
     (case st_Read S st \<lparr>acl_Key = rsc, acl_Roles = 0\<rparr> of
        Inl err \<Rightarrow> True
      | Inr nacl \<Rightarrow>
          (case aclMap role of
             None \<Rightarrow> False
           | Some r \<Rightarrow> r \<ge> acl_Roles nacl))"

text \<open>The loop \<^verbatim>\<open>for i := admin; i >= nacl.Roles; i--\<close> visits the levels from the top down.\<close>

definition Allowed :: "'s acl_store \<Rightarrow> 's \<Rightarrow> string \<Rightarrow> Role list" where
  "Allowed S st rsc =
     (case st_Read S st \<lparr>acl_Key = rsc, acl_Roles = 0\<rparr> of
        Inl err \<Rightarrow> [RoleNone, PublicRead, PublicWrite, AuthRead, AuthWrite, Admin]
      | Inr nacl \<Rightarrow> map raclMap (rev [acl_Roles nacl..admin]))"

text \<open>
  \<^verbatim>\<open>NewAclManager\<close>: the store is the shared one when a provider exists, the repository's
  otherwise; then every entry of the configuration's \<^verbatim>\<open>ACL\<close> map is configured, in the order
  \<open>ord\<close> in which \<^verbatim>\<open>range\<close> happens to visit it.
\<close>

definition NewAclManager ::
  "'s acl_store \<Rightarrow> (string gomap \<Rightarrow> string gomap) \<Rightarrow> JsonConfig \<Rightarrow> 's \<Rightarrow> 's result option \<Rightarrow> 's result" where
  "NewAclManager S ord cfg repo_store shared =
     (case (case shared of Some r \<Rightarrow> r | None \<Rightarrow> Inr repo_store) of
        Inl err \<Rightarrow> Inl err
      | Inr st \<Rightarrow>
          (case Get decode_str_map cfg ''ACL'' [] of
             (False, _) \<Rightarrow> Inr st
           | (True, acls) \<Rightarrow>
               (case each_until_error (\<lambda>st kv. Configure S st (fst kv) (snd kv)) st (ord acls) of
                  (st', None) \<Rightarrow> Inr st'
                | (st', Some err) \<Rightarrow> Inl err)))"

section \<open>Levels\<close>

definition valid_role :: "Role \<Rightarrow> bool" where
  "valid_role r = (aclMap r \<noteq> None)"

lemma aclMap_range: "aclMap r = Some l \<Longrightarrow> noRole \<le> l \<and> l \<le> admin"
  by (auto simp: aclMap_def role_defs level_defs split: if_splits)

lemma raclMap_aclMap: "aclMap r = Some l \<Longrightarrow> raclMap l = r"
  by (auto simp: aclMap_def raclMap_def role_defs level_defs split: if_splits)

lemma aclMap_raclMap: "noRole \<le> l \<Longrightarrow> l \<le> admin \<Longrightarrow> aclMap (raclMap l) = Some l"
proof -
  assume "noRole \<le> l" "l \<le> admin"
  then have "l \<in> {0, 1, 2, 3, 4, 5}" by (auto simp: level_defs)
  then show ?thesis by (auto simp: aclMap_def raclMap_def role_defs level_defs)
qed

lemma raclMap_outside: "l < noRole \<Longrightarrow> raclMap l = []"
  by (auto simp: raclMap_def level_defs)

lemma aclMap_empty: "aclMap [] = None"
  by (simp add: aclMap_def role_defs)

section \<open>The abstract policy\<close>

text \<open>A policy gives some resources the level they ask for. A resource without a level is open.\<close>

type_synonym policy = "string \<Rightarrow> int option"

definition policy_allows :: "policy \<Rightarrow> string \<Rightarrow> Role \<Rightarrow> bool" where
  "policy_allows P rsc role =
     (case P rsc of
        None \<Rightarrow> True
      | Some need \<Rightarrow> (case aclMap role of None \<Rightarrow> False | Some l \<Rightarrow> need \<le> l))"

definition policy_of :: "'s acl_store \<Rightarrow> 's \<Rightarrow> policy" where
  "policy_of S st rsc =
     (case st_Read S st \<lparr>acl_Key = rsc, acl_Roles = 0\<rparr> of Inl _ \<Rightarrow> None | Inr a \<Rightarrow> Some (acl_Roles a))"

lemma Authorized_policy: "Authorized S st rsc role = policy_allows (policy_of S st) rsc role"
  by (simp add: Authorized_def policy_allows_def policy_of_def split: sum.splits option.splits)

lemma Allowed_policy:
  "Allowed S st rsc =
    (case policy_of S st rsc of
       None \<Rightarrow> [RoleNone, PublicRead, PublicWrite, AuthRead, AuthWrite, Admin]
     | Some need \<Rightarrow> map raclMap (rev [need..admin]))"
  by (simp add: Allowed_def policy_of_def split: sum.splits)

lemma all_roles: "valid_role r \<longleftrightarrow> r \<in> {RoleNone, PublicRead, PublicWrite, AuthRead, AuthWrite, Admin}"
  by (auto simp: valid_role_def aclMap_def)

text \<open>The list \<^verbatim>\<open>Allowed\<close> returns is the set of roles \<^verbatim>\<open>Authorized\<close> accepts.\<close>

lemma Allowed_iff_policy:
  assumes "valid_role r"
  shows "r \<in> set (Allowed S st rsc) \<longleftrightarrow> policy_allows (policy_of S st) rsc r"
proof (cases "policy_of S st rsc")
  case None
  with assms all_roles show ?thesis by (auto simp: Allowed_policy policy_allows_def)
next
  case (Some need)
  from assms obtain l where l: "aclMap r = Some l" by (auto simp: valid_role_def)
  have "r \<in> raclMap ` {need..admin} \<longleftrightarrow> need \<le> l"
  proof
    assume "r \<in> raclMap ` {need..admin}"
    then obtain i where i: "need \<le> i" "i \<le> admin" "r = raclMap i" by auto
    have "noRole \<le> i"
    proof (rule ccontr)
      assume "\<not> noRole \<le> i"
      then have "r = []" using i(3) raclMap_outside by simp
      with l show False by (simp add: aclMap_empty)
    qed
    with i l aclMap_raclMap show "need \<le> l" by simp
  next
    assume "need \<le> l"
    with aclMap_range [OF l] raclMap_aclMap [OF l] show "r \<in> raclMap ` {need..admin}" by force
  qed
  with Some l show ?thesis by (simp add: Allowed_policy policy_allows_def)
qed

lemma policy_allows_mono:
  "policy_allows P rsc r \<Longrightarrow> aclMap r = Some l \<Longrightarrow> aclMap r' = Some l' \<Longrightarrow> l \<le> l' \<Longrightarrow> policy_allows P rsc r'"
  by (auto simp: policy_allows_def split: option.splits)

lemma closed_Allowed_valid:
  assumes "RoleNone \<notin> set (Allowed S st rsc)" "r \<in> set (Allowed S st rsc)"
  shows "valid_role r"
proof (cases "policy_of S st rsc")
  case (Some need)
  have "noRole < need"
  proof (rule ccontr)
    assume "\<not> noRole < need"
    then have "noRole \<in> {need..admin}" by (simp add: level_defs)
    then have "raclMap noRole \<in> set (Allowed S st rsc)" using Some by (simp add: Allowed_policy)
    with assms(1) show False by (simp add: raclMap_def)
  qed
  moreover from assms(2) Some obtain i where "need \<le> i" "i \<le> admin" "r = raclMap i"
    by (auto simp: Allowed_policy)
  ultimately show ?thesis using aclMap_raclMap [of i] by (simp add: valid_role_def)
qed (use assms in \<open>simp add: Allowed_policy\<close>)

section \<open>What the manager relies on\<close>

text \<open>A read fills the entry with the last value stored under its key and fails when there is none.
  Nothing is said about calls that return an error. \<open>acl_int\<close> is the range of Go's \<^verbatim>\<open>int\<close>.\<close>

definition acl_int :: "Acl \<Rightarrow> bool" where
  "acl_int a = (- (2 ^ 63) \<le> acl_Roles a \<and> acl_Roles a < 2 ^ 63)"

definition acl_store_ok :: "'s acl_store \<Rightarrow> bool" where
  "acl_store_ok S \<longleftrightarrow>
     (\<forall>st a st'. acl_int a \<longrightarrow> st_Update S st a = (st', None) \<longrightarrow>
        (\<forall>k. st_Read S st' \<lparr>acl_Key = k, acl_Roles = 0\<rparr> =
          (if k = GetID a then Inr a else st_Read S st \<lparr>acl_Key = k, acl_Roles = 0\<rparr>))) \<and>
     (\<forall>st a st'. st_Delete S st a = (st', None) \<longrightarrow>
        (\<exists>e. st_Read S st' \<lparr>acl_Key = GetID a, acl_Roles = 0\<rparr> = Inl e) \<and>
        (\<forall>k. k \<noteq> GetID a \<longrightarrow>
          st_Read S st' \<lparr>acl_Key = k, acl_Roles = 0\<rparr> = st_Read S st \<lparr>acl_Key = k, acl_Roles = 0\<rparr>))"

lemma policy_of_Update:
  "acl_store_ok S \<Longrightarrow> acl_int a \<Longrightarrow> st_Update S st a = (st', None) \<Longrightarrow>
    policy_of S st' = (policy_of S st)(GetID a \<mapsto> acl_Roles a)"
  by (rule ext) (simp add: acl_store_ok_def policy_of_def)

lemma policy_of_Delete:
  "acl_store_ok S \<Longrightarrow> st_Delete S st a = (st', None) \<Longrightarrow>
    policy_of S st' = (policy_of S st)(GetID a := None)"
  by (rule ext) (force simp: acl_store_ok_def policy_of_def)

lemma Configure_policy:
  assumes "acl_store_ok S" "Configure S st rsc role = (st', None)"
  obtains l where "aclMap role = Some l" "policy_of S st' = (policy_of S st)(rsc \<mapsto> l)"
proof (cases "aclMap role")
  case (Some l)
  with assms(2) have "st_Update S st \<lparr>acl_Key = rsc, acl_Roles = l\<rparr> = (st', None)"
    by (simp add: Configure_def)
  from policy_of_Update [OF assms(1) _ this] that [OF Some] aclMap_range [OF Some] show ?thesis
    by (simp add: GetID_def acl_int_def level_defs)
qed (use assms(2) in \<open>simp add: Configure_def\<close>)

lemma Configure_invalid:
  "\<not> valid_role role \<Longrightarrow> Configure S st rsc role = (st, Some (ErrorString ''Invalid Role''))"
  by (simp add: Configure_def valid_role_def)

lemma Delete_policy:
  "acl_store_ok S \<Longrightarrow> Delete S st rsc = (st', None) \<Longrightarrow> policy_of S st' = (policy_of S st)(rsc := None)"
  unfolding Delete_def by (drule (1) policy_of_Delete) (simp add: GetID_def)

section \<open>The interface the middlewares use\<close>

locale acl_interface =
  fixes authorized :: "string \<Rightarrow> Role \<Rightarrow> bool"
    and allowed :: "string \<Rightarrow> Role list"
  assumes allowed_authorized: "valid_role r \<Longrightarrow> r \<in> set (allowed rsc) \<longleftrightarrow> authorized rsc r"
    and authorized_mono: "authorized rsc r \<Longrightarrow> aclMap r = Some l \<Longrightarrow> aclMap r' = Some l' \<Longrightarrow> l \<le> l' \<Longrightarrow>
      authorized rsc r'"
    and closed_allowed_valid: "RoleNone \<notin> set (allowed rsc) \<Longrightarrow> r \<in> set (allowed rsc) \<Longrightarrow> valid_role r"
    and unknown_role_closed: "\<not> valid_role r \<Longrightarrow> authorized rsc r \<Longrightarrow> RoleNone \<in> set (allowed rsc)"
begin

text \<open>A resource open to \<^verbatim>\<open>none\<close> is open to every role.\<close>

lemma open_for_all: "RoleNone \<in> set (allowed rsc) \<Longrightarrow> valid_role r \<Longrightarrow> r \<in> set (allowed rsc)"
proof -
  assume o: "RoleNone \<in> set (allowed rsc)" and r: "valid_role r"
  have n: "aclMap RoleNone = Some noRole" by (simp add: aclMap_def)
  from r obtain l where l: "aclMap r = Some l" by (auto simp: valid_role_def)
  have "authorized rsc RoleNone" using allowed_authorized [of RoleNone rsc] o n by (simp add: valid_role_def)
  from authorized_mono [OF this n l] aclMap_range [OF l] have "authorized rsc r" by simp
  with allowed_authorized [OF r] show ?thesis by blast
qed

text \<open>What an authenticated role may do, a higher role may do.\<close>

lemma allowed_mono:
  assumes "r \<in> set (allowed rsc)" "aclMap r = Some l" "aclMap r' = Some l'" "l \<le> l'"
  shows "r' \<in> set (allowed rsc)"
  using assms allowed_authorized [of r rsc] allowed_authorized [of r' rsc] authorized_mono [of rsc r l r' l']
  by (simp add: valid_role_def)

end

interpretation am: acl_interface "Authorized S st" "Allowed S st" for S :: "'s acl_store" and st
proof unfold_locales
  fix r rsc
  assume "valid_role r"
  then show "r \<in> set (Allowed S st rsc) \<longleftrightarrow> Authorized S st rsc r"
    by (simp add: Allowed_iff_policy Authorized_policy)
next
  fix rsc r l r' l'
  assume "Authorized S st rsc r" "aclMap r = Some l" "aclMap r' = Some l'" "l \<le> l'"
  then show "Authorized S st rsc r'"
    unfolding Authorized_policy by (rule policy_allows_mono)
next
  fix rsc r
  assume "RoleNone \<notin> set (Allowed S st rsc)" "r \<in> set (Allowed S st rsc)"
  then show "valid_role r" by (rule closed_Allowed_valid)
next
  fix rsc r
  assume "\<not> valid_role r" "Authorized S st rsc r"
  then show "RoleNone \<in> set (Allowed S st rsc)"
    by (simp add: Authorized_policy policy_allows_def valid_role_def Allowed_policy split: option.splits)
qed

section \<open>The entry's encoding\<close>

lemma Unmarshal_print_acl:
  "Acl_Unmarshal \<lparr>acl_Key = k, acl_Roles = n\<rparr> (Acl_Marshal a) = (acl_int a, a)" if "acl_int a"
proof -
  have "int_json (JObj [(''Key'', JStr (acl_Key a)), (''Roles'', JNum (acl_Roles a))])" by simp
  from Unmarshal_print [OF this, of decode_acl] that show ?thesis
    by (cases a) (simp add: Acl_Unmarshal_def Acl_Marshal_def decode_acl_def decode_acl_field_def
        equal_fold_def to_lower_def decode_string_def decode_int_def acl_int_def)
qed

text \<open>A store that satisfies the hypotheses: the entry's bytes under its namespace and ID.\<close>

definition acl_key :: "Acl \<Rightarrow> string" where
  "acl_key a = GetNamespace a @ ''/'' @ GetID a"

definition bytes_store :: "string gomap acl_store" where
  "bytes_store =
     \<lparr>st_Read = (\<lambda>st a. case map_of st (acl_key a) of
          None \<Rightarrow> Inl (ErrorString ''item not found'')
        | Some b \<Rightarrow> (case Acl_Unmarshal a b of (True, a') \<Rightarrow> Inr a' | (False, _) \<Rightarrow> Inl (ErrorString ''json''))),
      st_Update = (\<lambda>st a. (AList.update (acl_key a) (Acl_Marshal a) st, None)),
      st_Delete = (\<lambda>st a. (AList.delete (acl_key a) st, None))\<rparr>"

lemma bytes_store_ok: "acl_store_ok bytes_store"
  by (auto simp: acl_store_ok_def bytes_store_def go_simps acl_key_def
      GetNamespace_def GetID_def Unmarshal_print_acl)

section \<open>Histories of the manager\<close>

datatype acl_op = OpConfigure string Role | OpDelete string

fun exec_acl :: "'s acl_store \<Rightarrow> 's \<Rightarrow> acl_op \<Rightarrow> 's \<times> goerror option" where
  "exec_acl S st (OpConfigure rsc role) = Configure S st rsc role"
| "exec_acl S st (OpDelete rsc) = Delete S st rsc"

fun policy_step :: "acl_op \<Rightarrow> policy \<Rightarrow> policy" where
  "policy_step (OpConfigure rsc role) P = P(rsc := aclMap role)"
| "policy_step (OpDelete rsc) P = P(rsc := None)"

lemma exec_acl_refines:
  "acl_store_ok S \<Longrightarrow> exec_acl S st op = (st', None) \<Longrightarrow>
    policy_of S st' = policy_step op (policy_of S st)"
  by (cases op) (auto simp: Delete_policy elim!: Configure_policy)

text \<open>
  C3: the ACL manager refines the abstract policy. After any sequence of \<^verbatim>\<open>Configure\<close> and
  \<^verbatim>\<open>Delete\<close> calls that succeed, \<^verbatim>\<open>Authorized\<close> answers what the policy obtained by applying the
  same operations to a map from resources to levels answers, and \<^verbatim>\<open>Allowed\<close> lists exactly the
  roles that policy lets through.
\<close>

theorem acl_refines_policy:
  assumes "acl_store_ok S" "each_until_error (exec_acl S) st ops = (st', None)"
    and "P = fold policy_step ops (policy_of S st)"
  shows "(\<forall>rsc role. Authorized S st' rsc role = policy_allows P rsc role) \<and>
    (\<forall>rsc. {r \<in> set (Allowed S st' rsc). valid_role r} = {r. valid_role r \<and> policy_allows P rsc r})"
proof -
  have "policy_of S st' = P"
    unfolding assms(3)
    by (rule each_until_error_refines [OF assms(2)]) (rule exec_acl_refines [OF assms(1)])
  then show ?thesis by (auto simp: Authorized_policy Allowed_iff_policy)
qed

theorem acl_refines_policy_witness:
  "\<not> Authorized bytes_store (fst (each_until_error (exec_acl bytes_store) []
      [OpConfigure ''/svc'' AuthRead, OpConfigure ''/x'' Admin, OpDelete ''/x''])) ''/svc'' PublicWrite"
proof -
  have "\<exists>st. each_until_error (exec_acl bytes_store) []
      [OpConfigure ''/svc'' AuthRead, OpConfigure ''/x'' Admin, OpDelete ''/x''] = (st, None)"
    by (simp add: Configure_def Delete_def bytes_store_def aclMap_def role_defs)
  then obtain st where st: "each_until_error (exec_acl bytes_store) []
      [OpConfigure ''/svc'' AuthRead, OpConfigure ''/x'' Admin, OpDelete ''/x''] = (st, None)" by blast
  from acl_refines_policy [OF bytes_store_ok st refl] st show ?thesis
    by (simp add: policy_allows_def aclMap_def role_defs level_defs)
qed

section \<open>Start-up\<close>

lemma fold_configure_entries:
  "wf_gomap kvs \<Longrightarrow> fold (\<lambda>kv P. P(fst kv := aclMap (snd kv))) kvs P rsc =
    (case map_of kvs rsc of None \<Rightarrow> P rsc | Some role \<Rightarrow> aclMap role)"
  by (induction kvs arbitrary: P)
    (auto simp: wf_gomap_def map_of_eq_None_iff [symmetric] split: option.splits)

lemma decode_str_map_wf: "wf_gomap old \<Longrightarrow> wf_gomap (snd (decode_str_map old j))"
  by (cases j) (simp_all add: decode_map_def)

lemma Get_str_map_wf: "Get decode_str_map cfg key [] = (ok, m) \<Longrightarrow> wf_gomap m"
  using decode_str_map_wf [of "[]"]
  by (auto simp: Get_def Unmarshal_def split: option.splits) (metis snd_conv wf_gomap_Nil)

text \<open>
  C27: the manager a node starts with enforces the \<^verbatim>\<open>ACL\<close> map of its configuration. In
  whatever order the map is visited, \<^verbatim>\<open>NewAclManager\<close> returns a manager only if every role in
  it is known; each resource it lists then asks for the level of the role configured for it,
  and every other resource asks for what the store already held.
\<close>

theorem new_acl_manager_policy:
  assumes "acl_store_ok S" "Get decode_str_map cfg ''ACL'' [] = (True, acls)" "mset (ord acls) = mset acls"
    and "NewAclManager S ord cfg repo_store shared = Inr st'"
  shows "(\<forall>role \<in> snd ` set acls. valid_role role) \<and>
    (\<forall>rsc. policy_of S st' rsc =
      (case map_of acls rsc of
         Some role \<Rightarrow> aclMap role
       | None \<Rightarrow> policy_of S (case shared of Some (Inr st) \<Rightarrow> st | _ \<Rightarrow> repo_store) rsc))"
proof -
  let ?st = "case shared of Some (Inr st) \<Rightarrow> st | _ \<Rightarrow> repo_store"
  let ?step = "\<lambda>st kv. Configure S st (fst kv) (snd kv)"
  have run: "each_until_error ?step ?st (ord acls) = (st', None)"
    using assms(2,4) by (auto simp: NewAclManager_def split: option.splits sum.splits prod.splits)
  have set: "set (ord acls) = set acls" using assms(3) by (metis set_mset_mset)
  have wf: "wf_gomap acls" by (rule Get_str_map_wf [OF assms(2)])
  have "mset (map fst (ord acls)) = mset (map fst acls)" using assms(3) by simp
  then have wfo: "wf_gomap (ord acls)"
    using wf unfolding wf_gomap_def by (metis mset_eq_imp_distinct_iff)
  then have same: "map_of (ord acls) = map_of acls"
    using wf set by (intro map_of_inject_set [THEN iffD2]) (simp_all add: wf_gomap_def)
  have valid: "valid_role (snd kv)" if "kv \<in> set acls" for kv
  proof -
    from that set have "kv \<in> set (ord acls)" by simp
    from each_until_error_all_ok [OF run this] obtain t t' where
      "Configure S t (fst kv) (snd kv) = (t', None)" by blast
    from Configure_policy [OF assms(1) this] show ?thesis by (metis option.discI valid_role_def)
  qed
  have "policy_of S st' = fold (\<lambda>kv P. P(fst kv := aclMap (snd kv))) (ord acls) (policy_of S ?st)"
    by (rule each_until_error_refines [OF run]) (erule Configure_policy [OF assms(1)], simp)
  with fold_configure_entries [OF wfo] same have "policy_of S st' rsc =
      (case map_of acls rsc of None \<Rightarrow> policy_of S ?st rsc | Some role \<Rightarrow> aclMap role)" for rsc by simp
  with valid show ?thesis by (auto split: option.splits)
qed

theorem new_acl_manager_policy_witness:
  "\<exists>st'. NewAclManager bytes_store rev [(''ACL'', GStrMap [(''/a'', Admin), (''/b'', RoleNone)])] [] None = Inr st' \<and>
     policy_of bytes_store st' ''/a'' = Some admin"
proof -
  let ?cfg = "[(''ACL'', GStrMap [(''/a'', Admin), (''/b'', RoleNone)])]"
  have g: "Get decode_str_map ?cfg ''ACL'' [] = (True, [(''/a'', Admin), (''/b'', RoleNone)])"
    by (subst Get_doc_of) (simp_all add: doc_of_def wf_config_def wf_gomap_def role_defs decode_map_def decode_string_def)
  then obtain st' where st': "NewAclManager bytes_store rev ?cfg [] None = Inr st'"
    by (simp add: NewAclManager_def Configure_def bytes_store_def aclMap_def role_defs)
  from new_acl_manager_policy [OF bytes_store_ok g _ st'] st' show ?thesis
    by (simp add: aclMap_def role_defs)
qed

end
