(* ===== verification/Jwt_Manager.thy ===== *)
theory Jwt_Manager
  imports Acl_Manager
begin

text \<open>
  \<^verbatim>\<open>modules/auth/jwtManager.go\<close>: tokens that carry a user's ID, role and metadata. The claims and
  their JSON form (the struct tags of \<^verbatim>\<open>UserClaims\<close> and of the embedded \<^verbatim>\<open>jwt.StandardClaims\<close>) are
  modelled; signing and parsing (\<^verbatim>\<open>golang-jwt\<close>, third party) are a record of the calls the
  manager makes, with \<open>jwt_library\<close> naming what it relies on: the parser takes the method
  from the token, asks the caller's key function, checks the signature, decodes the payload
  into the claims and validates the times.
\<close>

section \<open>Claims\<close>

record StandardClaims =
  Audience :: string
  ExpiresAt :: int
  Id :: string
  IssuedAt :: int
  Issuer :: string
  NotBefore :: int
  Subject :: string

record UserClaims = StandardClaims +
  uc_ID :: string
  uc_Role :: string
  uc_Mtdt :: "goval gomap option"

definition zero_claims :: UserClaims where
  "zero_claims = \<lparr>Audience = [], ExpiresAt = 0, Id = [], IssuedAt = 0, Issuer = [], NotBefore = 0,
     Subject = [], uc_ID = [], uc_Role = [], uc_Mtdt = None\<rparr>"

text \<open>The fields of \<^verbatim>\<open>StandardClaims\<close> carry \<^verbatim>\<open>omitempty\<close>; a \<^verbatim>\<open>nil\<close> map is \<^verbatim>\<open>null\<close>.\<close>

definition str_field :: "string \<Rightarrow> string \<Rightarrow> (string \<times> json) list" where
  "str_field k v = (if v = [] then [] else [(k, JStr v)])"

definition int_field :: "string \<Rightarrow> int \<Rightarrow> (string \<times> json) list" where
  "int_field k v = (if v = 0 then [] else [(k, JNum v)])"

definition claims_json :: "UserClaims \<Rightarrow> json option" where
  "claims_json c =
     map_option (\<lambda>m. JObj (str_field ''aud'' (Audience c) @ int_field ''exp'' (ExpiresAt c) @
         str_field ''jti'' (Id c) @ int_field ''iat'' (IssuedAt c) @ str_field ''iss'' (Issuer c) @
         int_field ''nbf'' (NotBefore c) @ str_field ''sub'' (Subject c) @
         [(''id'', JStr (uc_ID c)), (''role'', JStr (uc_Role c)), (''mtdt'', m)]))
       (case uc_Mtdt c of None \<Rightarrow> Some JNull | Some m \<Rightarrow> marshal (GMap m))"

definition decode_mtdt :: "goval gomap option decoder" where
  "decode_mtdt old j =
     (case j of
        JNull \<Rightarrow> (True, None)
      | JObj kvs \<Rightarrow> (True, Some (put_all any_of kvs (case old of None \<Rightarrow> [] | Some m \<Rightarrow> m)))
      | _ \<Rightarrow> (False, old))"

text \<open>One member of the payload: the first field whose tag equals the key up to case.\<close>

definition put_field ::
  "'v decoder \<Rightarrow> (UserClaims \<Rightarrow> 'v) \<Rightarrow> ('v \<Rightarrow> UserClaims \<Rightarrow> UserClaims) \<Rightarrow> json \<Rightarrow>
     bool \<times> UserClaims \<Rightarrow> bool \<times> UserClaims" where
  "put_field dec sel upd j st = (let (ok, v) = dec (sel (snd st)) j in (fst st \<and> ok, upd v (snd st)))"

definition decode_claims_field :: "string \<times> json \<Rightarrow> bool \<times> UserClaims \<Rightarrow> bool \<times> UserClaims" where
  "decode_claims_field kv st =
     (if equal_fold (fst kv) ''aud'' then put_field decode_string Audience (\<lambda>v. Audience_update (\<lambda>_. v)) (snd kv) st
      else if equal_fold (fst kv) ''exp'' then put_field decode_int ExpiresAt (\<lambda>v. ExpiresAt_update (\<lambda>_. v)) (snd kv) st
      else if equal_fold (fst kv) ''jti'' then put_field decode_string Id (\<lambda>v. Id_update (\<lambda>_. v)) (snd kv) st
      else if equal_fold (fst kv) ''iat'' then put_field decode_int IssuedAt (\<lambda>v. IssuedAt_update (\<lambda>_. v)) (snd kv) st
      else if equal_fold (fst kv) ''iss'' then put_field decode_string Issuer (\<lambda>v. Issuer_update (\<lambda>_. v)) (snd kv) st
      else if equal_fold (fst kv) ''nbf'' then put_field decode_int NotBefore (\<lambda>v. NotBefore_update (\<lambda>_. v)) (snd kv) st
      else if equal_fold (fst kv) ''sub'' then put_field decode_string Subject (\<lambda>v. Subject_update (\<lambda>_. v)) (snd kv) st
      else if equal_fold (fst kv) ''id'' then put_field decode_string uc_ID (\<lambda>v. uc_ID_update (\<lambda>_. v)) (snd kv) st
      else if equal_fold (fst kv) ''role'' then put_field decode_string uc_Role (\<lambda>v. uc_Role_update (\<lambda>_. v)) (snd kv) st
      else if equal_fold (fst kv) ''mtdt'' then put_field decode_mtdt uc_Mtdt (\<lambda>v. uc_Mtdt_update (\<lambda>_. v)) (snd kv) st
      else st)"

definition decode_claims :: "UserClaims decoder" where
  "decode_claims c j =
     (case j of
        JObj kvs \<Rightarrow> fold decode_claims_field kvs (True, c)
      | JNull \<Rightarrow> (True, c)
      | _ \<Rightarrow> (False, c))"

section \<open>The token library\<close>

datatype SigningMethod = SigningMethodHMAC string | OtherMethod string

definition SigningMethodHS256 :: SigningMethod where
  "SigningMethodHS256 = SigningMethodHMAC ''HS256''"

text \<open>The dynamic type of \<^verbatim>\<open>token.Claims\<close>, which \<^verbatim>\<open>Verify\<close> asserts.\<close>

datatype Claims = UserClaimsPtr UserClaims | OtherClaims

record jwtlib =
  SignedString :: "SigningMethod \<Rightarrow> string \<Rightarrow> string \<Rightarrow> string result"
  ParseWithClaims :: "int \<Rightarrow> string \<Rightarrow> UserClaims \<Rightarrow> (SigningMethod \<Rightarrow> string result) \<Rightarrow> Claims result"
  TokenMethod :: "string \<Rightarrow> SigningMethod option"
  TokenPayload :: "string \<Rightarrow> string"
  SignatureOk :: "SigningMethod \<Rightarrow> string \<Rightarrow> string \<Rightarrow> bool"
  TimesValid :: "int \<Rightarrow> UserClaims \<Rightarrow> bool"

text \<open>
  \<^verbatim>\<open>jwt.ParseWithClaims\<close> as documented, \<open>now\<close> the current time in seconds. The validation of
  the times rejects a token whose expiry has passed and accepts one whose expiry lies
  ahead and that sets no other time; the second of the expiry itself is left open.
\<close>

definition jwt_library :: "jwtlib \<Rightarrow> bool" where
  "jwt_library L \<longleftrightarrow>
     (\<forall>m payload key tok. SignedString L m payload key = Inr tok \<longrightarrow>
        TokenMethod L tok = Some m \<and> TokenPayload L tok = payload \<and> SignatureOk L m key tok) \<and>
     (\<forall>now tok c0 keyfunc res. ParseWithClaims L now tok c0 keyfunc = Inr res \<longleftrightarrow>
        (\<exists>c m key. res = UserClaimsPtr c \<and> TokenMethod L tok = Some m \<and>
          Unmarshal decode_claims (TokenPayload L tok) c0 = (True, c) \<and>
          keyfunc m = Inr key \<and> SignatureOk L m key tok \<and> TimesValid L now c)) \<and>
     (\<forall>now c. ExpiresAt c \<noteq> 0 \<longrightarrow> ExpiresAt c < now \<longrightarrow> \<not> TimesValid L now c) \<and>
     (\<forall>now c. IssuedAt c = 0 \<longrightarrow> NotBefore c = 0 \<longrightarrow> now < ExpiresAt c \<longrightarrow> TimesValid L now c)"

section \<open>The manager\<close>

record jwtManager =
  secretKey :: string

text \<open>The interface \<^verbatim>\<open>User\<close>: the values its methods return.\<close>

record User =
  user_ID :: string
  user_Role :: string
  user_Mtdt :: "goval gomap option"

definition NewJWTManager :: "JsonConfig \<Rightarrow> jwtManager result" where
  "NewJWTManager c =
     (case Get decode_string c ''JWTSecret'' [] of
        (False, _) \<Rightarrow> Inl (ErrorString ''JWT Secret not provided'')
      | (True, jwtSecret) \<Rightarrow> Inr \<lparr>secretKey = jwtSecret\<rparr>)"

text \<open>Times are nanoseconds since the epoch; \<^verbatim>\<open>Unix()\<close> rounds down to seconds.\<close>

definition Unix :: "int \<Rightarrow> int" where
  "Unix t = t div 1000000000"

definition user_claims :: "int \<Rightarrow> User \<Rightarrow> int \<Rightarrow> UserClaims" where
  "user_claims now user timeout =
     zero_claims\<lparr>ExpiresAt := Unix (now + timeout), uc_ID := user_ID user,
       uc_Role := user_Role user, uc_Mtdt := user_Mtdt user\<rparr>"

definition Generate :: "jwtlib \<Rightarrow> jwtManager \<Rightarrow> int \<Rightarrow> User \<Rightarrow> int \<Rightarrow> string result" where
  "Generate L manager now user timeout =
     (case claims_json (user_claims now user timeout) of
        None \<Rightarrow> Inl (ErrorString ''json: unsupported type'')
      | Some j \<Rightarrow> SignedString L SigningMethodHS256 (print_json j) (secretKey manager))"

definition keyfunc :: "jwtManager \<Rightarrow> SigningMethod \<Rightarrow> string result" where
  "keyfunc manager method =
     (case method of
        SigningMethodHMAC _ \<Rightarrow> Inr (secretKey manager)
      | OtherMethod _ \<Rightarrow> Inl (ErrorString ''unexpected token signing method''))"

definition Verify :: "jwtlib \<Rightarrow> jwtManager \<Rightarrow> int \<Rightarrow> string \<Rightarrow> UserClaims result" where
  "Verify L manager now accessToken =
     (case ParseWithClaims L (Unix now) accessToken zero_claims (keyfunc manager) of
        Inl err \<Rightarrow> Inl (Wrapped ''invalid token'' err)
      | Inr (UserClaimsPtr claims) \<Rightarrow> Inr claims
      | Inr OtherClaims \<Rightarrow> Inl (ErrorString ''invalid token claims''))"

section \<open>Claims survive the token\<close>

definition wf_user :: "User \<Rightarrow> bool" where
  "wf_user u = (case user_Mtdt u of None \<Rightarrow> True | Some m \<Rightarrow> wf_config m)"

text \<open>Metadata comes back with the same members, each with the same JSON document.\<close>

definition same_mtdt :: "goval gomap option \<Rightarrow> goval gomap option \<Rightarrow> bool" where
  "same_mtdt a b \<longleftrightarrow>
     (case (a, b) of (None, None) \<Rightarrow> True | (Some m, Some m') \<Rightarrow> doc_of m = doc_of m' | _ \<Rightarrow> False)"

lemma decode_mtdt_marshal:
  assumes "wf_config m" "marshal (GMap m) = Some j"
  obtains m' where "decode_mtdt None j = (True, Some m')" "doc_of m' = doc_of m" "int_json j"
proof -
  have "Marshal (GMap m) = Some (print_json j)" using assms(2) by (simp add: Marshal_def del: marshal.simps)
  from reload_decoded [OF assms(1) this] obtain m' where
    m': "Unmarshal decode_any_map (print_json j) [] = (True, m')" "doc_of m' = doc_of m" by metis
  have ij: "int_json j"
    using assms marshal_canonical [of "GMap m" j] canonical_int_json by (simp add: wf_config_def)
  obtain fs where fs: "j = JObj fs" using assms(2) by auto
  have "decode_any_map [] j = (True, m')" using m'(1) by (simp add: Unmarshal_print [OF ij])
  then have "decode_mtdt None j = (True, Some m')"
    by (simp add: fs decode_mtdt_def decode_map_def decode_any_def)
  with m'(2) ij that show ?thesis by blast
qed

lemma user_claims_json:
  assumes "claims_json (user_claims now user timeout) = Some j"
  obtains m where "j = JObj (int_field ''exp'' (Unix (now + timeout)) @
      [(''id'', JStr (user_ID user)), (''role'', JStr (user_Role user)), (''mtdt'', m)])"
    "(case user_Mtdt user of None \<Rightarrow> Some JNull | Some m \<Rightarrow> marshal (GMap m)) = Some m"
  using assms by (auto simp: claims_json_def user_claims_def zero_claims_def str_field_def int_field_def)

lemma payload_roundtrip:
  assumes "claims_json (user_claims now user timeout) = Some j" "wf_user user"
    and "\<bar>Unix (now + timeout)\<bar> < 2 ^ 63"
  obtains m where "Unmarshal decode_claims (print_json j) zero_claims =
      (True, (user_claims now user timeout)\<lparr>uc_Mtdt := m\<rparr>)" "same_mtdt m (user_Mtdt user)"
proof -
  from user_claims_json [OF assms(1)] obtain d where
    j: "j = JObj (int_field ''exp'' (Unix (now + timeout)) @
      [(''id'', JStr (user_ID user)), (''role'', JStr (user_Role user)), (''mtdt'', d)])"
    and d: "(case user_Mtdt user of None \<Rightarrow> Some JNull | Some m \<Rightarrow> marshal (GMap m)) = Some d" by blast
  obtain m where m: "decode_mtdt None d = (True, m)" "same_mtdt m (user_Mtdt user)" "int_json d"
  proof (cases "user_Mtdt user")
    case None
    with d that [of None] show ?thesis by (simp add: decode_mtdt_def same_mtdt_def)
  next
    case (Some g)
    with d assms(2) have "wf_config g" "marshal (GMap g) = Some d"
      by (simp_all add: wf_user_def del: marshal.simps)
    from decode_mtdt_marshal [OF this] obtain m' where
      "decode_mtdt None d = (True, Some m')" "doc_of m' = doc_of g" "int_json d" by blast
    with Some show ?thesis by (intro that [of "Some m'"]) (simp_all add: same_mtdt_def)
  qed
  have "int_json j" using m(3) by (simp add: j int_field_def)
  then have "Unmarshal decode_claims (print_json j) zero_claims = decode_claims zero_claims j"
    by (rule Unmarshal_print)
  also have "\<dots> = (True, (user_claims now user timeout)\<lparr>uc_Mtdt := m\<rparr>)"
    using m(1) assms(3)
    by (simp add: j decode_claims_def decode_claims_field_def put_field_def equal_fold_def to_lower_def
        int_field_def decode_int_def decode_string_def zero_claims_def user_claims_def abs_less_iff)
  finally show ?thesis using that m(2) by blast
qed

text \<open>When \<^verbatim>\<open>Verify\<close> accepts.\<close>

lemma Verify_Inr_iff:
  assumes "jwt_library L"
  shows "Verify L manager now tok = Inr c \<longleftrightarrow>
    (\<exists>alg. TokenMethod L tok = Some (SigningMethodHMAC alg) \<and>
      Unmarshal decode_claims (TokenPayload L tok) zero_claims = (True, c) \<and>
      SignatureOk L (SigningMethodHMAC alg) (secretKey manager) tok \<and> TimesValid L (Unix now) c)"
proof -
  have "Verify L manager now tok = Inr c \<longleftrightarrow>
      ParseWithClaims L (Unix now) tok zero_claims (keyfunc manager) = Inr (UserClaimsPtr c)"
    by (simp add: Verify_def split: sum.splits Claims.splits)
  also have "\<dots> \<longleftrightarrow> (\<exists>m key. TokenMethod L tok = Some m \<and>
      Unmarshal decode_claims (TokenPayload L tok) zero_claims = (True, c) \<and>
      keyfunc manager m = Inr key \<and> SignatureOk L m key tok \<and> TimesValid L (Unix now) c)"
    using assms by (simp add: jwt_library_def)
  also have "\<dots> \<longleftrightarrow> (\<exists>alg. TokenMethod L tok = Some (SigningMethodHMAC alg) \<and>
      Unmarshal decode_claims (TokenPayload L tok) zero_claims = (True, c) \<and>
      SignatureOk L (SigningMethodHMAC alg) (secretKey manager) tok \<and> TimesValid L (Unix now) c)"
  proof -
    have k: "keyfunc manager m = Inr key \<longleftrightarrow> (\<exists>alg. m = SigningMethodHMAC alg) \<and> key = secretKey manager" for m key
      by (cases m) (auto simp: keyfunc_def)
    show ?thesis unfolding k by blast
  qed
  finally show ?thesis .
qed

lemma Generate_token:
  assumes "jwt_library L" "Generate L manager now user timeout = Inr tok"
  obtains j where "claims_json (user_claims now user timeout) = Some j"
    "TokenMethod L tok = Some SigningMethodHS256" "TokenPayload L tok = print_json j"
    "SignatureOk L SigningMethodHS256 (secretKey manager) tok"
proof -
  from assms(2) obtain j where j: "claims_json (user_claims now user timeout) = Some j"
    "SignedString L SigningMethodHS256 (print_json j) (secretKey manager) = Inr tok"
    by (auto simp: Generate_def split: option.splits)
  with assms(1) that [OF j(1)] show ?thesis by (simp add: jwt_library_def)
qed

text \<open>The answer to a token the same manager issued is determined by the clock alone.\<close>

lemma Verify_Generate:
  assumes "jwt_library L" "Generate L manager now user timeout = Inr tok" "wf_user user"
    and "\<bar>Unix (now + timeout)\<bar> < 2 ^ 63"
  obtains m where "same_mtdt m (user_Mtdt user)"
    "\<And>later. TimesValid L (Unix later) ((user_claims now user timeout)\<lparr>uc_Mtdt := m\<rparr>) \<Longrightarrow>
      Verify L manager later tok = Inr ((user_claims now user timeout)\<lparr>uc_Mtdt := m\<rparr>)"
    "\<And>later. \<not> TimesValid L (Unix later) ((user_claims now user timeout)\<lparr>uc_Mtdt := m\<rparr>) \<Longrightarrow>
      \<not> is_ok (Verify L manager later tok)"
proof -
  from Generate_token [OF assms(1,2)] obtain j where
    j: "claims_json (user_claims now user timeout) = Some j" "TokenMethod L tok = Some SigningMethodHS256"
      "TokenPayload L tok = print_json j" "SignatureOk L SigningMethodHS256 (secretKey manager) tok" by blast
  from payload_roundtrip [OF j(1) assms(3,4)] obtain m where
    m: "Unmarshal decode_claims (print_json j) zero_claims = (True, (user_claims now user timeout)\<lparr>uc_Mtdt := m\<rparr>)"
      "same_mtdt m (user_Mtdt user)" by blast
  show ?thesis
  proof (rule that [OF m(2)])
    fix later
    assume "TimesValid L (Unix later) ((user_claims now user timeout)\<lparr>uc_Mtdt := m\<rparr>)"
    with j m(1) show "Verify L manager later tok = Inr ((user_claims now user timeout)\<lparr>uc_Mtdt := m\<rparr>)"
      by (simp add: Verify_Inr_iff [OF assms(1)] SigningMethodHS256_def)
  next
    fix later
    assume "\<not> TimesValid L (Unix later) ((user_claims now user timeout)\<lparr>uc_Mtdt := m\<rparr>)"
    with j m(1) show "\<not> is_ok (Verify L manager later tok)"
      by (auto simp: is_ok_iff Verify_Inr_iff [OF assms(1)])
  qed
qed

lemma Verify_by_clock:
  assumes "jwt_library L" "Generate L manager now user timeout = Inr tok" "wf_user user"
    and "\<bar>Unix (now + timeout)\<bar> < 2 ^ 63" "Unix (now + timeout) \<noteq> 0"
  shows "Unix later < Unix (now + timeout) \<Longrightarrow>
      \<exists>claims. Verify L manager later tok = Inr claims \<and> uc_ID claims = user_ID user \<and>
        uc_Role claims = user_Role user \<and> same_mtdt (uc_Mtdt claims) (user_Mtdt user) \<and>
        ExpiresAt claims = Unix (now + timeout)"
    and "Unix (now + timeout) < Unix later \<Longrightarrow> \<not> is_ok (Verify L manager later tok)"
proof -
  from Verify_Generate [OF assms(1-4)] obtain m where
    m: "same_mtdt m (user_Mtdt user)"
    and ok: "TimesValid L (Unix later) ((user_claims now user timeout)\<lparr>uc_Mtdt := m\<rparr>) \<Longrightarrow>
      Verify L manager later tok = Inr ((user_claims now user timeout)\<lparr>uc_Mtdt := m\<rparr>)"
    and bad: "\<not> TimesValid L (Unix later) ((user_claims now user timeout)\<lparr>uc_Mtdt := m\<rparr>) \<Longrightarrow>
      \<not> is_ok (Verify L manager later tok)" by metis
  let ?c = "(user_claims now user timeout)\<lparr>uc_Mtdt := m\<rparr>"
  have c: "ExpiresAt ?c = Unix (now + timeout)" "IssuedAt ?c = 0" "NotBefore ?c = 0"
    "uc_ID ?c = user_ID user" "uc_Role ?c = user_Role user" "uc_Mtdt ?c = m"
    by (simp_all add: user_claims_def zero_claims_def)
  have "TimesValid L (Unix later) ?c" if "Unix later < Unix (now + timeout)"
    using assms(1) that c unfolding jwt_library_def by metis
  then show "Unix later < Unix (now + timeout) \<Longrightarrow>
      \<exists>claims. Verify L manager later tok = Inr claims \<and> uc_ID claims = user_ID user \<and>
        uc_Role claims = user_Role user \<and> same_mtdt (uc_Mtdt claims) (user_Mtdt user) \<and>
        ExpiresAt claims = Unix (now + timeout)" using ok c m by metis
  have "\<not> TimesValid L (Unix later) ?c" if "Unix (now + timeout) < Unix later"
    using assms(1,5) that c unfolding jwt_library_def by metis
  then show "Unix (now + timeout) < Unix later \<Longrightarrow> \<not> is_ok (Verify L manager later tok)" using bad by blast
qed

text \<open>
  C5: a token a manager issued verifies, under a manager with the same secret, to the
  user's ID, role and metadata as long as its expiry lies ahead, and is refused once the
  expiry has passed.
\<close>

theorem jwt_roundtrip:
  assumes "jwt_library L" "Generate L manager now user timeout = Inr tok" "wf_user user"
    and "\<bar>Unix (now + timeout)\<bar> < 2 ^ 63" "Unix (now + timeout) \<noteq> 0"
  shows "(Unix later < Unix (now + timeout) \<longrightarrow>
      (\<exists>claims. Verify L manager later tok = Inr claims \<and> uc_ID claims = user_ID user \<and>
        uc_Role claims = user_Role user \<and> same_mtdt (uc_Mtdt claims) (user_Mtdt user) \<and>
        ExpiresAt claims = Unix (now + timeout))) \<and>
    (Unix (now + timeout) < Unix later \<longrightarrow> \<not> is_ok (Verify L manager later tok))"
  using Verify_by_clock [OF assms] by blast

text \<open>A library that satisfies the hypotheses: tokens that spell out method, key and payload.\<close>

definition sample_jwt_parts :: "string \<Rightarrow> (SigningMethod \<times> string \<times> string) option" where
  "sample_jwt_parts tok =
     (case parse_json tok of
        Some (JArr [JBool b, JStr alg, JStr key, JStr payload]) \<Rightarrow>
          Some (if b then SigningMethodHMAC alg else OtherMethod alg, key, payload)
      | _ \<Rightarrow> None)"

definition sample_times_valid :: "int \<Rightarrow> UserClaims \<Rightarrow> bool" where
  "sample_times_valid now c \<longleftrightarrow> (ExpiresAt c = 0 \<or> now \<le> ExpiresAt c) \<and>
     (IssuedAt c = 0 \<or> IssuedAt c \<le> now) \<and> (NotBefore c = 0 \<or> NotBefore c \<le> now)"

definition sample_jwt :: jwtlib where
  "sample_jwt =
     \<lparr>SignedString = (\<lambda>m payload key. Inr (print_json (case m of
          SigningMethodHMAC alg \<Rightarrow> JArr [JBool True, JStr alg, JStr key, JStr payload]
        | OtherMethod alg \<Rightarrow> JArr [JBool False, JStr alg, JStr key, JStr payload]))),
      ParseWithClaims = (\<lambda>now tok c0 kf.
        case sample_jwt_parts tok of
          None \<Rightarrow> Inl (ErrorString ''token is malformed'')
        | Some (m, key, payload) \<Rightarrow>
            (case Unmarshal decode_claims payload c0 of
               (False, _) \<Rightarrow> Inl (ErrorString ''token is malformed'')
             | (True, c) \<Rightarrow>
                 (case kf m of
                    Inl e \<Rightarrow> Inl e
                  | Inr k \<Rightarrow> if k \<noteq> key then Inl (ErrorString ''signature is invalid'')
                      else if \<not> sample_times_valid now c then Inl (ErrorString ''token is expired'')
                      else Inr (UserClaimsPtr c)))),
      TokenMethod = (\<lambda>tok. map_option fst (sample_jwt_parts tok)),
      TokenPayload = (\<lambda>tok. case sample_jwt_parts tok of None \<Rightarrow> [] | Some (_, _, p) \<Rightarrow> p),
      SignatureOk = (\<lambda>m key tok. case sample_jwt_parts tok of None \<Rightarrow> False | Some (_, k, _) \<Rightarrow> k = key),
      TimesValid = sample_times_valid\<rparr>"

lemma sample_jwt_parts_sign:
  "SignedString sample_jwt m payload key = Inr tok \<Longrightarrow> sample_jwt_parts tok = Some (m, key, payload)"
  by (cases m) (auto simp: sample_jwt_def sample_jwt_parts_def parse_print_json simp del: print_json.simps)

lemma sample_jwt_ok: "jwt_library sample_jwt"
  unfolding jwt_library_def
proof (intro conjI allI impI)
  fix now tok c0 kf res
  show "ParseWithClaims sample_jwt now tok c0 kf = Inr res \<longleftrightarrow>
    (\<exists>c m key. res = UserClaimsPtr c \<and> TokenMethod sample_jwt tok = Some m \<and>
       Unmarshal decode_claims (TokenPayload sample_jwt tok) c0 = (True, c) \<and>
       kf m = Inr key \<and> SignatureOk sample_jwt m key tok \<and> TimesValid sample_jwt now c)"
    by (cases "sample_jwt_parts tok")
      (auto simp: sample_jwt_def split: prod.splits bool.splits sum.splits)
next
  fix m payload key tok
  assume s: "SignedString sample_jwt m payload key = Inr tok"
  show "TokenMethod sample_jwt tok = Some m" "TokenPayload sample_jwt tok = payload"
    "SignatureOk sample_jwt m key tok"
    using sample_jwt_parts_sign [OF s] by (simp_all add: sample_jwt_def)
qed (auto simp: sample_jwt_def sample_times_valid_def)

definition sample_user :: User where
  "sample_user = \<lparr>user_ID = ''u1'', user_Role = ''admin'', user_Mtdt = Some [(''tenant'', GStr ''t'')]\<rparr>"

lemma sample_user_wf: "wf_user sample_user"
  by (simp add: wf_user_def sample_user_def wf_config_def wf_gomap_def)

lemma sample_token: "\<exists>tok. Generate sample_jwt \<lparr>secretKey = ''s''\<rparr> 5000000000 sample_user 60000000000 = Inr tok"
  by (simp add: Generate_def claims_json_def user_claims_def sample_user_def sample_jwt_def zero_claims_def)

theorem jwt_roundtrip_witness:
  "\<exists>tok claims. Generate sample_jwt \<lparr>secretKey = ''s''\<rparr> 5000000000 sample_user 60000000000 = Inr tok \<and>
    Verify sample_jwt \<lparr>secretKey = ''s''\<rparr> 9000000000 tok = Inr claims \<and> uc_Role claims = ''admin''"
proof -
  obtain tok where t: "Generate sample_jwt \<lparr>secretKey = ''s''\<rparr> 5000000000 sample_user 60000000000 = Inr tok"
    using sample_token by blast
  from jwt_roundtrip [OF sample_jwt_ok t sample_user_wf, of 9000000000] t show ?thesis
    by (auto simp: Unix_def sample_user_def)
qed

text \<open>
  C18: \<^verbatim>\<open>Verify\<close> accepts nothing but tokens whose header names an HMAC method, whose signature
  checks under the manager's own secret, whose times are valid, and returns the claims the
  payload decodes to; a token with another signing method is refused whatever its signature.
\<close>

theorem jwt_verify_sound:
  assumes "jwt_library L" "Verify L manager now tok = Inr claims"
  shows "(\<exists>alg. TokenMethod L tok = Some (SigningMethodHMAC alg) \<and>
      SignatureOk L (SigningMethodHMAC alg) (secretKey manager) tok) \<and>
    TimesValid L (Unix now) claims \<and> (ExpiresAt claims \<noteq> 0 \<longrightarrow> Unix now \<le> ExpiresAt claims) \<and>
    Unmarshal decode_claims (TokenPayload L tok) zero_claims = (True, claims)"
proof -
  from assms(2) obtain alg where v: "TokenMethod L tok = Some (SigningMethodHMAC alg)"
    "Unmarshal decode_claims (TokenPayload L tok) zero_claims = (True, claims)"
    "SignatureOk L (SigningMethodHMAC alg) (secretKey manager) tok" "TimesValid L (Unix now) claims"
    unfolding Verify_Inr_iff [OF assms(1)] by blast
  moreover have "Unix now \<le> ExpiresAt claims" if "ExpiresAt claims \<noteq> 0"
    using assms(1) v(4) that unfolding jwt_library_def by (meson not_le)
  ultimately show ?thesis by blast
qed

lemma sample_token_accepted:
  "\<exists>tok claims. Verify sample_jwt \<lparr>secretKey = ''s''\<rparr> 9000000000 tok = Inr claims"
proof -
  obtain tok where t: "Generate sample_jwt \<lparr>secretKey = ''s''\<rparr> 5000000000 sample_user 60000000000 = Inr tok"
    using sample_token by blast
  have b: "\<bar>Unix (5000000000 + 60000000000)\<bar> < 2 ^ 63" by (simp add: Unix_def)
  show ?thesis
  proof (rule Verify_Generate [OF sample_jwt_ok t sample_user_wf b])
    fix m
    let ?c = "(user_claims 5000000000 sample_user 60000000000)\<lparr>uc_Mtdt := m\<rparr>"
    assume "\<And>later. TimesValid sample_jwt (Unix later) ?c \<Longrightarrow>
      Verify sample_jwt \<lparr>secretKey = ''s''\<rparr> later tok = Inr ?c"
    moreover have "TimesValid sample_jwt (Unix 9000000000) ?c"
      by (simp add: sample_jwt_def sample_times_valid_def user_claims_def zero_claims_def Unix_def)
    ultimately show ?thesis by blast
  qed
qed

theorem jwt_verify_sound_witness:
  "\<exists>tok claims. Verify sample_jwt \<lparr>secretKey = ''s''\<rparr> 9000000000 tok = Inr claims \<and>
    TimesValid sample_jwt 9 claims"
proof -
  obtain tok claims where v: "Verify sample_jwt \<lparr>secretKey = ''s''\<rparr> 9000000000 tok = Inr claims"
    using sample_token_accepted by blast
  from jwt_verify_sound [OF sample_jwt_ok v] v show ?thesis by (auto simp: Unix_def)
qed

end
