(* ===== verification/Auth_Middleware.thy ===== *)
theory Auth_Middleware
  imports Jwt_Manager
begin

text \<open>
  The two access checks of a node: the gRPC interceptor (\<^verbatim>\<open>modules/node/grpc/middleware.go\<close>) and
  the HTTP middleware (\<^verbatim>\<open>modules/node/http/middleware.go\<close>). Both take an \<^verbatim>\<open>auth.ACL\<close> and an
  \<^verbatim>\<open>auth.JWTManager\<close> as interfaces, here a record of the two methods they call. The locale
  \<open>access_gate\<close> extends \<open>acl_interface\<close> with a verifier: what both checks decide is proved
  once in it, and it is interpreted on the ACL and JWT managers.
\<close>

record AuthInterceptor =
  jm :: "string \<Rightarrow> UserClaims result"
  am :: "string \<Rightarrow> Role list"

section \<open>The gRPC interceptor\<close>

datatype grpc_status = Unauthenticated goerror | PermissionDenied goerror | Unknown goerror | HandlerError goerror

text \<open>The incoming metadata of a context: absent, or lists of values under lower-case keys.\<close>

type_synonym metadata = "string list gomap"

definition NewAuthInterceptor :: "(string \<Rightarrow> UserClaims result) \<Rightarrow> (string \<Rightarrow> Role list) \<Rightarrow> AuthInterceptor" where
  "NewAuthInterceptor j a = \<lparr>jm = j, am = a\<rparr>"

definition authorize :: "AuthInterceptor \<Rightarrow> metadata option \<Rightarrow> string \<Rightarrow> grpc_status option" where
  "authorize interceptor ctx method =
     (let roles = am interceptor method in
      if list_ex (\<lambda>rl. rl = RoleNone) roles then None
      else
        (case ctx of
           None \<Rightarrow> Some (Unauthenticated (ErrorString ''metadata is not provided''))
         | Some md \<Rightarrow>
             (case map_of md ''authorization'' of
                None \<Rightarrow> Some (Unauthenticated (ErrorString ''authorization token is not provided''))
              | Some [] \<Rightarrow> Some (Unauthenticated (ErrorString ''authorization token is not provided''))
              | Some (accessToken # _) \<Rightarrow>
                  (case jm interceptor accessToken of
                     Inl err \<Rightarrow> Some (Unauthenticated (Wrapped ''access token is invalid'' err))
                   | Inr claims \<Rightarrow>
                       if list_ex (\<lambda>role. role = uc_Role claims) roles then None
                       else Some (PermissionDenied (ErrorString ''no permission to access this RPC''))))))"

text \<open>A handler returns its reply or an error; the interceptor runs it only after the check.\<close>

definition Unary :: "AuthInterceptor \<Rightarrow> metadata option \<Rightarrow> 'req \<Rightarrow> string \<Rightarrow>
    (metadata option \<Rightarrow> 'req \<Rightarrow> grpc_status + 'resp) \<Rightarrow> grpc_status + 'resp" where
  "Unary interceptor ctx req fullMethod handler =
     (case authorize interceptor ctx fullMethod of
        Some err \<Rightarrow> Inl err
      | None \<Rightarrow> handler ctx req)"

definition Stream :: "AuthInterceptor \<Rightarrow> 'srv \<Rightarrow> 'stream \<Rightarrow> ('stream \<Rightarrow> metadata option) \<Rightarrow> string \<Rightarrow>
    ('srv \<Rightarrow> 'stream \<Rightarrow> grpc_status option) \<Rightarrow> grpc_status option" where
  "Stream interceptor srv stream Context fullMethod handler =
     (case authorize interceptor (Context stream) fullMethod of
        Some err \<Rightarrow> Some err
      | None \<Rightarrow> handler srv stream)"

section \<open>The HTTP middleware\<close>

record http_request =
  req_URL :: string
  req_Header :: "string list gomap"

text \<open>\<^verbatim>\<open>Header.Get\<close> returns the first value, or the empty string.\<close>

definition Header_Get :: "http_request \<Rightarrow> string \<Rightarrow> string" where
  "Header_Get r key = (case map_of (req_Header r) key of Some (v # _) \<Rightarrow> v | _ \<Rightarrow> [])"

text \<open>What the client gets: what the next handler wrote, or an error message with its status.\<close>

datatype 'w reply = Served 'w | HttpError goerror nat

definition StatusBadRequest :: nat where "StatusBadRequest = 400"
definition StatusUnauthorized :: nat where "StatusUnauthorized = 401"

definition JWT :: "AuthInterceptor \<Rightarrow> (http_request \<Rightarrow> 'w) \<Rightarrow> http_request \<Rightarrow> 'w reply" where
  "JWT mw next_handler r =
     (let roles = am mw (req_URL r) in
      if list_ex (\<lambda>rl. rl = RoleNone) roles then Served (next_handler r)
      else
        (let tokenArr = split_on CHR '' '' (Header_Get r ''Authorization'') in
         if length tokenArr \<noteq> 2 then HttpError (ErrorString ''token is absent'') StatusBadRequest
         else
           (case jm mw (tokenArr ! 1) of
              Inl err \<Rightarrow> HttpError (Wrapped ''failed verifying token'' err) StatusUnauthorized
            | Inr claims \<Rightarrow>
                if list_ex (\<lambda>role. role = uc_Role claims) roles then Served (next_handler r)
                else HttpError (ErrorString ''invalid role for resource'') StatusUnauthorized)))"

section \<open>The decision\<close>

text \<open>The token each transport presents, and the decision both share.\<close>

definition grpc_token :: "metadata option \<Rightarrow> string option" where
  "grpc_token ctx =
     (case ctx of None \<Rightarrow> None
      | Some md \<Rightarrow> (case map_of md ''authorization'' of Some (t # _) \<Rightarrow> Some t | _ \<Rightarrow> None))"

definition http_token :: "http_request \<Rightarrow> string option" where
  "http_token r =
     (case split_on CHR '' '' (Header_Get r ''Authorization'') of [_, t] \<Rightarrow> Some t | _ \<Rightarrow> None)"

definition grants :: "AuthInterceptor \<Rightarrow> string \<Rightarrow> string option \<Rightarrow> bool" where
  "grants mw rsc tok \<longleftrightarrow> RoleNone \<in> set (am mw rsc) \<or>
     (\<exists>t c. tok = Some t \<and> jm mw t = Inr c \<and> uc_Role c \<in> set (am mw rsc))"

lemma authorize_grants: "authorize mw ctx method = None \<longleftrightarrow> grants mw method (grpc_token ctx)"
  by (auto simp: authorize_def grants_def grpc_token_def Let_def list_ex_iff
      split: option.splits list.splits sum.splits)

lemma length_2_cases: "length xs = 2 \<longleftrightarrow> (\<exists>a b. xs = [a, b])"
  by (auto simp: numeral_2_eq_2 length_Suc_conv)

lemma JWT_grants:
  "JWT mw next_handler r =
    (if grants mw (req_URL r) (http_token r) then Served (next_handler r)
     else case http_token r of
       None \<Rightarrow> HttpError (ErrorString ''token is absent'') StatusBadRequest
     | Some t \<Rightarrow> HttpError (case jm mw t of Inr _ \<Rightarrow> ErrorString ''invalid role for resource''
           | Inl err \<Rightarrow> Wrapped ''failed verifying token'' err) StatusUnauthorized)"
proof (cases "\<exists>a t. split_on CHR '' '' (Header_Get r ''Authorization'') = [a, t]")
  case True
  then obtain a t where "split_on CHR '' '' (Header_Get r ''Authorization'') = [a, t]" by blast
  then show ?thesis
    by (cases "jm mw t") (auto simp: JWT_def grants_def http_token_def Let_def list_ex_iff)
next
  case False
  then have "length (split_on CHR '' '' (Header_Get r ''Authorization'')) \<noteq> 2" "http_token r = None"
    by (auto simp: length_2_cases http_token_def split: list.splits)
  then show ?thesis by (auto simp: JWT_def grants_def Let_def list_ex_iff)
qed

locale access_gate = acl_interface authorized allowed
  for authorized :: "string \<Rightarrow> Role \<Rightarrow> bool" and allowed :: "string \<Rightarrow> Role list" +
  fixes verify :: "string \<Rightarrow> UserClaims result"
begin

text \<open>Access is granted to the roles the ACL authorizes, and to everybody where it authorizes
  \<^verbatim>\<open>none\<close>.\<close>

lemma grants_authorized:
  "grants \<lparr>jm = verify, am = allowed\<rparr> rsc tok \<longleftrightarrow> authorized rsc RoleNone \<or>
    (\<exists>t c. tok = Some t \<and> verify t = Inr c \<and> authorized rsc (uc_Role c))"
proof -
  have none: "RoleNone \<in> set (allowed rsc) \<longleftrightarrow> authorized rsc RoleNone"
    by (rule allowed_authorized) (simp add: valid_role_def aclMap_def)
  have role: "r \<in> set (allowed rsc) \<longleftrightarrow> authorized rsc r" if "\<not> authorized rsc RoleNone" for r
  proof (cases "valid_role r")
    case False
    with that none show ?thesis using closed_allowed_valid unknown_role_closed by blast
  qed (rule allowed_authorized)
  show ?thesis using none role by (auto simp: grants_def)
qed

text \<open>A caller with a valid token keeps its access when its role is raised.\<close>

lemma grants_mono:
  assumes "grants \<lparr>jm = verify, am = allowed\<rparr> rsc (Some t)" "verify t = Inr c" "verify t' = Inr c'"
    and "aclMap (uc_Role c) = Some l" "aclMap (uc_Role c') = Some l'" "l \<le> l'"
  shows "grants \<lparr>jm = verify, am = allowed\<rparr> rsc (Some t')"
  using assms authorized_mono [of rsc "uc_Role c" l "uc_Role c'" l'] unfolding grants_authorized by auto

end

interpretation gate: access_gate "Authorized S st" "Allowed S st" "Verify L manager now"
  for S :: "'s acl_store" and st L manager now
  by unfold_locales

text \<open>
  C2: the gRPC interceptor enforces the ACL on verified identities. A unary call reaches its
  handler exactly when the ACL authorizes the role \<^verbatim>\<open>none\<close> for the method, or the call carries
  a token that verifies and the ACL authorizes the role in its claims; every other call ends
  in an \<^verbatim>\<open>Unauthenticated\<close> or \<^verbatim>\<open>PermissionDenied\<close> status and the handler does not run. The same
  holds of streams.
\<close>

theorem grpc_access_control:
  "let mw = NewAuthInterceptor (Verify L manager now) (Allowed S st) in
     if Authorized S st method RoleNone \<or>
        (\<exists>t c. grpc_token (Context stream) = Some t \<and> Verify L manager now t = Inr c \<and>
          Authorized S st method (uc_Role c))
     then Unary mw (Context stream) req method handler = handler (Context stream) req \<and>
        Stream mw srv stream Context method shandler = shandler srv stream
     else \<exists>e. (e = PermissionDenied (ErrorString ''no permission to access this RPC'') \<or> (\<exists>m. e = Unauthenticated m)) \<and>
        Unary mw (Context stream) req method handler = Inl e \<and>
        Stream mw srv stream Context method shandler = Some e"
proof -
  define mw where "mw = NewAuthInterceptor (Verify L manager now) (Allowed S st)"
  have mw: "mw = \<lparr>jm = Verify L manager now, am = Allowed S st\<rparr>"
    by (simp add: mw_def NewAuthInterceptor_def)
  have iff: "authorize mw (Context stream) method = None \<longleftrightarrow> Authorized S st method RoleNone \<or>
      (\<exists>t c. grpc_token (Context stream) = Some t \<and> Verify L manager now t = Inr c \<and>
        Authorized S st method (uc_Role c))"
    unfolding mw authorize_grants by (rule gate.grants_authorized)
  have kind: "e = PermissionDenied (ErrorString ''no permission to access this RPC'') \<or> (\<exists>m. e = Unauthenticated m)"
    if "authorize mw (Context stream) method = Some e" for e
    using that by (auto simp: authorize_def Let_def split: if_splits option.splits list.splits sum.splits)
  show ?thesis
  proof (cases "authorize mw (Context stream) method")
    case None
    with iff show ?thesis unfolding mw_def [symmetric] by (simp add: Unary_def Stream_def)
  next
    case (Some e)
    with iff kind [OF Some] show ?thesis unfolding mw_def [symmetric] Let_def
      by (auto simp: Unary_def Stream_def)
  qed
qed

text \<open>
  C30: the two transports agree. A request over HTTP whose \<^verbatim>\<open>Authorization\<close> header and a gRPC
  call whose metadata present the same token (or none) for the same resource are both
  served or both refused; the HTTP request is refused with status 400 when no token is
  presented and with 401 otherwise.
\<close>

theorem transports_agree:
  assumes "http_token r = grpc_token ctx" "req_URL r = method"
  shows "(JWT mw next_handler r = Served (next_handler r) \<longleftrightarrow> authorize mw ctx method = None) \<and>
    (authorize mw ctx method \<noteq> None \<longrightarrow>
      (\<exists>msg. JWT mw next_handler r =
        HttpError msg (if grpc_token ctx = None then StatusBadRequest else StatusUnauthorized)))"
  using assms by (auto simp: JWT_grants authorize_grants split: option.splits)

lemma split_bearer: "split_on CHR '' '' (''Bearer '' @ t) = ''Bearer'' # split_on CHR '' '' t"
  using split_on_append_sep [of "CHR '' ''" "''Bearer''" t] by simp

lemma bearer_token:
  "CHR '' '' \<notin> set t \<Longrightarrow> map_of (req_Header r) ''Authorization'' = Some [''Bearer '' @ t] \<Longrightarrow> http_token r = Some t"
  using split_bearer [of t] by (simp add: http_token_def Header_Get_def split_on_no_sep)

theorem transports_agree_witness:
  "\<exists>mw :: AuthInterceptor.
    JWT mw (\<lambda>_. True) \<lparr>req_URL = ''/m'', req_Header = [(''Authorization'', [''Bearer tok''])]\<rparr> = Served True \<and>
    authorize mw (Some [(''authorization'', [''tok''])]) ''/m'' = None"
proof -
  let ?mw = "\<lparr>jm = (\<lambda>_. Inr (zero_claims\<lparr>uc_Role := Admin\<rparr>)), am = (\<lambda>_. [Admin])\<rparr>"
  let ?r = "\<lparr>req_URL = ''/m'', req_Header = [(''Authorization'', [''Bearer tok''])]\<rparr>"
  have t: "http_token ?r = grpc_token (Some [(''authorization'', [''tok''])])"
    by (simp add: http_token_def grpc_token_def Header_Get_def)
  have "authorize ?mw (Some [(''authorization'', [''tok''])]) ''/m'' = None"
    by (simp add: authorize_def zero_claims_def role_defs Let_def)
  with transports_agree [OF t, of "''/m''" ?mw "\<lambda>_. True"] show ?thesis by auto
qed

text \<open>A store that cannot be read opens every resource: the check returns before it looks at a token.\<close>

lemma read_error_opens:
  assumes "st_Read S st \<lparr>acl_Key = method, acl_Roles = 0\<rparr> = Inl err"
  shows "authorize (NewAuthInterceptor (Verify L manager now) (Allowed S st)) None method = None"
  using assms by (simp add: authorize_def NewAuthInterceptor_def Allowed_def)

end
