(* ===== verification/Grpc_Mux.thy ===== *)
theory Grpc_Mux
  imports Go_Prelude
begin

text \<open>
  \<^verbatim>\<open>modules/grpc/mux/mux.go\<close>: one \<^verbatim>\<open>net.Listener\<close> in front of several. \<^verbatim>\<open>Start\<close> starts the listeners
  and one task for each; the tasks move connections into a channel of capacity 50, from
  which \<^verbatim>\<open>Accept\<close> takes them; \<^verbatim>\<open>Close\<close> closes the listeners and waits for the tasks.

  The listeners and the task manager are parameters: what their calls return is given for
  each listener in a \<open>start_env\<close>. The tasks, \<^verbatim>\<open>Accept\<close>, the cancellation and the end of the task
  manager's context run concurrently and are a labelled step relation.
\<close>

section \<open>State\<close>

datatype mux_status = NotRunning | Running | FailedToStart goerror | FailedWith goerror

text \<open>A listener is a number. A task is where its loop is: in the listener's \<^verbatim>\<open>Accept\<close>, in the \<^verbatim>\<open>select\<close>
  with the connection it has accepted, or past its end.\<close>

datatype 'c task_pc = Accepting | Sending 'c | Ended

record 'c mux_task =
  mt_listener :: nat
  mt_tag :: string
  mt_pc :: "'c task_pc"

text \<open>\<open>mx_wg\<close> is the counter of the wait group; \<open>mx_cancelled\<close> tells whether the mux's context has ended,
  \<open>mx_tmDone\<close> whether the task manager's has, which is the one the tasks are given.\<close>

record 'c Mux =
  mx_listeners :: "string list"
  mx_status :: "mux_status gomap"
  mx_addrs :: "string list"
  mx_closers :: "nat list"
  mx_wg :: nat
  mx_tasks :: "'c mux_task list"
  mx_connChan :: "'c list"
  mx_cancelled :: bool
  mx_tmDone :: bool

definition chan_capacity :: nat where "chan_capacity = 50"

definition updateStatus :: "'c Mux \<Rightarrow> string \<Rightarrow> mux_status \<Rightarrow> 'c Mux" where
  "updateStatus m key v = m\<lparr>mx_status := AList.update key v (mx_status m)\<rparr>"

definition Status_mux :: "'c Mux \<Rightarrow> mux_status gomap" where
  "Status_mux m = mx_status m"

definition New_mux :: "string list \<Rightarrow> 'c Mux" where
  "New_mux tags =
     fold (\<lambda>tag m. updateStatus m tag NotRunning) tags
       \<lparr>mx_listeners = tags, mx_status = [], mx_addrs = [], mx_closers = [], mx_wg = 0, mx_tasks = [],
        mx_connChan = [], mx_cancelled = False, mx_tmDone = False\<rparr>"

section \<open>Start\<close>

text \<open>What happens for one listener: the result of its \<^verbatim>\<open>Start\<close> (listener and address), the error
  of \<^verbatim>\<open>tm.GoFunc\<close>, and which of the task's start and the end of the context came first.\<close>

record start_env =
  se_Start :: "(nat \<times> string) result"
  se_GoFunc :: "goerror option"
  se_ctxErr :: "goerror option"

definition start_one :: "'c Mux \<Rightarrow> string \<times> start_env \<Rightarrow> 'c Mux \<times> goerror option" where
  "start_one m te =
     (case se_Start (snd te) of
        Inl err \<Rightarrow> (m, Some err)
      | Inr (l, addr) \<Rightarrow>
          (let m1 = m\<lparr>mx_closers := mx_closers m @ [l], mx_addrs := mx_addrs m @ [addr], mx_wg := mx_wg m + 1\<rparr> in
           case se_GoFunc (snd te) of
             Some err \<Rightarrow> (updateStatus m1 (fst te) (FailedToStart err), None)
           | None \<Rightarrow>
               (let m2 = m1\<lparr>mx_tasks := mx_tasks m1 @ [\<lparr>mt_listener = l, mt_tag = fst te, mt_pc = Accepting\<rparr>]\<rparr> in
                case se_ctxErr (snd te) of
                  None \<Rightarrow> (updateStatus m2 (fst te) Running, None)
                | Some err \<Rightarrow> (m2, Some err))))"

definition Start_mux :: "'c Mux \<Rightarrow> start_env list \<Rightarrow> 'c Mux \<times> goerror option" where
  "Start_mux m envs = each_until_error start_one m (zip (mx_listeners m) envs)"

definition Addr_mux :: "'c Mux \<Rightarrow> string" where
  "Addr_mux m = (case mx_addrs m of [] \<Rightarrow> ''0.0.0.0:0'' | a # _ \<Rightarrow> a)"

section \<open>Accepting connections\<close>

text \<open>\<^verbatim>\<open>Accept\<close> chooses among the cases that are ready; with none it blocks (no result).\<close>

definition Accept_results :: "'c Mux \<Rightarrow> ('c result \<times> 'c Mux) set" where
  "Accept_results m =
     (if mx_cancelled m then {(Inl (ErrorString ''EOF''), m)} else {}) \<union>
     (case mx_connChan m of [] \<Rightarrow> {} | c # cs \<Rightarrow> {(Inr c, m\<lparr>mx_connChan := cs\<rparr>)})"

datatype 'c mux_label =
  Accepted nat 'c | Enqueue nat 'c | Dropped nat 'c | Failed nat | Deliver 'c | Eof | Cancel | TmDone

definition set_pc :: "'c Mux \<Rightarrow> nat \<Rightarrow> 'c task_pc \<Rightarrow> 'c Mux" where
  "set_pc m i pc = m\<lparr>mx_tasks := (mx_tasks m)[i := (mx_tasks m ! i)\<lparr>mt_pc := pc\<rparr>]\<rparr>"

definition wg_Done :: "'c Mux \<Rightarrow> 'c Mux" where
  "wg_Done m = m\<lparr>mx_wg := mx_wg m - 1\<rparr>"

text \<open>The tasks' loop: a listener accepts a connection, or accepting fails, which is reported and ends
  the task. With a connection the task waits until there is room in the channel, or until its
  context is done, which drops the connection and ends the task.\<close>

inductive mux_step :: "'c Mux \<Rightarrow> 'c mux_label \<Rightarrow> 'c Mux \<Rightarrow> bool" where
  task_accept: "i < length (mx_tasks m) \<Longrightarrow> mt_pc (mx_tasks m ! i) = Accepting \<Longrightarrow>
    mux_step m (Accepted i c) (set_pc m i (Sending c))"
| task_fail: "i < length (mx_tasks m) \<Longrightarrow> mt_pc (mx_tasks m ! i) = Accepting \<Longrightarrow>
    mux_step m (Failed i) (wg_Done (set_pc (updateStatus m (mt_tag (mx_tasks m ! i)) (FailedWith err)) i Ended))"
| task_enqueue: "i < length (mx_tasks m) \<Longrightarrow> mt_pc (mx_tasks m ! i) = Sending c \<Longrightarrow>
    length (mx_connChan m) < chan_capacity \<Longrightarrow>
    mux_step m (Enqueue i c) ((set_pc m i Accepting)\<lparr>mx_connChan := mx_connChan m @ [c]\<rparr>)"
| task_drop: "i < length (mx_tasks m) \<Longrightarrow> mt_pc (mx_tasks m ! i) = Sending c \<Longrightarrow> mx_tmDone m \<Longrightarrow>
    mux_step m (Dropped i c) (wg_Done (set_pc m i Ended))"
| mux_accept: "(Inr c, m') \<in> Accept_results m \<Longrightarrow> mux_step m (Deliver c) m'"
| mux_eof: "(Inl e, m') \<in> Accept_results m \<Longrightarrow> mux_step m Eof m'"
| mux_cancel: "mux_step m Cancel (m\<lparr>mx_cancelled := True\<rparr>)"
| tm_done: "mux_step m TmDone (m\<lparr>mx_tmDone := True\<rparr>)"

inductive mux_run :: "'c Mux \<Rightarrow> 'c mux_label list \<Rightarrow> 'c Mux \<Rightarrow> bool" where
  run_nil: "mux_run m [] m"
| run_step: "mux_step m l m' \<Longrightarrow> mux_run m' ls m'' \<Longrightarrow> mux_run m (l # ls) m''"

inductive_cases mux_run_NilE: "mux_run m [] m'"

section \<open>Close\<close>

text \<open>\<^verbatim>\<open>Close\<close> cancels, closes every listener and waits for the tasks, three seconds at most: \<open>m'\<close>
  is the state the tasks have reached by then.\<close>

definition Close_mux :: "(nat \<Rightarrow> goerror option) \<Rightarrow> 'c Mux \<Rightarrow> 'c Mux \<Rightarrow> goerror option" where
  "Close_mux listener_Close m m' =
     (let errs = fold (\<lambda>l errs. Append_error errs (listener_Close l)) (mx_closers m) [];
          errs = (if mx_wg m' = 0 then errs else errs @ [ErrorString ''failed to stop listeners''])
      in ErrorOrNil errs)"

section \<open>Where the connections go\<close>

text \<open>The connections a run has accepted, enqueued and dropped by the task of a listener, and those it has
  enqueued and handed out altogether.\<close>

fun accepted_by :: "nat \<Rightarrow> 'c mux_label list \<Rightarrow> 'c list" where
  "accepted_by i [] = []"
| "accepted_by i (Accepted j c # ls) = (if j = i then [c] else []) @ accepted_by i ls"
| "accepted_by i (_ # ls) = accepted_by i ls"

fun enqueued_by :: "nat \<Rightarrow> 'c mux_label list \<Rightarrow> 'c list" where
  "enqueued_by i [] = []"
| "enqueued_by i (Enqueue j c # ls) = (if j = i then [c] else []) @ enqueued_by i ls"
| "enqueued_by i (_ # ls) = enqueued_by i ls"

fun dropped_by :: "nat \<Rightarrow> 'c mux_label list \<Rightarrow> 'c list" where
  "dropped_by i [] = []"
| "dropped_by i (Dropped j c # ls) = (if j = i then [c] else []) @ dropped_by i ls"
| "dropped_by i (_ # ls) = dropped_by i ls"

fun enqueued :: "'c mux_label list \<Rightarrow> 'c list" where
  "enqueued [] = []"
| "enqueued (Enqueue i c # ls) = c # enqueued ls"
| "enqueued (_ # ls) = enqueued ls"

fun delivered :: "'c mux_label list \<Rightarrow> 'c list" where
  "delivered [] = []"
| "delivered (Deliver c # ls) = c # delivered ls"
| "delivered (_ # ls) = delivered ls"

fun held :: "'c task_pc \<Rightarrow> 'c list" where
  "held (Sending c) = [c]"
| "held _ = []"

lemma task_label_Cons:
  "accepted_by i (l # ls) = accepted_by i [l] @ accepted_by i ls" "enqueued_by i (l # ls) = enqueued_by i [l] @ enqueued_by i ls"
  "dropped_by i (l # ls) = dropped_by i [l] @ dropped_by i ls"
  by (cases l; simp)+

lemma label_Cons: "enqueued (l # ls) = enqueued [l] @ enqueued ls" "delivered (l # ls) = delivered [l] @ delivered ls"
  by (cases l; simp)+

lemmas mux_updates = set_pc_def wg_Done_def updateStatus_def Accept_results_def

lemma mux_step_channel:
  "mux_step m l m' \<Longrightarrow> mx_connChan m @ enqueued [l] = delivered [l] @ mx_connChan m'"
  by (induction rule: mux_step.induct) (auto simp: mux_updates split: if_splits list.splits)

lemma mux_step_capacity:
  "mux_step m l m' \<Longrightarrow> length (mx_connChan m) \<le> chan_capacity \<Longrightarrow> length (mx_connChan m') \<le> chan_capacity"
  by (induction rule: mux_step.induct) (auto simp: mux_updates split: if_splits list.splits)

lemma mux_step_tasks: "mux_step m l m' \<Longrightarrow> length (mx_tasks m') = length (mx_tasks m)"
  by (induction rule: mux_step.induct) (auto simp: mux_updates split: if_splits list.splits)

text \<open>What a task has accepted it has enqueued or dropped, or it still holds it; once it has dropped a
  connection it accepts no other.\<close>

lemma mux_step_task:
  assumes "mux_step m l m'" "i < length (mx_tasks m)"
  shows "held (mt_pc (mx_tasks m ! i)) @ accepted_by i [l] =
      enqueued_by i [l] @ dropped_by i [l] @ held (mt_pc (mx_tasks m' ! i))"
    and "mt_pc (mx_tasks m ! i) = Ended \<Longrightarrow> mt_pc (mx_tasks m' ! i) = Ended \<and>
      accepted_by i [l] = [] \<and> enqueued_by i [l] = [] \<and> dropped_by i [l] = []"
    and "dropped_by i [l] \<noteq> [] \<Longrightarrow> mx_tmDone m \<and> mt_pc (mx_tasks m' ! i) = Ended"
  using assms by (induction rule: mux_step.induct)
    (auto simp: mux_updates nth_list_update split: if_splits list.splits)

lemma mux_step_tmDone: "mux_step m l m' \<Longrightarrow> mx_tmDone m' \<longleftrightarrow> mx_tmDone m \<or> l = TmDone"
  by (induction rule: mux_step.induct) (auto simp: mux_updates split: if_splits list.splits)

lemma mux_run_channel:
  "mux_run m ls m' \<Longrightarrow> mx_connChan m @ enqueued ls = delivered ls @ mx_connChan m'"
proof (induction rule: mux_run.induct)
  case (run_step m l m' ls m'')
  have "mx_connChan m @ enqueued (l # ls) = delivered [l] @ mx_connChan m' @ enqueued ls"
    using mux_step_channel [OF run_step.hyps(1)] unfolding label_Cons [of l ls] by (metis append.assoc)
  also have "\<dots> = delivered (l # ls) @ mx_connChan m''" unfolding label_Cons [of l ls] by (simp add: run_step.IH)
  finally show ?case .
qed simp

lemma mux_run_keeps:
  assumes "mux_run m ls m'"
  shows "length (mx_connChan m) \<le> chan_capacity \<Longrightarrow> length (mx_connChan m') \<le> chan_capacity"
    and "length (mx_tasks m') = length (mx_tasks m)" and "mx_tmDone m' \<longleftrightarrow> mx_tmDone m \<or> TmDone \<in> set ls"
  using assms by (induction rule: mux_run.induct) (auto simp: mux_step_capacity mux_step_tasks mux_step_tmDone)

lemma mux_run_ended:
  "mux_run m ls m' \<Longrightarrow> i < length (mx_tasks m) \<Longrightarrow> mt_pc (mx_tasks m ! i) = Ended \<Longrightarrow>
    mt_pc (mx_tasks m' ! i) = Ended \<and> accepted_by i ls = [] \<and> enqueued_by i ls = [] \<and> dropped_by i ls = []"
proof (induction rule: mux_run.induct)
  case (run_step m l m' ls m'')
  from mux_step_task(2) [OF run_step.hyps(1) run_step.prems] mux_step_tasks [OF run_step.hyps(1)] run_step.IH run_step.prems(1)
  show ?case unfolding task_label_Cons [of i l ls] by simp
qed simp

lemma mux_run_task:
  "mux_run m ls m' \<Longrightarrow> i < length (mx_tasks m) \<Longrightarrow>
    held (mt_pc (mx_tasks m ! i)) @ accepted_by i ls =
      enqueued_by i ls @ dropped_by i ls @ held (mt_pc (mx_tasks m' ! i)) \<and>
    length (dropped_by i ls) \<le> 1 \<and>
    (dropped_by i ls \<noteq> [] \<longrightarrow> mx_tmDone m' \<and> mt_pc (mx_tasks m' ! i) = Ended)"
proof (induction rule: mux_run.induct)
  case (run_step m l m' ls m'')
  note s = mux_step_task [OF run_step.hyps(1) run_step.prems] and i = mux_step_tasks [OF run_step.hyps(1)]
  note cons = task_label_Cons [of i l ls]
  have ih: "held (mt_pc (mx_tasks m' ! i)) @ accepted_by i ls =
      enqueued_by i ls @ dropped_by i ls @ held (mt_pc (mx_tasks m'' ! i))"
    "length (dropped_by i ls) \<le> 1" "dropped_by i ls \<noteq> [] \<longrightarrow> mx_tmDone m'' \<and> mt_pc (mx_tasks m'' ! i) = Ended"
    using run_step.IH run_step.prems i by simp_all
  have len: "length (dropped_by i [l]) \<le> 1" by (cases l) simp_all
  show ?case
  proof (cases "dropped_by i [l] = []")
    case True
    then have "held (mt_pc (mx_tasks m ! i)) @ accepted_by i [l] @ accepted_by i ls =
        enqueued_by i [l] @ enqueued_by i ls @ dropped_by i ls @ held (mt_pc (mx_tasks m'' ! i))"
      using s(1) ih(1) by (metis append.assoc append_Nil)
    with True ih(2,3) show ?thesis unfolding cons by simp
  next
    case False
    with s(3) i run_step.prems have ended: "mx_tmDone m" "mt_pc (mx_tasks m' ! i) = Ended" "i < length (mx_tasks m')" by auto
    from mux_run_ended [OF run_step.hyps(2) ended(3,2)] s(1) ended len
      mux_step_tmDone [OF run_step.hyps(1)] mux_run_keeps(3) [OF run_step.hyps(2)]
    show ?thesis unfolding cons by simp
  qed
qed simp

text \<open>After \<^verbatim>\<open>Start\<close> the channel is empty and every task that was started is accepting.\<close>

definition fresh_mux :: "'c Mux \<Rightarrow> bool" where
  "fresh_mux m \<longleftrightarrow> mx_connChan m = [] \<and> \<not> mx_tmDone m \<and> (\<forall>t \<in> set (mx_tasks m). mt_pc t = Accepting)"

lemma New_mux_fields [simp]:
  "mx_wg (New_mux tags :: 'c Mux) = 0" "mx_tasks (New_mux tags :: 'c Mux) = []"
  "mx_listeners (New_mux tags :: 'c Mux) = tags" "fresh_mux (New_mux tags :: 'c Mux)"
proof -
  have "mx_wg (fold (\<lambda>tag m. updateStatus m tag NotRunning) xs m) = mx_wg m \<and>
      mx_tasks (fold (\<lambda>tag m. updateStatus m tag NotRunning) xs m) = mx_tasks m \<and>
      mx_listeners (fold (\<lambda>tag m. updateStatus m tag NotRunning) xs m) = mx_listeners m \<and>
      mx_connChan (fold (\<lambda>tag m. updateStatus m tag NotRunning) xs m) = mx_connChan m \<and>
      mx_tmDone (fold (\<lambda>tag m. updateStatus m tag NotRunning) xs m) = mx_tmDone m"
    for xs and m :: "'c Mux"
    by (induction xs arbitrary: m) (simp_all add: updateStatus_def)
  then show "mx_wg (New_mux tags :: 'c Mux) = 0" "mx_tasks (New_mux tags :: 'c Mux) = []"
    "mx_listeners (New_mux tags :: 'c Mux) = tags" "fresh_mux (New_mux tags :: 'c Mux)" by (simp_all add: New_mux_def fresh_mux_def)
qed

lemma start_one_fresh: "fresh_mux m \<Longrightarrow> fresh_mux (fst (start_one m te))"
  by (auto simp: start_one_def fresh_mux_def updateStatus_def Let_def split: sum.splits option.splits prod.splits)

lemma start_all_fresh: "fresh_mux m \<Longrightarrow> fresh_mux (fst (each_until_error start_one m tes))"
proof (induction tes arbitrary: m)
  case (Cons te tes)
  with start_one_fresh [of m te] show ?case by (auto split: prod.splits option.splits)
qed simp

lemma Start_mux_fresh: "fresh_mux (fst (Start_mux (New_mux tags) envs))"
  unfolding Start_mux_def by (rule start_all_fresh) simp

text \<open>
  C20: no connection is lost or doubled on its way through the mux. In every run after \<^verbatim>\<open>Start\<close> of the
  listeners' tasks, \<^verbatim>\<open>Accept\<close>, cancellation and the end of the task manager's context: the connections a
  task's listener accepted are, in order, those the task put into the channel, followed by at
  most one that it still holds or, if the task manager's context has ended, dropped, after
  which the task is over; \<^verbatim>\<open>Accept\<close> hands out what was put into the channel in that order, the rest
  being still in it; and the channel never holds more than its capacity.
\<close>

theorem mux_conservation:
  assumes "mux_run (fst (Start_mux (New_mux tags) envs)) ls m'"
  shows "enqueued ls = delivered ls @ mx_connChan m' \<and> length (mx_connChan m') \<le> chan_capacity \<and>
    (\<forall>i < length (mx_tasks m').
       accepted_by i ls = enqueued_by i ls @ dropped_by i ls @ held (mt_pc (mx_tasks m' ! i)) \<and>
       length (dropped_by i ls) \<le> 1 \<and>
       (dropped_by i ls \<noteq> [] \<longrightarrow> TmDone \<in> set ls \<and> mt_pc (mx_tasks m' ! i) = Ended))"
proof -
  let ?m = "fst (Start_mux (New_mux tags) envs) :: 'a Mux"
  have "fresh_mux ?m" by (rule Start_mux_fresh)
  then have fresh: "mx_connChan ?m = []" "\<not> mx_tmDone ?m" "i < length (mx_tasks ?m) \<Longrightarrow> held (mt_pc (mx_tasks ?m ! i)) = []" for i
    by (simp_all add: fresh_mux_def)
  show ?thesis
    using mux_run_channel [OF assms] mux_run_keeps [OF assms] mux_run_task [OF assms] fresh by (auto simp del: held.simps)
qed

definition tcp_env :: start_env where
  "tcp_env = \<lparr>se_Start = Inr (0, ''a''), se_GoFunc = None, se_ctxErr = None\<rparr>"

definition tcp_mux :: "nat Mux" where
  "tcp_mux = fst (Start_mux (New_mux [''tcp'']) [tcp_env])"

lemma tcp_mux_fields [simp]:
  "mx_tasks tcp_mux = [\<lparr>mt_listener = 0, mt_tag = ''tcp'', mt_pc = Accepting\<rparr>]" "mx_connChan tcp_mux = []"
  "mx_tmDone tcp_mux = False" "mx_cancelled tcp_mux = False"
  by (simp_all add: tcp_mux_def tcp_env_def Start_mux_def New_mux_def start_one_def updateStatus_def Let_def)

theorem mux_conservation_witness:
  "\<exists>m'. mux_run tcp_mux [Accepted 0 1, Enqueue 0 1, Accepted 0 2, TmDone, Dropped 0 2] m' \<and> mx_connChan m' = [1]"
proof -
  let ?ls = "[Accepted 0 1, Enqueue 0 1, Accepted 0 2, TmDone, Dropped 0 (2 :: nat)]"
  let ?m1 = "set_pc tcp_mux 0 (Sending 1)"
  let ?m2 = "(set_pc ?m1 0 Accepting)\<lparr>mx_connChan := mx_connChan ?m1 @ [1]\<rparr>"
  let ?m3 = "set_pc ?m2 0 (Sending 2)"
  let ?m4 = "?m3\<lparr>mx_tmDone := True\<rparr>"
  let ?m5 = "wg_Done (set_pc ?m4 0 Ended)"
  have "mux_step tcp_mux (Accepted 0 1) ?m1" by (rule task_accept) simp_all
  moreover have "mux_step ?m1 (Enqueue 0 1) ?m2" by (rule task_enqueue) (simp_all add: set_pc_def chan_capacity_def)
  moreover have "mux_step ?m2 (Accepted 0 2) ?m3" by (rule task_accept) (simp_all add: set_pc_def)
  moreover have "mux_step ?m3 TmDone ?m4" by (rule tm_done)
  moreover have "mux_step ?m4 (Dropped 0 2) ?m5" by (rule task_drop) (simp_all add: set_pc_def)
  ultimately have r: "mux_run tcp_mux ?ls ?m5" by (intro run_step [OF _ run_step [OF _ run_step [OF _ run_step [OF _ run_step [OF _ run_nil]]]]])
  with mux_conservation [of "[''tcp'']" "[tcp_env]" ?ls ?m5] have "mx_connChan ?m5 = [1]" by (simp add: tcp_mux_def)
  with r show ?thesis by blast
qed

section \<open>Waiting for the tasks\<close>

text \<open>The wait group counts the tasks that have not ended and the starts of tasks that failed.\<close>

definition live_tasks :: "'c mux_task list \<Rightarrow> nat" where
  "live_tasks ts = length (filter (\<lambda>t. mt_pc t \<noteq> Ended) ts)"

definition wg_excess :: "'c Mux \<Rightarrow> nat \<Rightarrow> bool" where
  "wg_excess m k \<longleftrightarrow> mx_wg m = live_tasks (mx_tasks m) + k"

lemma live_tasks_update:
  assumes "i < length ts" "mt_pc (ts ! i) \<noteq> Ended"
  shows "live_tasks (ts[i := (ts ! i)\<lparr>mt_pc := pc\<rparr>]) = (if pc = Ended then live_tasks ts - 1 else live_tasks ts)" "0 < live_tasks ts"
proof -
  have ts: "live_tasks ts = Suc (live_tasks (take i ts) + live_tasks (drop (Suc i) ts))"
    using assms by (subst id_take_nth_drop [OF assms(1)]) (simp add: live_tasks_def)
  then show "live_tasks (ts[i := (ts ! i)\<lparr>mt_pc := pc\<rparr>]) = (if pc = Ended then live_tasks ts - 1 else live_tasks ts)" "0 < live_tasks ts"
    using assms(1) by (simp_all add: live_tasks_def upd_conv_take_nth_drop)
qed

lemma start_one_excess:
  "start_one m te = (m', None) \<Longrightarrow> wg_excess m k \<Longrightarrow>
    wg_excess m' (if se_GoFunc (snd te) = None then k else Suc k)"
  by (auto simp: start_one_def wg_excess_def live_tasks_def updateStatus_def Let_def split: sum.splits option.splits prod.splits)

lemma start_all_excess:
  "each_until_error start_one m tes = (m', None) \<Longrightarrow> wg_excess m k \<Longrightarrow>
    wg_excess m' (k + length (filter (\<lambda>te. se_GoFunc (snd te) \<noteq> None) tes))"
proof (induction tes arbitrary: m k)
  case (Cons te tes)
  then obtain m1 where m1: "start_one m te = (m1, None)" "each_until_error start_one m1 tes = (m', None)"
    by (auto split: prod.splits option.splits)
  from Cons.IH [OF m1(2) start_one_excess [OF m1(1) Cons.prems(2)]] show ?case
    by (auto split: if_splits)
qed simp

lemma Start_mux_excess:
  assumes "Start_mux (New_mux tags) envs = (m, None)" "length envs = length tags"
  shows "wg_excess m (length (filter (\<lambda>e. se_GoFunc e \<noteq> None) envs))"
proof -
  have "wg_excess (New_mux tags :: 'a Mux) 0" by (simp add: wg_excess_def live_tasks_def)
  from start_all_excess [OF assms(1) [unfolded Start_mux_def New_mux_fields] this]
  have "wg_excess m (length (filter (\<lambda>te. se_GoFunc (snd te) \<noteq> None) (zip tags envs)))" by simp
  also have "length (filter (\<lambda>te. se_GoFunc (snd te) \<noteq> None) (zip tags envs)) =
      length (filter (\<lambda>e. se_GoFunc e \<noteq> None) envs)"
    using assms(2) by (induction tags envs rule: list_induct2') simp_all
  finally show ?thesis .
qed

lemma mux_step_excess: "mux_step m l m' \<Longrightarrow> wg_excess m k \<Longrightarrow> wg_excess m' k"
proof (induction rule: mux_step.induct)
  case (task_fail i m err)
  then show ?case using live_tasks_update [of i "mx_tasks m"] by (auto simp: wg_excess_def mux_updates)
next
  case (task_drop i m c)
  then show ?case using live_tasks_update [of i "mx_tasks m"] by (auto simp: wg_excess_def mux_updates)
qed (auto simp: wg_excess_def mux_updates live_tasks_update split: if_splits list.splits)

lemma mux_run_excess: "mux_run m ls m' \<Longrightarrow> wg_excess m k \<Longrightarrow> wg_excess m' k"
  by (induction rule: mux_run.induct) (simp_all add: mux_step_excess)

text \<open>Once the listeners are closed every task that holds no connection can come to its end.\<close>

lemma all_tasks_end:
  "\<forall>t \<in> set (mx_tasks m). held (mt_pc t) = [] \<Longrightarrow> \<exists>ls m'. mux_run m ls m' \<and> live_tasks (mx_tasks m') = 0"
proof (induction "live_tasks (mx_tasks m)" arbitrary: m)
  case 0
  then show ?case using run_nil by force
next
  case (Suc n)
  then obtain i where i: "i < length (mx_tasks m)" "mt_pc (mx_tasks m ! i) \<noteq> Ended"
    unfolding live_tasks_def by (metis (mono_tags, lifting) Zero_not_Suc filter_False in_set_conv_nth list.size(3))
  with Suc.prems have a: "mt_pc (mx_tasks m ! i) = Accepting" by (cases "mt_pc (mx_tasks m ! i)") (force dest: nth_mem)+
  let ?m = "wg_Done (set_pc (updateStatus m (mt_tag (mx_tasks m ! i)) (FailedWith (ErrorString ''closed''))) i Ended)"
  have ts: "mx_tasks ?m = (mx_tasks m)[i := (mx_tasks m ! i)\<lparr>mt_pc := Ended\<rparr>]" by (simp add: mux_updates)
  have "n = live_tasks (mx_tasks ?m)" using Suc.hyps(2) live_tasks_update(1) [OF i, of Ended] ts by simp
  moreover have "\<forall>t \<in> set (mx_tasks ?m). held (mt_pc t) = []"
    using Suc.prems set_update_subset_insert [of "mx_tasks m" i] unfolding ts by fastforce
  ultimately obtain ls m' where "mux_run ?m ls m'" "live_tasks (mx_tasks m') = 0" using Suc.hyps(1) by blast
  with run_step [OF task_fail [OF i(1) a]] show ?case by blast
qed

lemma close_errors_none:
  "(\<forall>l. listener_Close l = None) \<Longrightarrow> fold (\<lambda>l errs. Append_error errs (listener_Close l)) ls errs = errs"
  by (induction ls arbitrary: errs) (simp_all add: Append_error_def)

text \<open>
  C38: when \<^verbatim>\<open>Close\<close> can succeed. If the task manager started a task for every listener, the tasks
  can all end after the listeners are closed, and \<^verbatim>\<open>Close\<close> then reports no error if no listener
  does. If it refused one, \<^verbatim>\<open>Start\<close> still returns no error, but the wait group keeps the count
  of the task that never ran: whatever the tasks do, \<^verbatim>\<open>Close\<close> waits until its timeout and
  reports that the listeners failed to stop.
\<close>

theorem mux_close_outcome:
  assumes "Start_mux (New_mux tags) envs = (m, None)" "length envs = length tags"
  shows "if \<forall>env \<in> set envs. se_GoFunc env = None
    then \<exists>ls m'. mux_run (m\<lparr>mx_cancelled := True\<rparr>) ls m' \<and>
      (\<forall>listener_Close. (\<forall>l. listener_Close l = None) \<longrightarrow> Close_mux listener_Close m m' = None)
    else \<forall>ls m' listener_Close. mux_run (m\<lparr>mx_cancelled := True\<rparr>) ls m' \<longrightarrow>
      (\<exists>errs. Close_mux listener_Close m m' = Some (MultiError (errs @ [ErrorString ''failed to stop listeners''])))"
proof -
  let ?k = "length (filter (\<lambda>e. se_GoFunc e \<noteq> None) envs)"
  have ex: "wg_excess (m\<lparr>mx_cancelled := True\<rparr>) ?k"
    using Start_mux_excess [OF assms] by (simp add: wg_excess_def)
  show ?thesis
  proof (cases "\<forall>env \<in> set envs. se_GoFunc env = None")
    case True
    then have k: "?k = 0" by (simp add: filter_empty_conv)
    have "m = fst (Start_mux (New_mux tags) envs)" using assms(1) by simp
    then have "fresh_mux m" by (simp only: Start_mux_fresh)
    then have "\<forall>t \<in> set (mx_tasks (m\<lparr>mx_cancelled := True\<rparr>)). held (mt_pc t) = []" by (simp add: fresh_mux_def)
    from all_tasks_end [OF this] obtain ls m' where
      r: "mux_run (m\<lparr>mx_cancelled := True\<rparr>) ls m'" "live_tasks (mx_tasks m') = 0" by blast
    from mux_run_excess [OF r(1) ex] k r(2) have "mx_wg m' = 0" by (simp add: wg_excess_def)
    then have "Close_mux listener_Close m m' = None" if "\<forall>l. listener_Close l = None" for listener_Close
      using close_errors_none [OF that] by (simp add: Close_mux_def ErrorOrNil_def)
    with r(1) True show ?thesis by auto
  next
    case False
    then have k: "?k \<noteq> 0" by (auto simp: filter_empty_conv)
    have "\<exists>errs. Close_mux listener_Close m m' = Some (MultiError (errs @ [ErrorString ''failed to stop listeners'']))"
      if "mux_run (m\<lparr>mx_cancelled := True\<rparr>) ls m'" for ls m' listener_Close
    proof -
      from mux_run_excess [OF that ex] k have "mx_wg m' \<noteq> 0" by (simp add: wg_excess_def)
      then show ?thesis by (simp add: Close_mux_def ErrorOrNil_def)
    qed
    with False show ?thesis by auto
  qed
qed

definition refused_env :: start_env where
  "refused_env = \<lparr>se_Start = Inr (0, ''x''), se_GoFunc = Some (ErrorString ''full''), se_ctxErr = None\<rparr>"

theorem mux_close_outcome_witness:
  "\<exists>errs. Close_mux (\<lambda>_. None) (fst (Start_mux (New_mux [''a'']) [refused_env]) :: nat Mux)
      ((fst (Start_mux (New_mux [''a'']) [refused_env]))\<lparr>mx_cancelled := True\<rparr>) =
    Some (MultiError (errs @ [ErrorString ''failed to stop listeners'']))"
proof -
  obtain m :: "nat Mux" where s: "Start_mux (New_mux [''a'']) [refused_env] = (m, None)"
    by (simp add: Start_mux_def start_one_def Let_def refused_env_def)
  have "\<not> (\<forall>env \<in> set [refused_env]. se_GoFunc env = None)" by (simp add: refused_env_def)
  with mux_close_outcome [OF s] have "\<forall>ls m' listener_Close. mux_run (m\<lparr>mx_cancelled := True\<rparr>) ls m' \<longrightarrow>
      (\<exists>errs. Close_mux listener_Close m m' = Some (MultiError (errs @ [ErrorString ''failed to stop listeners''])))"
    by simp
  with run_nil [of "m\<lparr>mx_cancelled := True\<rparr>"] s show ?thesis by simp
qed

section \<open>A full channel\<close>

text \<open>While nobody takes connections out of a full channel, a task that holds one waits for the end of the
  task manager's context.\<close>

definition waits_for_room :: "'c Mux \<Rightarrow> nat \<Rightarrow> bool" where
  "waits_for_room m i \<longleftrightarrow> length (mx_connChan m) = chan_capacity \<and> \<not> mx_tmDone m \<and>
     i < length (mx_tasks m) \<and> held (mt_pc (mx_tasks m ! i)) \<noteq> []"

lemma blocked_step:
  assumes "mux_step m l m'" "waits_for_room m i" "delivered [l] = []" "l \<noteq> TmDone"
  shows "waits_for_room m' i"
  using assms by (induction rule: mux_step.induct)
    (auto simp: waits_for_room_def mux_updates nth_list_update split: if_splits list.splits)

lemma blocked_run:
  "mux_run m ls m' \<Longrightarrow> waits_for_room m i \<Longrightarrow> delivered ls = [] \<Longrightarrow> TmDone \<notin> set ls \<Longrightarrow> waits_for_room m' i"
proof (induction rule: mux_run.induct)
  case (run_step m l m' ls m'')
  have "delivered [l] = []" "delivered ls = []" using run_step.prems(2) unfolding label_Cons(2) [of l ls] by simp_all
  with blocked_step [OF run_step.hyps(1) run_step.prems(1)] run_step show ?case by auto
qed

lemma waiting_task_counts:
  assumes "waits_for_room m i" "wg_excess m k"
  shows "mx_wg m \<noteq> 0"
proof -
  have "mt_pc (mx_tasks m ! i) \<noteq> Ended" "i < length (mx_tasks m)" using assms(1) by (auto simp: waits_for_room_def)
  from live_tasks_update(2) [OF this(2,1)] assms(2) show ?thesis by (simp add: wg_excess_def)
qed

text \<open>
  C39: \<^verbatim>\<open>Close\<close> does not free a task that waits for room in the channel. The tasks are given the task
  manager's context, not the one \<^verbatim>\<open>Close\<close> cancels. If the channel is full and a task holds a connection
  when \<^verbatim>\<open>Close\<close> is called, no \<^verbatim>\<open>Accept\<close> takes a connection any more and the task manager is not
  stopped meanwhile, then in every run the wait group stays positive and \<^verbatim>\<open>Close\<close> reports that
  the listeners failed to stop, also if every task was started and every listener closed well.
\<close>

theorem mux_close_blocked:
  assumes "Start_mux (New_mux tags) envs = (m0, None)" "length envs = length tags" "mux_run m0 ls m"
    and "length (mx_connChan m) = chan_capacity" "i < length (mx_tasks m)" "mt_pc (mx_tasks m ! i) = Sending c"
    and "mux_run (m\<lparr>mx_cancelled := True\<rparr>) ls' m'" "delivered ls' = []" "TmDone \<notin> set ls" "TmDone \<notin> set ls'"
  shows "\<exists>errs. Close_mux listener_Close m m' = Some (MultiError (errs @ [ErrorString ''failed to stop listeners'']))"
proof -
  have "m0 = fst (Start_mux (New_mux tags) envs)" using assms(1) by simp
  then have "fresh_mux m0" by (simp only: Start_mux_fresh)
  with mux_run_keeps(3) [OF assms(3)] assms(4-6,9) have "waits_for_room (m\<lparr>mx_cancelled := True\<rparr>) i"
    by (simp add: fresh_mux_def waits_for_room_def)
  from blocked_run [OF assms(7) this assms(8,10)] have waits: "waits_for_room m' i" .
  have "wg_excess (m\<lparr>mx_cancelled := True\<rparr>) (length (filter (\<lambda>e. se_GoFunc e \<noteq> None) envs))"
    using mux_run_excess [OF assms(3) Start_mux_excess [OF assms(1,2)]] by (simp add: wg_excess_def)
  from waiting_task_counts [OF waits mux_run_excess [OF assms(7) this]] show ?thesis
    by (simp add: Close_mux_def ErrorOrNil_def)
qed

text \<open>A listener that accepts connections nobody asks for.\<close>

definition filled_mux :: "nat \<Rightarrow> nat Mux" where
  "filled_mux n = tcp_mux\<lparr>mx_connChan := replicate n 7\<rparr>"

fun filling :: "nat \<Rightarrow> nat mux_label list" where
  "filling 0 = []"
| "filling (Suc n) = Accepted 0 7 # Enqueue 0 7 # filling n"

lemma fill_one:
  assumes "n < chan_capacity" "mux_run (filled_mux (Suc n)) ls m"
  shows "mux_run (filled_mux n) (Accepted 0 7 # Enqueue 0 7 # ls) m"
proof -
  let ?m = "set_pc (filled_mux n) 0 (Sending 7)"
  have "mux_step (filled_mux n) (Accepted 0 7) ?m" by (rule task_accept) (simp_all add: filled_mux_def)
  moreover have "mux_step ?m (Enqueue 0 7) ((set_pc ?m 0 Accepting)\<lparr>mx_connChan := mx_connChan ?m @ [7]\<rparr>)"
    by (rule task_enqueue) (simp_all add: set_pc_def filled_mux_def assms(1))
  moreover have "(set_pc ?m 0 Accepting)\<lparr>mx_connChan := mx_connChan ?m @ [7]\<rparr> = filled_mux (Suc n)"
    by (simp add: set_pc_def filled_mux_def replicate_append_same flip: replicate_Suc)
  ultimately show ?thesis using assms(2) by (auto intro: run_step)
qed

lemma fill: "k + n \<le> chan_capacity \<Longrightarrow> mux_run (filled_mux n) (filling k) (filled_mux (k + n))"
proof (induction k arbitrary: n)
  case (Suc k)
  then show ?case using fill_one [of n "filling k" "filled_mux (k + Suc n)"] Suc.IH [of "Suc n"] by simp
qed (simp add: run_nil)

lemma run_snoc: "mux_run m ls m' \<Longrightarrow> mux_step m' l m'' \<Longrightarrow> mux_run m (ls @ [l]) m''"
  by (induction rule: mux_run.induct) (auto intro: run_step run_nil)

theorem mux_close_blocked_witness:
  "\<exists>m errs. mux_run tcp_mux (filling chan_capacity @ [Accepted 0 8]) m \<and>
    Close_mux (\<lambda>_. None) m (m\<lparr>mx_cancelled := True\<rparr>) = Some (MultiError (errs @ [ErrorString ''failed to stop listeners'']))"
proof -
  let ?m = "set_pc (filled_mux chan_capacity) 0 (Sending 8)"
  have s: "Start_mux (New_mux [''tcp'']) [tcp_env] = (tcp_mux, None)"
    by (simp add: tcp_mux_def Start_mux_def start_one_def tcp_env_def Let_def)
  have "mux_step (filled_mux chan_capacity) (Accepted 0 8) ?m" by (rule task_accept) (simp_all add: filled_mux_def)
  moreover have "filled_mux 0 = tcp_mux" by (simp add: filled_mux_def flip: tcp_mux_fields(2))
  ultimately have r: "mux_run tcp_mux (filling chan_capacity @ [Accepted 0 8]) ?m"
    using run_snoc [OF fill [of chan_capacity 0]] by simp
  have "TmDone \<notin> set (filling n)" for n by (induction n) simp_all
  then have "\<exists>errs. Close_mux (\<lambda>_. None) ?m (?m\<lparr>mx_cancelled := True\<rparr>) =
      Some (MultiError (errs @ [ErrorString ''failed to stop listeners'']))"
    by (intro mux_close_blocked [OF s _ r, where i = 0 and ls' = "[]"]) (simp_all add: set_pc_def filled_mux_def run_nil)
  with r show ?thesis by blast
qed

end
