(* ===== verification/Node_Wiring.thy ===== *)
theory Node_Wiring
  imports Msuite_Options Inmem_Repo Auth_Middleware Grpc_Mux
begin

text \<open>
  How a node is put together from its configuration: \<^verbatim>\<open>modules/node/node.go\<close> (\<^verbatim>\<open>New\<close>,
  \<^verbatim>\<open>NewTaskManager\<close>), the option lists of \<^verbatim>\<open>modules/node/grpc/grpc.go\<close> and
  \<^verbatim>\<open>modules/node/http/http.go\<close>, the listeners of \<^verbatim>\<open>modules/node/grpc/transport.go\<close>, the
  conditional options of \<^verbatim>\<open>utils/fx.go\<close> and the HTTP handler chain. The dependency injection
  container (\<^verbatim>\<open>fx\<close>) is third party: a node is described by the list of options handed to it,
  in order, one constructor of \<open>node_option\<close> for each constructor function named in the code.
\<close>

section \<open>Conditional options\<close>

datatype node_option =
    OptContext | OptRepo | OptTaskManager | OptStatus | OptMetrics | OptTracer | OptLocker | OptAuth
  | OptP2P | OptFiles | OptEvents | OptProtocols | OptMesher | OptSharedStore | OptStatusHTTP
  | OptCancelHook | OptReporters | OptPopulate
  | GrpcMuxedListener | GrpcTCPListener | GrpcP2PListener | GrpcUDSListener
  | GrpcJwtAuth | GrpcPrometheus | GrpcTracing | GrpcValidator | GrpcRecovery
  | GrpcP2PClient | GrpcP2PAdvertiser | GrpcStaticClient | GrpcOptsAggregator | GrpcServer
  | HttpServerMux | HttpServer | HttpGateway | HttpRecovery | HttpLogging | HttpJWT | HttpTracing
  | HttpPrometheus | HttpDebug

text \<open>\<^verbatim>\<open>MaybeProvide\<close>, \<^verbatim>\<open>MaybeInvoke\<close> and \<^verbatim>\<open>MaybeOption\<close>: the options, or none.\<close>

definition MaybeOption :: "node_option list \<Rightarrow> bool \<Rightarrow> node_option list" where
  "MaybeOption opts enable = (if enable then opts else [])"

text \<open>A conjunction of flags, tested from left to right until one is not set.\<close>

fun all_set :: "JsonConfig \<Rightarrow> string list \<Rightarrow> bool outcome" where
  "all_set c [] = Ret True"
| "all_set c (f # fs) =
     (case IsSet c f of
        Panic m \<Rightarrow> Panic m
      | Ret False \<Rightarrow> Ret False
      | Ret True \<Rightarrow> all_set c fs)"

text \<open>A list of options with the flags each depends on; arguments are evaluated in order.\<close>

type_synonym option_table = "(node_option list \<times> string list) list"

fun eval_options :: "JsonConfig \<Rightarrow> option_table \<Rightarrow> node_option list outcome" where
  "eval_options c [] = Ret []"
| "eval_options c ((opts, flags) # t) =
     (case all_set c flags of
        Panic m \<Rightarrow> Panic m
      | Ret b \<Rightarrow>
          (case eval_options c t of
             Panic m \<Rightarrow> Panic m
           | Ret rest \<Rightarrow> Ret (MaybeOption opts b @ rest)))"

definition grpc_Transport :: option_table where
  "grpc_Transport = [([GrpcMuxedListener], []), ([GrpcTCPListener], [''UseTCP'']),
     ([GrpcP2PListener], [''UseP2P'', ''UseP2PGRPC'']), ([GrpcUDSListener], [''UseUDS''])]"

definition grpc_Middleware :: option_table where
  "grpc_Middleware = [([GrpcJwtAuth], [''UseAuth'']), ([GrpcPrometheus], [''UsePrometheus'']),
     ([GrpcTracing], [''UseTracing'']), ([GrpcValidator], []), ([GrpcRecovery], [])]"

definition grpc_Client :: option_table where
  "grpc_Client = [([GrpcP2PClient], [''UseP2P'']), ([GrpcP2PAdvertiser], [''UseP2P'', ''UseP2PGRPC'']),
     ([GrpcStaticClient], [''UseStaticDiscovery''])]"

definition grpc_Module :: option_table where
  "grpc_Module = grpc_Transport @ grpc_Middleware @ grpc_Client @
     [([GrpcOptsAggregator], []), ([GrpcServer], [])]"

definition http_Module :: option_table where
  "http_Module =
     [([HttpServerMux], []), ([HttpServer], []), ([HttpGateway], []), ([HttpRecovery], []), ([HttpLogging], []),
      ([HttpJWT], [''UseAuth'']), ([HttpTracing], [''UseTracing'']), ([HttpPrometheus], [''UsePrometheus'']),
      ([HttpDebug], [''UseDebug''])]"

text \<open>The call of \<^verbatim>\<open>fx.New\<close>: the gRPC and HTTP modules are built before their flag is tested.\<close>

definition base_table :: option_table where
  "base_table =
     [([OptContext], []), ([OptRepo], []), ([OptTaskManager], []), ([OptStatus], []),
      ([OptMetrics], [''UsePrometheus'']), ([OptTracer], [''UseTracing'']), ([OptLocker], [''UseLocker'']),
      ([OptAuth], [''UseAuth'']), ([OptP2P], [''UseP2P'']), ([OptFiles], [''UseP2P'', ''UseFiles''])]"

definition rest_table :: option_table where
  "rest_table =
     [([OptEvents], [''UseP2P'']), ([OptProtocols], [''UseP2P'']), ([OptMesher], [''UseP2P'']),
      ([OptSharedStore], [''UseP2P'']), ([OptStatusHTTP], [''UseHTTP'']),
      ([OptCancelHook], []), ([OptReporters], []), ([OptPopulate], [])]"

definition node_options :: "JsonConfig \<Rightarrow> node_option list outcome" where
  "node_options c =
     (case eval_options c base_table of
        Panic m \<Rightarrow> Panic m
      | Ret base \<Rightarrow>
          (case eval_options c grpc_Module of
             Panic m \<Rightarrow> Panic m
           | Ret grpc \<Rightarrow>
               (case all_set c [''UseGRPC''] of
                  Panic m \<Rightarrow> Panic m
                | Ret useGRPC \<Rightarrow>
                    (case eval_options c http_Module of
                       Panic m \<Rightarrow> Panic m
                     | Ret http \<Rightarrow>
                         (case all_set c [''UseHTTP''] of
                            Panic m \<Rightarrow> Panic m
                          | Ret useHTTP \<Rightarrow>
                              (case eval_options c rest_table of
                                 Panic m \<Rightarrow> Panic m
                               | Ret rest \<Rightarrow>
                                   Ret (base @ MaybeOption grpc useGRPC @ MaybeOption http useHTTP @ rest)))))))"

section \<open>Which options a node gets\<close>

definition flag :: "JsonConfig \<Rightarrow> string \<Rightarrow> bool" where
  "flag c k = (IsSet c k = Ret True)"

definition flags_boolean :: "JsonConfig \<Rightarrow> bool" where
  "flags_boolean c = list_all (flag_ok c) flag_keys"

lemma all_set_ok:
  "list_all (flag_ok c) fs \<Longrightarrow> all_set c fs = Ret (list_all (flag c) fs)"
  by (induction fs) (auto simp: flag_ok_def flag_def split: outcome.splits bool.splits)

text \<open>The options of a table that are enabled.\<close>

definition chosen :: "JsonConfig \<Rightarrow> option_table \<Rightarrow> node_option list" where
  "chosen c t = concat (map (\<lambda>(opts, fs). if list_all (flag c) fs then opts else []) t)"

lemma eval_options_ok:
  "flags_boolean c \<Longrightarrow> list_all (\<lambda>(opts, fs). set fs \<subseteq> set flag_keys) t \<Longrightarrow>
    eval_options c t = Ret (chosen c t)"
proof (induction t)
  case (Cons e t)
  obtain opts fs where e: "e = (opts, fs)" by (cases e)
  from Cons.prems e have "list_all (flag_ok c) fs" by (auto simp: flags_boolean_def list_all_iff)
  with Cons e show ?case by (simp add: all_set_ok MaybeOption_def chosen_def)
qed (simp add: chosen_def)

lemma table_flags:
  "list_all (\<lambda>(opts, fs). set fs \<subseteq> set flag_keys) base_table"
  "list_all (\<lambda>(opts, fs). set fs \<subseteq> set flag_keys) grpc_Module"
  "list_all (\<lambda>(opts, fs). set fs \<subseteq> set flag_keys) http_Module"
  "list_all (\<lambda>(opts, fs). set fs \<subseteq> set flag_keys) rest_table"
  by (simp_all add: base_table_def grpc_Module_def grpc_Transport_def grpc_Middleware_def grpc_Client_def
      http_Module_def rest_table_def flag_keys_def)

lemma node_options_chosen:
  assumes "flags_boolean c"
  shows "node_options c = Ret (chosen c base_table @ MaybeOption (chosen c grpc_Module) (flag c ''UseGRPC'') @
    MaybeOption (chosen c http_Module) (flag c ''UseHTTP'') @ chosen c rest_table)"
proof -
  have "flag_ok c ''UseGRPC''" "flag_ok c ''UseHTTP''"
    using assms by (simp_all add: flags_boolean_def flag_keys_def)
  then have "all_set c [''UseGRPC''] = Ret (flag c ''UseGRPC'')" "all_set c [''UseHTTP''] = Ret (flag c ''UseHTTP'')"
    by (simp_all add: all_set_ok del: all_set.simps)
  with assms show ?thesis
    by (simp add: node_options_def eval_options_ok table_flags del: all_set.simps)
qed

lemma chosen_mem [simp]:
  "opt \<in> set (chosen c []) \<longleftrightarrow> False"
  "opt \<in> set (chosen c ((opts, fs) # t)) \<longleftrightarrow> list_all (flag c) fs \<and> opt \<in> set opts \<or> opt \<in> set (chosen c t)"
  "opt \<in> set (chosen c (t @ t')) \<longleftrightarrow> opt \<in> set (chosen c t) \<or> opt \<in> set (chosen c t')"
  by (auto simp: chosen_def)

lemmas table_defs = base_table_def grpc_Module_def grpc_Transport_def grpc_Middleware_def grpc_Client_def
  http_Module_def rest_table_def

lemma node_option_mem:
  assumes "usable_config c"
  shows "\<exists>opts. node_options c = Ret opts \<and> (\<forall>opt. opt \<in> set opts \<longleftrightarrow> opt \<in> set (chosen c base_table) \<or>
    flag c ''UseGRPC'' \<and> opt \<in> set (chosen c grpc_Module) \<or>
    flag c ''UseHTTP'' \<and> opt \<in> set (chosen c http_Module) \<or> opt \<in> set (chosen c rest_table))"
proof -
  have "flags_boolean c" using assms by (simp add: usable_config_def flags_boolean_def)
  from node_options_chosen [OF this] show ?thesis by (simp add: MaybeOption_def)
qed

end
