(* ===== verification/Node_Servers.thy ===== *)
theory Node_Servers
  imports Node_Wiring
begin

text \<open>
  What the constructors of a node make of the configuration: the task manager
  (\<^verbatim>\<open>modules/node/node.go\<close>), the gRPC listeners (\<^verbatim>\<open>modules/node/grpc/transport.go\<close>), the HTTP server
  with its chain of middlewares (\<^verbatim>\<open>modules/node/http/http.go\<close>) and the distributed locker
  (\<^verbatim>\<open>modules/node/locker/handler.go\<close>). Network, task manager, lockers and the middlewares of
  other packages are parameters.
\<close>

section \<open>The task manager\<close>

text \<open>\<open>tm_New\<close> takes the least and the greatest number of workers. A key that a map lacks reads 0.\<close>

definition NewTaskManager :: "(int \<Rightarrow> int \<Rightarrow> 'tm) \<Rightarrow> JsonConfig \<Rightarrow> 'tm result" where
  "NewTaskManager tm_New cfg =
     (case Get decode_int_map cfg ''TMWorkers'' [] of
        (found, m) \<Rightarrow>
          (let m = (if found then m else AList.update ''Max'' 20 (AList.update ''Min'' 0 m));
               at = (\<lambda>k. case map_of m k of Some n \<Rightarrow> n | None \<Rightarrow> 0)
           in if at ''Max'' \<le> 0 then Inl (ErrorString ''invalid config for taskmanager workers'')
              else Inr (tm_New (at ''Min'') (at ''Max''))))"

lemma Get_absent: "\<not> Exists c k \<Longrightarrow> Get dec c k val = (False, val)"
  by (simp add: Get_def Exists_def)

lemma safe_int_range: "safe_int n \<Longrightarrow> - (2 ^ 63) \<le> n \<and> n < 2 ^ 63"
  by (auto simp: safe_int_def)

lemma decode_safe_int [simp]: "safe_int n \<Longrightarrow> decode_int old (JNum n) = (True, n)"
  using safe_int_range [of n] by (simp add: decode_int_def)

text \<open>
  The worker pool is the one asked for. With \<^verbatim>\<open>WithTaskManager(min, max)\<close> the node's task
  manager has the given minimum, and the given maximum raised by 20 when it is below 20; it
  is refused exactly when that maximum is not positive, which cannot happen for a
  maximum above -20. A node that was not told has between 0 and 20 workers.
\<close>

lemma task_manager_workers:
  assumes "wf_config (startupCfg b)" "safe_int mn" "safe_int mx" "WithTaskManager mn mx b = Ret b'"
  shows "NewTaskManager tm_New (startupCfg b') =
      (if mx \<le> - 20 then Inl (ErrorString ''invalid config for taskmanager workers'')
       else Inr (tm_New mn (if mx < 20 then mx + 20 else mx))) \<and>
    (\<not> Exists (startupCfg b) ''TMWorkers'' \<longrightarrow> NewTaskManager tm_New (startupCfg b) = Inr (tm_New 0 20))"
proof -
  let ?mx = "if mx < 20 then mx + 20 else mx"
  have safe: "safe_int ?mx" by (rule safe_int_task_max [OF assms(3)])
  have "wf_goval (GIntMap [(''Min'', mn), (''Max'', ?mx)])"
    using assms(2) safe by (simp add: wf_gomap_def)
  moreover have "startupCfg b' = Set (startupCfg b) ''TMWorkers'' (GIntMap [(''Min'', mn), (''Max'', ?mx)])"
    using assms(4) by (auto simp: WithTaskManager_def Let_def set_cfg_def)
  ultimately have "Get decode_int_map (startupCfg b') ''TMWorkers'' [] = (True, [(''Max'', ?mx), (''Min'', mn)])"
    using assms(1,2) safe by (simp add: Get_Set decode_map_def)
  then show ?thesis by (auto simp: NewTaskManager_def Let_def Get_absent)
qed

lemma task_manager_workers_sample:
  "\<exists>b'. WithTaskManager 2 5 \<lparr>startupCfg = DefaultConfig\<rparr> = Ret b' \<and> NewTaskManager Pair (startupCfg b') = Inr (2, 25)"
proof -
  obtain b' where b': "WithTaskManager 2 5 \<lparr>startupCfg = DefaultConfig\<rparr> = Ret b'" by (simp add: WithTaskManager_def)
  from task_manager_workers [OF _ _ _ b', of Pair] b' show ?thesis by (simp add: safe_int_def)
qed

section \<open>Listeners\<close>

text \<open>A listener is a tag and the call that starts it; \<open>net_Listen\<close> takes a network and an address.\<close>

record ('w, 'l) MuxListener =
  ml_Tag :: string
  ml_Start :: "'w \<Rightarrow> 'w \<times> 'l result"

definition NewTCPListener ::
  "(string \<Rightarrow> string \<Rightarrow> 'w \<Rightarrow> 'w \<times> 'l result) \<Rightarrow> JsonConfig \<Rightarrow> ('w, 'l) MuxListener result" where
  "NewTCPListener net_Listen conf =
     (case Get decode_int conf ''TCPPort'' 0 of
        (False, _) \<Rightarrow> Inl (ErrorString ''Port absent'')
      | (True, portVal) \<Rightarrow>
          Inr \<lparr>ml_Tag = ''TCP Port '' @ int_str portVal, ml_Start = net_Listen ''tcp'' ('':'' @ int_str portVal)\<rparr>)"

definition NewP2PListener :: "('w \<Rightarrow> 'w \<times> 'l result) \<Rightarrow> ('w, 'l) MuxListener result" where
  "NewP2PListener gostream_Listen = Inr \<lparr>ml_Tag = ''P2PGrpc'', ml_Start = gostream_Listen\<rparr>"

definition NewUDSListener ::
  "(string \<Rightarrow> string \<Rightarrow> 'w \<Rightarrow> 'w \<times> 'l result) \<Rightarrow> JsonConfig \<Rightarrow> ('w, 'l) MuxListener result" where
  "NewUDSListener net_Listen conf =
     (case Get decode_string conf ''UDSocket'' [] of
        (False, _) \<Rightarrow> Inl (ErrorString ''socket absent'')
      | (True, sock) \<Rightarrow> Inr \<lparr>ml_Tag = ''UDS Sock '' @ sock, ml_Start = net_Listen ''unix'' sock\<rparr>)"

section \<open>The HTTP server\<close>

text \<open>A handler works on the node's state; a middleware turns a handler into another.\<close>

type_synonym ('st, 'w) handler = "http_request \<Rightarrow> 'st \<Rightarrow> 'st \<times> 'w reply"
type_synonym ('st, 'w) Middleware = "('st, 'w) handler \<Rightarrow> ('st, 'w) handler"

definition JWT_middleware :: "AuthInterceptor \<Rightarrow> ('st, 'w) Middleware" where
  "JWT_middleware mw next_handler r st =
     (case JWT mw next_handler r of
        Served run \<Rightarrow> run st
      | HttpError msg code \<Rightarrow> (st, HttpError msg code))"

record ('m, 'h) http_server =
  hs_Addr :: string
  hs_Handler :: "'m \<Rightarrow> 'h"

text \<open>The server keeps a pointer to the mux: its handler is a function of what the mux holds when a
  request comes. \<open>Handle\<close> registers the gRPC gateway, if there is one.\<close>

definition NewHTTPServer ::
  "('m \<Rightarrow> string \<Rightarrow> 'g \<Rightarrow> 'm) \<Rightarrow> ('m \<Rightarrow> 'h) \<Rightarrow> JsonConfig \<Rightarrow> 'm \<Rightarrow> 'g option \<Rightarrow>
     ('h \<Rightarrow> 'h) list \<Rightarrow> ('m \<times> ('m, 'h) http_server) result" where
  "NewHTTPServer Handle ServeHTTP c mux grpc mwares =
     (case Get decode_int c ''HTTPPort'' 0 of
        (False, _) \<Rightarrow> Inl (ErrorString ''HTTP Port not provided'')
      | (True, httpPort) \<Rightarrow>
          (let mux' = (case grpc of None \<Rightarrow> mux | Some g \<Rightarrow> Handle mux ''/'' g) in
           Inr (mux', \<lparr>hs_Addr = '':'' @ int_str httpPort,
                       hs_Handler = (\<lambda>m. fold (\<lambda>v rootHandler. v rootHandler) mwares (ServeHTTP m))\<rparr>)))"

text \<open>
  A node listens where it was told to. After \<^verbatim>\<open>WithGRPC\<close> for \<^verbatim>\<open>tcp\<close> or \<^verbatim>\<open>unix\<close> the listener
  starts on that port or socket and is reported under it; after \<^verbatim>\<open>WithHTTP\<close> the server has
  that port; without the entry each of them is refused with its error.
\<close>

lemma configured_endpoints:
  assumes "wf_config (startupCfg b)" "safe_int port"
  shows "\<exists>b\<^sub>t b\<^sub>u b\<^sub>h. WithGRPC ''tcp'' (GInt port) b = Ret b\<^sub>t \<and> WithGRPC ''unix'' (GStr sock) b = Ret b\<^sub>u \<and>
    WithHTTP port b = Ret b\<^sub>h \<and>
    NewTCPListener net_Listen (startupCfg b\<^sub>t) =
      Inr \<lparr>ml_Tag = ''TCP Port '' @ int_str port, ml_Start = net_Listen ''tcp'' ('':'' @ int_str port)\<rparr> \<and>
    NewUDSListener net_Listen (startupCfg b\<^sub>u) = Inr \<lparr>ml_Tag = ''UDS Sock '' @ sock, ml_Start = net_Listen ''unix'' sock\<rparr> \<and>
    (\<exists>m srv. NewHTTPServer Handle ServeHTTP (startupCfg b\<^sub>h) mux grpc mwares = Inr (m, srv) \<and> hs_Addr srv = '':'' @ int_str port) \<and>
    (\<not> Exists (startupCfg b) ''TCPPort'' \<longrightarrow> NewTCPListener net_Listen (startupCfg b) = Inl (ErrorString ''Port absent'')) \<and>
    (\<not> Exists (startupCfg b) ''UDSocket'' \<longrightarrow> NewUDSListener net_Listen (startupCfg b) = Inl (ErrorString ''socket absent'')) \<and>
    (\<not> Exists (startupCfg b) ''HTTPPort'' \<longrightarrow> NewHTTPServer Handle ServeHTTP (startupCfg b) mux grpc mwares =
       Inl (ErrorString ''HTTP Port not provided''))"
  using assms
  by (simp add: WithGRPC_def WithHTTP_def set_cfg_def NewTCPListener_def NewUDSListener_def NewHTTPServer_def
      Get_Set Get_absent decode_string_def Let_def)

text \<open>What the gateway does with a reply that carries a redirect in its metadata: an empty list of
  values under the key would be indexed out of range.\<close>

record http_response =
  rs_Header :: "string list gomap"
  rs_Status :: "nat option"

definition responseHeaderMatcher :: "http_response \<Rightarrow> http_response outcome" where
  "responseHeaderMatcher w =
     (case map_of (rs_Header w) ''Grpc-Metadata-Location'' of
        None \<Rightarrow> Ret w
      | Some [] \<Rightarrow> Panic ''index out of range''
      | Some (loc # _) \<Rightarrow>
          Ret (w\<lparr>rs_Header := AList.update ''Location'' [loc] (rs_Header w), rs_Status := Some 302\<rparr>))"

text \<open>A reply whose metadata names a location, as headers with at least one value do, becomes a
  redirect to the first of them.\<close>

lemma gateway_redirects:
  assumes "map_of (rs_Header w) ''Grpc-Metadata-Location'' = Some (loc # locs)"
  obtains w' where "responseHeaderMatcher w = Ret w'" "rs_Status w' = Some 302" "map_of (rs_Header w') ''Location'' = Some [loc]"
    "\<And>k. k \<noteq> ''Location'' \<Longrightarrow> map_of (rs_Header w') k = map_of (rs_Header w) k"
  using assms by (simp add: responseHeaderMatcher_def go_simps)

section \<open>Tracing\<close>

text \<open>The name has a default, which a failed \<^verbatim>\<open>Get\<close> leaves in place.\<close>

definition NewTracer :: "(string \<Rightarrow> string \<Rightarrow> 't result) \<Rightarrow> JsonConfig \<Rightarrow> 't result" where
  "NewTracer NewJaegerTracer conf =
     (let svcName = snd (Get decode_string conf ''TracingName'' ''default'') in
      case Get decode_string conf ''TracingHost'' [] of
        (False, _) \<Rightarrow> Inl (ErrorString ''Tracing host not specified'')
      | (True, tHost) \<Rightarrow> NewJaegerTracer svcName tHost)"

lemma tracer_configured:
  assumes "wf_config (startupCfg b)" "WithTracing name host b = Ret b'"
  shows "NewTracer NewJaegerTracer (startupCfg b') = NewJaegerTracer name host"
proof -
  have b': "startupCfg b' = Set (Set (Set (startupCfg b) ''UseTracing'' (GBool True)) ''TracingName'' (GStr name)) ''TracingHost'' (GStr host)"
    using assms(2) by (auto simp: WithTracing_def set_cfg_def)
  have "wf_config (startupCfg b')" using assms(1) by (simp add: b')
  then show ?thesis by (simp add: NewTracer_def Get_doc_of) (simp add: b' doc_of_Set decode_string_def)
qed

section \<open>The distributed locker\<close>

definition NewLocker ::
  "'l \<Rightarrow> (string \<Rightarrow> int \<Rightarrow> 'l result) \<Rightarrow> (string \<Rightarrow> string \<Rightarrow> 'l) \<Rightarrow> JsonConfig \<Rightarrow> 'l result" where
  "NewLocker inmem_NewLocker NewZkLocker NewRedisLocker c =
     (case Get decode_string c ''Locker'' [] of
        (False, _) \<Rightarrow> Inl (ErrorString ''Locker not configured'')
      | (True, lk) \<Rightarrow>
          if lk = ''inmem'' then Inr inmem_NewLocker
          else if lk = ''zookeeper'' then
            (case Get decode_string c ''ZookeeperHost'' [] of
               (False, _) \<Rightarrow> Inl (ErrorString ''Zookeeper host absent'')
             | (True, host) \<Rightarrow>
                 (case Get decode_int c ''ZookeeperPort'' 0 of
                    (False, _) \<Rightarrow> Inl (ErrorString ''Zookeeper port absent'')
                  | (True, port) \<Rightarrow> NewZkLocker host port))
          else if lk = ''redis'' then
            (case Get decode_string c ''RedisHost'' [] of
               (False, _) \<Rightarrow> Inl (ErrorString ''Redis host absent'')
             | (True, host) \<Rightarrow>
                 (case Get decode_string c ''RedisNetwork'' [] of
                    (False, _) \<Rightarrow> Inl (ErrorString ''Redis host absent'')
                  | (True, netw) \<Rightarrow> Inr (NewRedisLocker netw host)))
          else Inl (ErrorString ''Invalid locker handler''))"

lemma doc_of_fold_strings:
  assumes "wf_gomap cfg"
  shows "doc_of (startupCfg (fold (\<lambda>(k, v) c. set_cfg k (GStr v) c) cfg c)) k =
    (case map_of cfg k of Some v \<Rightarrow> Some (JStr v) | None \<Rightarrow> doc_of (startupCfg c) k)"
proof -
  have "map_of (rev (map (\<lambda>(k, v). (k, GStr v)) cfg)) k = map_option GStr (map_of cfg k)"
    using assms by (simp add: wf_gomap_def rev_map map_of_map map_of_rev_distinct)
  then show ?thesis by (simp add: fold_strings_puts bc.doc_puts split: option.splits)
qed

lemma wf_fold_strings:
  "wf_config (startupCfg c) \<Longrightarrow> wf_config (startupCfg (fold (\<lambda>(k, v) c. set_cfg k (GStr v) c) cfg c))"
  unfolding fold_strings_puts by (rule bc.inv_puts) (auto simp: list_all_iff)

text \<open>
  Which locker a node gets from \<^verbatim>\<open>WithLocker\<close>. The in-memory locker needs nothing, the redis
  locker is made for the given network and host, unknown names are refused. A zookeeper
  locker is never made: the option stores every entry as a string and the port is read
  as a number, so the node reports the port as absent even when it was given.
\<close>

lemma locker_from_options:
  assumes "wf_config (startupCfg b)" "wf_gomap cfg" "map_of cfg ''Locker'' = None"
    and "\<forall>k \<in> {''RedisHost'', ''RedisNetwork'', ''ZookeeperHost'', ''ZookeeperPort''}. \<not> Exists (startupCfg b) k"
    and "WithLocker lkr cfg b = Ret b'"
  shows "NewLocker im zk rd (startupCfg b') =
    (if lkr = ''inmem'' then Inr im
     else if lkr = ''redis'' then
       (case (map_of cfg ''RedisHost'', map_of cfg ''RedisNetwork'') of
          (Some host, Some netw) \<Rightarrow> Inr (rd netw host)
        | _ \<Rightarrow> Inl (ErrorString ''Redis host absent''))
     else if lkr = ''zookeeper'' then
       Inl (ErrorString (if map_of cfg ''ZookeeperHost'' = None then ''Zookeeper host absent'' else ''Zookeeper port absent''))
     else Inl (ErrorString ''Invalid locker handler''))"
proof -
  let ?b = "set_cfg ''Locker'' (GStr lkr) (set_cfg ''UseLocker'' (GBool True) b)"
  have b': "b' = fold (\<lambda>(k, v) c. set_cfg k (GStr v) c) cfg ?b" using assms(5) by (simp add: WithLocker_def Let_def)
  have wf: "wf_config (startupCfg b')" unfolding b' by (rule wf_fold_strings) (simp add: set_cfg_def assms(1))
  have lk: "doc_of (startupCfg b') ''Locker'' = Some (JStr lkr)"
    using assms(3) unfolding b' doc_of_fold_strings [OF assms(2)] by (simp add: set_cfg_def doc_of_Set)
  have other: "doc_of (startupCfg b') k = map_option JStr (map_of cfg k)"
    if "k \<in> {''RedisHost'', ''RedisNetwork'', ''ZookeeperHost'', ''ZookeeperPort''}" for k
  proof -
    have "doc_of (startupCfg b) k = None" using assms(4) that by (auto simp: Exists_def doc_of_def split: option.splits)
    then show ?thesis using that unfolding b' doc_of_fold_strings [OF assms(2)]
      by (auto simp: set_cfg_def doc_of_Set split: option.splits)
  qed
  show ?thesis
    by (simp add: NewLocker_def Get_doc_of [OF wf] lk other decode_string_def decode_int_def split: option.splits)
qed

lemma locker_from_options_sample:
  "\<exists>b'. WithLocker ''zookeeper'' [(''ZookeeperHost'', ''zk''), (''ZookeeperPort'', ''2181'')] \<lparr>startupCfg = DefaultConfig\<rparr> = Ret b' \<and>
    NewLocker ''mem'' (\<lambda>h p. Inr h) (\<lambda>n h. h) (startupCfg b') = Inl (ErrorString ''Zookeeper port absent'')"
proof -
  let ?cfg = "[(''ZookeeperHost'', ''zk''), (''ZookeeperPort'', ''2181'')]"
  obtain b' where b': "WithLocker ''zookeeper'' ?cfg \<lparr>startupCfg = DefaultConfig\<rparr> = Ret b'"
    by (simp add: WithLocker_def Let_def)
  have "NewLocker ''mem'' (\<lambda>h p. Inr h) (\<lambda>n h. h) (startupCfg b') = Inl (ErrorString ''Zookeeper port absent'')"
    using locker_from_options [OF _ _ _ _ b', of "''mem''" "\<lambda>h p. Inr h" "\<lambda>n h. h"]
    by (simp add: wf_gomap_def Exists_def DefaultConfig_def wf_config_def)
  with b' show ?thesis by blast
qed

end
