(* ===== verification/Node_Service.thy ===== *)
theory Node_Service
  imports Node_Servers Grpc_Client
begin

text \<open>
  \<^verbatim>\<open>modules/node/node.go\<close> as its users see it: \<^verbatim>\<open>New\<close>, which chooses and opens the repository and
  assembles the node from the repository's configuration, the methods of the service it returns,
  and the status manager of \<^verbatim>\<open>modules/diag/status/status.go\<close>. The dependency injection container
  is a parameter, a function from the options to the dependencies it fills in; which of them it
  fills in follows from the constructors the options hand to it (\<open>Node_Graph\<close>).
\<close>

section \<open>Status\<close>

text \<open>A reporter is an object; \<open>status_of\<close> calls its method.\<close>

definition New_status :: "'r gomap" where
  "New_status = []"

definition AddReporter :: "'r gomap \<Rightarrow> string \<Rightarrow> 'r \<Rightarrow> 'r gomap" where
  "AddReporter m key reporter = AList.update key reporter m"

definition Status_all :: "('r \<Rightarrow> goval) \<Rightarrow> 'r gomap \<Rightarrow> goval gomap" where
  "Status_all status_of m = map (\<lambda>(k, r). (k, status_of r)) m"

text \<open>The handler of \<^verbatim>\<open>/status\<close> answers with the indented document.\<close>

definition status_handler :: "('r \<Rightarrow> goval) \<Rightarrow> 'r gomap \<Rightarrow> string reply" where
  "status_handler status_of m =
     (case MarshalIndent (GMap (Status_all status_of m)) of
        None \<Rightarrow> HttpError (ErrorString ''Failed to get status Err'') 500
      | Some buf \<Rightarrow> Served buf)"

definition svcsReporter_Status :: "JsonConfig \<Rightarrow> goval" where
  "svcsReporter_Status c =
     (case Get decode_strings c ''Services'' [] of
        (False, _) \<Rightarrow> GStr ''no services configured''
      | (True, svcs) \<Rightarrow> GStrs svcs)"

section \<open>Dependencies\<close>

text \<open>Absent dependencies are \<^verbatim>\<open>nil\<close>. The two client services are given by their method \<^verbatim>\<open>Get\<close>.\<close>

record ('o, 'conn) deps =
  dp_R :: "'o option"
  dp_Am :: "'o option"
  dp_Tm :: "'o option"
  dp_Lk :: "'o option"
  dp_Rsrv :: "'o option"
  dp_Mx :: "'o option"
  dp_Gmx :: "'o option"
  dp_H :: "'o option"
  dp_Dht :: "'o option"
  dp_P :: "'o option"
  dp_Ps :: "'o option"
  dp_Disc :: "'o option"
  dp_Jm :: "'o option"
  dp_Ev :: "'o option"
  dp_Pr :: "'o option"
  dp_PCs :: "(string \<Rightarrow> 'conn result) option"
  dp_SCs :: "(string \<Rightarrow> 'conn result) option"
  dp_ShSt :: "(string \<Rightarrow> 'o result) option"
  dp_Trcr :: "'o option"
  dp_Mtrcs :: "'o option"

text \<open>Each method returns the service itself or one of its dependencies, or an error.\<close>

definition need :: "string \<Rightarrow> 'a option \<Rightarrow> 'a result" where
  "need msg d = (case d of None \<Rightarrow> Inl (ErrorString msg) | Some x \<Rightarrow> Inr x)"

definition P2P_svc :: "('o, 'conn) deps \<Rightarrow> ('o, 'conn) deps result" where
  "P2P_svc s = (if dp_H s = None \<or> dp_Dht s = None \<or> dp_Disc s = None \<or> dp_Ps s = None
     then Inl (ErrorString ''P2P not configured'') else Inr s)"

definition Files_svc :: "('o, 'conn) deps \<Rightarrow> 'o result" where
  "Files_svc s = need ''Files service not configured'' (dp_P s)"

definition Auth_svc :: "('o, 'conn) deps \<Rightarrow> ('o, 'conn) deps result" where
  "Auth_svc s = (if dp_Jm s = None \<or> dp_Am s = None then Inl (ErrorString ''Auth not configured'') else Inr s)"

definition GRPC_svc :: "('o, 'conn) deps \<Rightarrow> ('o, 'conn) deps result" where
  "GRPC_svc s = (if dp_Rsrv s = None then Inl (ErrorString ''GRPC service not configured'') else Inr s)"

text \<open>\<^verbatim>\<open>Client\<close> returns a connection and an error, either of which may be \<^verbatim>\<open>nil\<close>. The error of the peer
  client is assigned to a variable of the inner block.\<close>

definition Client_svc :: "('o, 'conn) deps \<Rightarrow> string \<Rightarrow> 'conn option \<times> goerror option" where
  "Client_svc s name =
     (if dp_PCs s = None \<and> dp_SCs s = None then (None, Some (ErrorString ''Service discovery not configured''))
      else
        (case (case dp_SCs s of None \<Rightarrow> Inl None | Some get \<Rightarrow> (case get name of Inr conn \<Rightarrow> Inr conn | Inl err \<Rightarrow> Inl (Some err))) of
           Inr conn \<Rightarrow> (Some conn, None)
         | Inl err \<Rightarrow>
             (case dp_PCs s of
                None \<Rightarrow> (None, err)
              | Some get \<Rightarrow> (case get name of Inr conn \<Rightarrow> (Some conn, None) | Inl _ \<Rightarrow> (None, err)))))"

definition HTTP_svc :: "('o, 'conn) deps \<Rightarrow> ('o, 'conn) deps result" where
  "HTTP_svc s = (if dp_Mx s = None then Inl (ErrorString ''HTTP service not configured'') else Inr s)"

definition Locker_svc :: "('o, 'conn) deps \<Rightarrow> 'o result" where
  "Locker_svc s = need ''Locker not configured'' (dp_Lk s)"

definition Protocols_svc :: "('o, 'conn) deps \<Rightarrow> 'o result" where
  "Protocols_svc s = need ''Protocols svc not configured'' (dp_Pr s)"

definition Events_api :: "('o, 'conn) deps \<Rightarrow> 'o result" where
  "Events_api s = need ''Events not configured'' (dp_Ev s)"

definition SharedStorage_svc :: "('o, 'conn) deps \<Rightarrow> string \<Rightarrow> 'o result" where
  "SharedStorage_svc s ns =
     (case dp_ShSt s of
        None \<Rightarrow> Inl (ErrorString ''shared storage provider not configured'')
      | Some provider \<Rightarrow> provider ns)"

definition Tracing_svc :: "('o, 'conn) deps \<Rightarrow> 'o result" where
  "Tracing_svc s = need ''tracing not configured'' (dp_Trcr s)"

definition Metrics_svc :: "('o, 'conn) deps \<Rightarrow> 'o result" where
  "Metrics_svc s = need ''metrics not enabled'' (dp_Mtrcs s)"

text \<open>The methods that return a part of the service as it is.\<close>

definition Repo_svc :: "('o, 'conn) deps \<Rightarrow> 'o option" where "Repo_svc s = dp_R s"
definition TM_svc :: "('o, 'conn) deps \<Rightarrow> 'o option" where "TM_svc s = dp_Tm s"
definition Host_svc :: "('o, 'conn) deps \<Rightarrow> 'o option" where "Host_svc s = dp_H s"
definition Routing_svc :: "('o, 'conn) deps \<Rightarrow> 'o option" where "Routing_svc s = dp_Dht s"
definition Discovery_svc :: "('o, 'conn) deps \<Rightarrow> 'o option" where "Discovery_svc s = dp_Disc s"
definition Pubsub_svc :: "('o, 'conn) deps \<Rightarrow> 'o option" where "Pubsub_svc s = dp_Ps s"
definition JWT_svc :: "('o, 'conn) deps \<Rightarrow> 'o option" where "JWT_svc s = dp_Jm s"
definition ACL_svc :: "('o, 'conn) deps \<Rightarrow> 'o option" where "ACL_svc s = dp_Am s"
definition Server_svc :: "('o, 'conn) deps \<Rightarrow> 'o option" where "Server_svc s = dp_Rsrv s"
definition Mux_svc :: "('o, 'conn) deps \<Rightarrow> 'o option" where "Mux_svc s = dp_Mx s"
definition Gateway_svc :: "('o, 'conn) deps \<Rightarrow> 'o option" where "Gateway_svc s = dp_Gmx s"

lemmas part_defs = Repo_svc_def TM_svc_def Host_svc_def Routing_svc_def Discovery_svc_def Pubsub_svc_def JWT_svc_def ACL_svc_def
  Server_svc_def Mux_svc_def Gateway_svc_def

section \<open>What a service offers\<close>

text \<open>The options behind the methods of the service, under the flags that choose them.\<close>

lemma service_options:
  assumes "usable_config c" "node_options c = Ret opts"
  shows "OptAuth \<in> set opts \<longleftrightarrow> flag c ''UseAuth''" "OptLocker \<in> set opts \<longleftrightarrow> flag c ''UseLocker''"
    "GrpcServer \<in> set opts \<longleftrightarrow> flag c ''UseGRPC''" "HttpServerMux \<in> set opts \<longleftrightarrow> flag c ''UseHTTP''"
    "OptP2P \<in> set opts \<longleftrightarrow> flag c ''UseP2P''" "OptFiles \<in> set opts \<longleftrightarrow> flag c ''UseP2P'' \<and> flag c ''UseFiles''"
    "OptEvents \<in> set opts \<longleftrightarrow> flag c ''UseP2P''" "OptProtocols \<in> set opts \<longleftrightarrow> flag c ''UseP2P''"
    "OptSharedStore \<in> set opts \<longleftrightarrow> flag c ''UseP2P''" "OptTracer \<in> set opts \<longleftrightarrow> flag c ''UseTracing''"
    "OptMetrics \<in> set opts \<longleftrightarrow> flag c ''UsePrometheus''"
    "GrpcP2PClient \<in> set opts \<longleftrightarrow> flag c ''UseGRPC'' \<and> flag c ''UseP2P''"
    "GrpcStaticClient \<in> set opts \<longleftrightarrow> flag c ''UseGRPC'' \<and> flag c ''UseStaticDiscovery''"
    "OptRepo \<in> set opts" "OptTaskManager \<in> set opts" "HttpGateway \<in> set opts \<longleftrightarrow> flag c ''UseHTTP''"
proof -
  from node_option_mem [OF assms(1)] assms(2)
  have mem: "\<forall>opt. opt \<in> set opts \<longleftrightarrow> opt \<in> set (chosen c base_table) \<or>
       flag c ''UseGRPC'' \<and> opt \<in> set (chosen c grpc_Module) \<or>
       flag c ''UseHTTP'' \<and> opt \<in> set (chosen c http_Module) \<or> opt \<in> set (chosen c rest_table)"
    by simp
  show "OptAuth \<in> set opts \<longleftrightarrow> flag c ''UseAuth''" "OptLocker \<in> set opts \<longleftrightarrow> flag c ''UseLocker''"
    "GrpcServer \<in> set opts \<longleftrightarrow> flag c ''UseGRPC''" "HttpServerMux \<in> set opts \<longleftrightarrow> flag c ''UseHTTP''"
    "OptP2P \<in> set opts \<longleftrightarrow> flag c ''UseP2P''" "OptFiles \<in> set opts \<longleftrightarrow> flag c ''UseP2P'' \<and> flag c ''UseFiles''"
    "OptEvents \<in> set opts \<longleftrightarrow> flag c ''UseP2P''" "OptProtocols \<in> set opts \<longleftrightarrow> flag c ''UseP2P''"
    "OptSharedStore \<in> set opts \<longleftrightarrow> flag c ''UseP2P''" "OptTracer \<in> set opts \<longleftrightarrow> flag c ''UseTracing''"
    "OptMetrics \<in> set opts \<longleftrightarrow> flag c ''UsePrometheus''"
    "GrpcP2PClient \<in> set opts \<longleftrightarrow> flag c ''UseGRPC'' \<and> flag c ''UseP2P''"
    "GrpcStaticClient \<in> set opts \<longleftrightarrow> flag c ''UseGRPC'' \<and> flag c ''UseStaticDiscovery''"
    "OptRepo \<in> set opts" "OptTaskManager \<in> set opts" "HttpGateway \<in> set opts \<longleftrightarrow> flag c ''UseHTTP''"
    by (simp_all add: mem, simp_all add: table_defs)
qed

lemma need_error: "need msg d = Inl (ErrorString msg) \<longleftrightarrow> d = None"
  by (simp add: need_def split: option.splits)

text \<open>A configuration with the gRPC server and peer discovery.\<close>

definition peer_config :: JsonConfig where
  "peer_config = Set (Set DefaultConfig ''UseGRPC'' (GBool True)) ''UseP2P'' (GBool True)"

lemma peer_config_usable: "usable_config peer_config"
  unfolding peer_config_def by (intro usable_Set usable_default) simp_all

lemma peer_config_flags: "flag peer_config ''UseGRPC''" "flag peer_config ''UseP2P''" "\<not> flag peer_config ''UseStaticDiscovery''"
  "\<not> flag peer_config ''UseAuth''"
  by (simp_all add: flag_def IsSet_def Set_def DefaultConfig_def peer_config_def)

section \<open>Starting a node\<close>

datatype node_repo = OnDisk nat | InMemory inmemRepo

definition Config_repo :: "'d repo_world \<Rightarrow> node_repo \<Rightarrow> JsonConfig" where
  "Config_repo w r = (case r of OnDisk rp \<Rightarrow> Config_fs rp w | InMemory i \<Rightarrow> Config_mem i)"

definition open_node_repo ::
  "'k keylib \<Rightarrow> 'd dslib \<Rightarrow> (goval gomap \<Rightarrow> goval gomap) \<Rightarrow> ('d \<Rightarrow> 'd \<times> nat) \<Rightarrow> 'd repo_world \<Rightarrow> JsonConfig \<Rightarrow>
     'd repo_world \<times> node_repo result" where
  "open_node_repo kl L ord NewMapDatastore w bCfg =
     (if fst (Get decode_string bCfg ''RootPath'' []) then
        (case CreateOrOpen_fs kl L ord w bCfg of
           (w', _, Inl err) \<Rightarrow> (w', Inl err)
         | (w', _, Inr rp) \<Rightarrow> (w', Inr (OnDisk rp)))
      else
        (case CreateOrOpen_mem kl L NewMapDatastore (w_ds w) bCfg of
           (d', _, Inl err) \<Rightarrow> (w\<lparr>w_ds := d'\<rparr>, Inl err)
         | (d', _, Inr i) \<Rightarrow> (w\<lparr>w_ds := d'\<rparr>, Inr (InMemory i))))"

text \<open>The node is assembled from the configuration of the repository, not from the one it was given.\<close>

definition New_node ::
  "'k keylib \<Rightarrow> 'd dslib \<Rightarrow> (goval gomap \<Rightarrow> goval gomap) \<Rightarrow> ('d \<Rightarrow> 'd \<times> nat) \<Rightarrow> (node_option list \<Rightarrow> 'dp) \<Rightarrow>
     'd repo_world \<Rightarrow> JsonConfig \<Rightarrow> 'd repo_world \<times> (node_repo \<times> 'dp) result outcome" where
  "New_node kl L ord NewMapDatastore container w bCfg =
     (case open_node_repo kl L ord NewMapDatastore w bCfg of
        (w', Inl err) \<Rightarrow> (w', Ret (Inl err))
      | (w', Inr r) \<Rightarrow>
          (w', case node_options (Config_repo w' r) of
                 Panic m \<Rightarrow> Panic m
               | Ret opts \<Rightarrow> Ret (Inr (r, container opts))))"

section \<open>Restarting a node\<close>

lemma node_options_cong:
  assumes "\<And>k. IsSet c k = IsSet c' k"
  shows "node_options c = node_options c'"
proof -
  have flags: "all_set c fs = all_set c' fs" for fs
    by (induction fs) (simp_all add: assms split: outcome.split bool.split)
  have evals: "eval_options c t = eval_options c' t" for t
  proof (induction t)
    case (Cons e t)
    then show ?case by (cases e) (simp add: flags split: outcome.split)
  qed simp
  show ?thesis unfolding node_options_def flags evals by (rule refl)
qed

text \<open>The configuration a repository was created with, and what its file holds.\<close>

lemma first_start:
  assumes "wf_config cfg" "Get decode_string cfg ''RootPath'' [] = (True, path)" "\<not> IsInitialized w path"
    and "map_of (w_active w) path = None" "open_node_repo kl L ord NewMap w cfg = (w1, Inr r)"
  shows "\<exists>rp c' buf. r = OnDisk rp \<and> wf_config c' \<and> Reader c' = Inr buf \<and> read_file (w_fs w1) (configPath path) = Inr buf \<and>
    wf_config (Config_fs rp w1) \<and> doc_of (Config_fs rp w1) = doc_of c' \<and> (\<forall>k. IsSet (Config_fs rp w1) k = IsSet c' k) \<and>
    (\<forall>k. k \<noteq> ''Identity'' \<longrightarrow> IsSet c' k = IsSet cfg k)"
proof -
  from assms(2,3,5) obtain rp fs' c' where r: "r = OnDisk rp" and i: "Init kl (w_fs w) path cfg = (fs', c', None)"
    and o: "Open_fs L ord (w\<lparr>w_fs := fs'\<rparr>) path = (w1, Inr rp)"
    by (auto simp: open_node_repo_def CreateOrOpen_fs_def split: prod.splits option.splits sum.splits)
  have wf': "wf_config c'" by (rule Init_config [OF i assms(1)]) (use assms(1) in auto)
  obtain buf where b: "Reader c' = Inr buf" "read_file fs' (configPath path) = Inr buf" using Init_paths(1) [OF i] by blast
  let ?c = "Config_fs rp w1"
  have "wf_config ?c \<and> doc_of ?c = doc_of c' \<and> (\<forall>k. IsSet ?c k = IsSet c' k)"
    by (rule open_reads_config [OF _ b(1) wf' _ o]) (use b(2) assms(4) in simp_all)
  moreover have "read_file (w_fs w1) (configPath path) = Inr buf" by (rule Open_fs_reads [OF _ o]) (simp add: b(2))
  moreover have "\<forall>k. k \<noteq> ''Identity'' \<longrightarrow> IsSet c' k = IsSet cfg k"
    by (rule Init_config [OF i assms(1)]) (simp_all add: IsSet_Set_other)
  ultimately show ?thesis using r wf' b(1) by blast
qed

lemma later_start:
  assumes "wf_config c'" "Reader c' = Inr buf" "read_file (w_fs w) (configPath path) = Inr buf"
    and "map_of (w_active w) path = None" "Get decode_string cfg ''RootPath'' [] = (True, path)"
    and "open_node_repo kl L ord NewMap w cfg = (w1, Inr r)"
  shows "\<exists>rp. r = OnDisk rp \<and> wf_config (Config_fs rp w1) \<and> doc_of (Config_fs rp w1) = doc_of c' \<and>
    (\<forall>k. IsSet (Config_fs rp w1) k = IsSet c' k)"
proof -
  have "IsInitialized w path" unfolding IsInitialized_def isInitialized_def by (rule read_file_exists [OF assms(3)])
  with assms(5,6) obtain rp where r: "r = OnDisk rp" and o: "Open_fs L ord w path = (w1, Inr rp)"
    by (auto simp: open_node_repo_def CreateOrOpen_fs_def split: prod.splits sum.splits)
  let ?c = "Config_fs rp w1"
  have "wf_config ?c \<and> doc_of ?c = doc_of c' \<and> (\<forall>k. IsSet ?c k = IsSet c' k)"
    by (rule open_reads_config [OF assms(3,2,1,4) o]) simp_all
  with r show ?thesis by blast
qed


definition root_config :: JsonConfig where
  "root_config = Set (Set DefaultConfig ''RootPath'' (GStr ''r'')) ''Mounts'' (GMap [])"

definition blank_world :: "(nat set \<times> nat) repo_world" where
  "blank_world = sample_world\<lparr>w_fs := empty_fs, w_active := []\<rparr>"

lemma root_config_usable: "usable_config root_config"
  unfolding root_config_def by (intro usable_Set usable_default) (simp_all add: flag_keys_def wf_gomap_def)

lemma root_config_init:
  obtains fs' c' buf where "Init sample_keylib empty_fs ''r'' root_config = (fs', c', None)" "\<not> isInitialized empty_fs ''r''"
    "wf_config c'" "Reader c' = Inr buf" "doc_of c' ''Mounts'' = Some (JObj [])"
proof -
  have "\<not> fst (Get decode_any_map root_config ''Identity'' [])"
    by (simp add: root_config_def Get_def Set_def DefaultConfig_def)
  moreover obtain c' buf where c': "initIdentity sample_keylib root_config = (c', None)" "Reader c' = Inr buf"
    by (simp add: initIdentity_def sample_keylib_def identity_entries_def root_config_def Set_def DefaultConfig_def
        Reader_def Marshal_def del: b64_encode.simps)
  ultimately obtain fs' where i: "Init sample_keylib empty_fs ''r'' root_config = (fs', c', None)" "\<not> isInitialized empty_fs ''r''"
    using Init_empty_fs by blast
  have wf: "wf_config root_config" using root_config_usable by (simp add: usable_config_def)
  have "wf_config c'" by (rule Init_config [OF i(1) wf]) (use wf in auto)
  moreover have "doc_of c' ''Mounts'' = Some (JObj [])"
    by (rule Init_config [OF i(1) wf]) (simp_all add: doc_of_Set root_config_def)
  ultimately show ?thesis using that i c'(2) by blast
qed


end
