(* ===== verification/Node_Graph.thy ===== *)
theory Node_Graph
  imports Node_Service "HOL-Library.Sublist"
begin

text \<open>
  What the options of a node (\<open>Node_Wiring\<close>) hand to the dependency injection container: for every
  constructor function its parameters and results, read off its signature and its \<^verbatim>\<open>fx.Annotate\<close>
  tags, and whether it is only provided or also invoked. The container (\<^verbatim>\<open>go.uber.org/fx\<close>) is
  third party. It documents that it refuses a function whose parameter nobody provides, two
  providers of one value and cycles, and that it calls each function at most once and
  after those whose results it takes: \<open>construction\<close> is the order in which it may call them.
\<close>

section \<open>Functions and the values between them\<close>

text \<open>The values by their type and name tag, and the value groups.\<close>

datatype dep =
    DContext | DCancel | DRepo | DConfig | DBatching | DTaskManager | DStatus | DRegistry | DTracer | DLocker
  | DJWT | DACL | DPrivKey | DMainHost | DRouting | DLocalDialer | DPubsub | DDiscovery | DPeer | DEvents
  | DProtocols | DSharedStore | DMux | DGrpcMetrics | DServerOpts | DGrpcServer | DP2PClient | DStaticClient
  | DServeMux | DGateway
  | GListener | GUnary | GStream | GHttpMw

datatype ctor =
    FContext | FRepo | FTaskManager | FStatus | FMetrics | FTracer | FLocker | FJWTManager | FAclManager
  | FIdentity | FLibp2p | FLocalDialer | FPubsub | FSvcDiscovery | FMDNS | FP2PReporter | FBootstrapper
  | FNode | FEvents | FProtocols | FMesher | FSharedStore | FRegisterHTTP | FCancelHook | FReporters | FPopulate
  | FMuxedListener | FTCPListener | FP2PListener | FUDSListener | FJwtAuthOptions | FGrpcMetrics | FMetricsOpts
  | FMetricsRegister | FJaeger | FValidator | FGrpcRecovery | FP2PClient | FP2PAdvertiser | FStaticClient
  | FOptsAggregator | FGrpcServer | FServerMux | FHTTPServer | FGateway | FHttpRecovery | FLogging | FHttpJWT
  | FHttpTracing | FPromMware | FRegister | FRegisterDebug

text \<open>\<open>fn_optional\<close> are the parameters tagged \<^verbatim>\<open>optional\<close>, \<open>fn_collects\<close> and \<open>fn_feeds\<close> the groups taken and
  contributed to. The \<^verbatim>\<open>fx.Lifecycle\<close> parameter is the container's own and left out.\<close>

record fx_fn =
  fn_name :: ctor
  fn_invoke :: bool
  fn_needs :: "dep list"
  fn_optional :: "dep list"
  fn_collects :: "dep list"
  fn_gives :: "dep list"
  fn_feeds :: "dep list"

definition Provide :: "ctor \<Rightarrow> dep list \<Rightarrow> dep list \<Rightarrow> fx_fn" where
  "Provide n needs gives = \<lparr>fn_name = n, fn_invoke = False, fn_needs = needs, fn_optional = [], fn_collects = [],
     fn_gives = gives, fn_feeds = []\<rparr>"

definition Invoke :: "ctor \<Rightarrow> dep list \<Rightarrow> fx_fn" where
  "Invoke n needs = (Provide n needs [])\<lparr>fn_invoke := True\<rparr>"

definition Feed :: "ctor \<Rightarrow> dep list \<Rightarrow> dep list \<Rightarrow> fx_fn" where
  "Feed n needs groups = (Provide n needs [])\<lparr>fn_feeds := groups\<rparr>"

section \<open>The modules\<close>

definition locker_Module :: "fx_fn list" where
  "locker_Module = [Provide FLocker [DConfig] [DLocker]]"

definition auth_Module :: "fx_fn list" where
  "auth_Module = [Provide FJWTManager [DConfig] [DJWT], (Provide FAclManager [DRepo] [DACL])\<lparr>fn_optional := [DSharedStore]\<rparr>]"

definition P2PModule :: "fx_fn list" where
  "P2PModule =
     [Provide FIdentity [DConfig] [DPrivKey],
      Provide FLibp2p [DContext, DConfig, DPrivKey] [DMainHost, DRouting],
      Provide FLocalDialer [] [DLocalDialer],
      Provide FPubsub [DContext, DMainHost] [DPubsub],
      Provide FSvcDiscovery [DRouting] [DDiscovery],
      Invoke FMDNS [DContext, DMainHost],
      Invoke FP2PReporter [DMainHost, DStatus],
      Invoke FBootstrapper [DConfig, DTaskManager, DMainHost]]"

definition FilesModule :: "fx_fn list" where
  "FilesModule = [Provide FNode [DContext, DMainHost, DRouting, DBatching] [DPeer]]"

definition JwtAuth_opt :: "fx_fn list" where
  "JwtAuth_opt = [Feed FJwtAuthOptions [DJWT, DACL] [GUnary, GStream]]"

definition grpc_Prometheus :: "fx_fn list" where
  "grpc_Prometheus =
     [Provide FGrpcMetrics [] [DGrpcMetrics],
      Feed FMetricsOpts [DConfig, DGrpcMetrics] [GUnary, GStream],
      Invoke FMetricsRegister [DRegistry, DGrpcServer, DGrpcMetrics]]"

definition http_Prometheus :: "fx_fn list" where
  "http_Prometheus = [Feed FPromMware [] [GHttpMw], Invoke FRegister [DServeMux, DRegistry]]"

text \<open>\<^verbatim>\<open>fx.Populate(&dp)\<close>: three required fields, the others optional.\<close>

definition Populate_deps :: fx_fn where
  "Populate_deps = (Invoke FPopulate [DContext, DCancel, DRepo])\<lparr>fn_optional :=
     [DACL, DTaskManager, DLocker, DGrpcServer, DServeMux, DGateway, DMainHost, DRouting, DPeer, DPubsub, DDiscovery,
      DJWT, DEvents, DProtocols, DP2PClient, DStaticClient, DSharedStore, DTracer, DRegistry]\<rparr>"

fun fx_functions :: "node_option \<Rightarrow> fx_fn list" where
  "fx_functions OptContext = [Provide FContext [] [DContext, DCancel]]"
| "fx_functions OptRepo = [Provide FRepo [] [DRepo, DConfig, DBatching]]"
| "fx_functions OptTaskManager = [Provide FTaskManager [DConfig] [DTaskManager]]"
| "fx_functions OptStatus = [Provide FStatus [] [DStatus]]"
| "fx_functions OptMetrics = [Provide FMetrics [] [DRegistry]]"
| "fx_functions OptTracer = [Provide FTracer [DConfig] [DTracer]]"
| "fx_functions OptLocker = locker_Module"
| "fx_functions OptAuth = auth_Module"
| "fx_functions OptP2P = P2PModule"
| "fx_functions OptFiles = FilesModule"
| "fx_functions OptEvents = [Provide FEvents [DPubsub, DTaskManager] [DEvents]]"
| "fx_functions OptProtocols = [Provide FProtocols [DMainHost] [DProtocols]]"
| "fx_functions OptMesher = [Invoke FMesher [DProtocols, DMainHost, DTaskManager]]"
| "fx_functions OptSharedStore = [Provide FSharedStore [DConfig, DBatching, DMainHost, DRouting, DPubsub] [DSharedStore]]"
| "fx_functions OptStatusHTTP = [Invoke FRegisterHTTP [DStatus, DServeMux]]"
| "fx_functions OptCancelHook = [Invoke FCancelHook [DCancel]]"
| "fx_functions OptReporters = [Invoke FReporters [DConfig, DTaskManager, DStatus]]"
| "fx_functions OptPopulate = [Populate_deps]"
| "fx_functions GrpcMuxedListener =
     [(Provide FMuxedListener [DContext, DTaskManager] [DMux])\<lparr>fn_optional := [DStatus], fn_collects := [GListener]\<rparr>]"
| "fx_functions GrpcTCPListener = [Feed FTCPListener [DConfig] [GListener]]"
| "fx_functions GrpcP2PListener = [Feed FP2PListener [DMainHost] [GListener]]"
| "fx_functions GrpcUDSListener = [Feed FUDSListener [DConfig] [GListener]]"
| "fx_functions GrpcJwtAuth = JwtAuth_opt"
| "fx_functions GrpcPrometheus = grpc_Prometheus"
| "fx_functions GrpcTracing = [Feed FJaeger [DTracer] [GUnary]]"
| "fx_functions GrpcValidator = [Feed FValidator [] [GUnary, GStream]]"
| "fx_functions GrpcRecovery = [Feed FGrpcRecovery [] [GUnary, GStream]]"
| "fx_functions GrpcP2PClient = [Provide FP2PClient [DConfig, DDiscovery, DLocalDialer, DMainHost] [DP2PClient]]"
| "fx_functions GrpcP2PAdvertiser = [Invoke FP2PAdvertiser [DConfig, DDiscovery, DTaskManager]]"
| "fx_functions GrpcStaticClient = [Provide FStaticClient [DConfig] [DStaticClient]]"
| "fx_functions GrpcOptsAggregator = [(Provide FOptsAggregator [] [DServerOpts])\<lparr>fn_collects := [GUnary, GStream]\<rparr>]"
| "fx_functions GrpcServer = [Provide FGrpcServer [DServerOpts, DMux, DStatus] [DGrpcServer]]"
| "fx_functions HttpServerMux = [Provide FServerMux [] [DServeMux]]"
| "fx_functions HttpServer = [(Invoke FHTTPServer [DConfig, DServeMux, DGateway, DStatus])\<lparr>fn_collects := [GHttpMw]\<rparr>]"
| "fx_functions HttpGateway = [Provide FGateway [] [DGateway]]"
| "fx_functions HttpRecovery = [Feed FHttpRecovery [] [GHttpMw]]"
| "fx_functions HttpLogging = [Feed FLogging [] [GHttpMw]]"
| "fx_functions HttpJWT = [Feed FHttpJWT [DJWT, DACL] [GHttpMw]]"
| "fx_functions HttpTracing = [Feed FHttpTracing [DTracer] [GHttpMw]]"
| "fx_functions HttpPrometheus = http_Prometheus"
| "fx_functions HttpDebug = [Invoke FRegisterDebug [DServeMux]]"

definition node_functions :: "node_option list \<Rightarrow> fx_fn list" where
  "node_functions opts = concat (map fx_functions opts)"

lemmas module_defs = locker_Module_def auth_Module_def P2PModule_def FilesModule_def JwtAuth_opt_def grpc_Prometheus_def
  http_Prometheus_def Populate_deps_def Provide_def Invoke_def Feed_def

section \<open>What the container asks of a list of functions\<close>

definition fn_inputs :: "fx_fn \<Rightarrow> dep list" where
  "fn_inputs f = fn_needs f @ fn_optional f @ fn_collects f"

definition fn_outputs :: "fx_fn \<Rightarrow> dep list" where
  "fn_outputs f = fn_gives f @ fn_feeds f"

definition complete :: "fx_fn list \<Rightarrow> bool" where
  "complete fns \<longleftrightarrow> (\<forall>f \<in> set fns. \<forall>d \<in> set (fn_needs f). \<exists>g \<in> set fns. d \<in> set (fn_gives g))"

definition one_provider :: "fx_fn list \<Rightarrow> bool" where
  "one_provider fns \<longleftrightarrow> distinct (concat (map fn_gives fns))"

definition depends :: "fx_fn \<Rightarrow> fx_fn \<Rightarrow> bool" where
  "depends f g \<longleftrightarrow> set (fn_inputs f) \<inter> set (fn_outputs g) \<noteq> {}"

text \<open>An order in which the container may call them: each once, the invoked ones all and in
  their order, everything a function takes before the function.\<close>

definition construction :: "fx_fn list \<Rightarrow> fx_fn list \<Rightarrow> bool" where
  "construction fns order \<longleftrightarrow> distinct order \<and> set order \<subseteq> set fns \<and> filter fn_invoke order = filter fn_invoke fns \<and>
     (\<forall>us f vs. order = us @ f # vs \<longrightarrow> (\<forall>g \<in> set fns. depends f g \<longrightarrow> g \<in> set us))"

section \<open>Functions in ranks\<close>

text \<open>
  The contract of a table of functions in which every result lies above the parameters it is made
  from: there are no cycles, and sorting by rank puts each function after those it depends on.
\<close>

locale ranked_functions =
  fixes fns :: "'f set" and inputs :: "'f \<Rightarrow> 'd list" and outputs :: "'f \<Rightarrow> 'd list" and dep_rank :: "'d \<Rightarrow> nat"
  assumes ranked: "f \<in> fns \<Longrightarrow> d \<in> set (inputs f) \<Longrightarrow> e \<in> set (outputs f) \<Longrightarrow> dep_rank d < dep_rank e"
begin

definition fn_rank :: "'f \<Rightarrow> nat" where
  "fn_rank f = Max (insert 0 (Suc ` dep_rank ` set (inputs f)))"

lemma rank_above_inputs: "d \<in> set (inputs f) \<Longrightarrow> dep_rank d < fn_rank f"
  by (auto simp: fn_rank_def Max_gr_iff)

lemma rank_below_outputs: "f \<in> fns \<Longrightarrow> e \<in> set (outputs f) \<Longrightarrow> fn_rank f \<le> dep_rank e"
  using ranked by (auto simp: fn_rank_def Suc_le_eq)

lemma rank_decreases:
  "g \<in> fns \<Longrightarrow> set (inputs f) \<inter> set (outputs g) \<noteq> {} \<Longrightarrow> fn_rank g < fn_rank f"
  by (meson disjoint_iff le_less_trans rank_above_inputs rank_below_outputs)

lemma no_cycles: "acyclic {(g, f). f \<in> fns \<and> g \<in> fns \<and> set (inputs f) \<inter> set (outputs g) \<noteq> {}}"
  by (rule acyclicI_order [where f = "\<lambda>f. - int (fn_rank f)"]) (auto simp: rank_decreases)

lemma sort_respects:
  assumes "sort_key fn_rank ps = us @ f # vs" "g \<in> set ps" "g \<in> fns" "set (inputs f) \<inter> set (outputs g) \<noteq> {}"
  shows "g \<in> set us"
proof -
  have "sorted (map fn_rank (us @ f # vs))" unfolding assms(1) [symmetric] by simp
  then have above: "\<forall>h \<in> set (f # vs). fn_rank f \<le> fn_rank h" by (simp add: sorted_append)
  have "g \<in> set (us @ f # vs)" unfolding assms(1) [symmetric] using assms(2) by simp
  with above rank_decreases [OF assms(3,4)] show ?thesis by (auto simp: not_le)
qed

end

section \<open>The node's functions\<close>

fun dep_rank :: "dep \<Rightarrow> nat" where
  "dep_rank DTaskManager = 1" | "dep_rank DTracer = 1" | "dep_rank DLocker = 1" | "dep_rank DJWT = 1"
| "dep_rank DPrivKey = 1" | "dep_rank DStaticClient = 1"
| "dep_rank DMainHost = 2" | "dep_rank DRouting = 2"
| "dep_rank DPubsub = 3" | "dep_rank DDiscovery = 3" | "dep_rank DPeer = 3" | "dep_rank DProtocols = 3" | "dep_rank GListener = 3"
| "dep_rank DEvents = 4" | "dep_rank DSharedStore = 4" | "dep_rank DP2PClient = 4" | "dep_rank DMux = 4"
| "dep_rank DACL = 5"
| "dep_rank GUnary = 6" | "dep_rank GStream = 6" | "dep_rank GHttpMw = 6"
| "dep_rank DServerOpts = 7"
| "dep_rank DGrpcServer = 8"
| "dep_rank _ = 0"

interpretation fx: ranked_functions "\<Union>opt. set (fx_functions opt)" fn_inputs fn_outputs dep_rank
proof unfold_locales
  fix f d e
  assume "f \<in> (\<Union>opt. set (fx_functions opt))" "d \<in> set (fn_inputs f)" "e \<in> set (fn_outputs f)"
  moreover have "\<forall>f \<in> set (fx_functions opt). \<forall>d \<in> set (fn_inputs f). \<forall>e \<in> set (fn_outputs f). dep_rank d < dep_rank e" for opt
    by (cases opt) (simp_all add: module_defs fn_inputs_def fn_outputs_def)
  ultimately show "dep_rank d < dep_rank e" by blast
qed

text \<open>Invoked functions provide nothing, so that providers in the order of their ranks followed by the
  invoked ones is an order of construction.\<close>

lemma invoked_outputs: "f \<in> set (fx_functions opt) \<Longrightarrow> fn_invoke f \<Longrightarrow> fn_outputs f = []"
  by (cases opt) (auto simp: module_defs fn_outputs_def)

lemma construction_exists:
  assumes "distinct (node_functions opts)"
  shows "\<exists>order. construction (node_functions opts) order"
proof (rule exI)
  let ?fns = "node_functions opts"
  let ?ps = "filter (\<lambda>f. \<not> fn_invoke f) ?fns" and ?is = "filter fn_invoke ?fns"
  let ?order = "sort_key fx.fn_rank ?ps @ ?is"
  have mem: "g \<in> (\<Union>opt. set (fx_functions opt))" if "g \<in> set ?fns" for g
    using that by (auto simp: node_functions_def)
  have "g \<in> set us" if o: "?order = us @ f # vs" and g: "g \<in> set ?fns" and dep: "depends f g" for us f vs g
  proof -
    from g dep have p: "g \<in> set ?ps"
      using invoked_outputs by (auto simp: node_functions_def depends_def)
    from o consider us' where "us = sort_key fx.fn_rank ?ps @ us'" | vs' where "sort_key fx.fn_rank ?ps = us @ f # vs'"
      by (auto simp: append_eq_append_conv2 append_eq_Cons_conv)
    then show ?thesis
    proof cases
      case 1
      with p show ?thesis by simp
    next
      case 2
      from fx.sort_respects [OF 2 p mem [OF g]] dep show ?thesis by (simp add: depends_def)
    qed
  qed
  then have deps: "\<forall>us f vs. ?order = us @ f # vs \<longrightarrow> (\<forall>g \<in> set ?fns. depends f g \<longrightarrow> g \<in> set us)" by blast
  have inv: "filter fn_invoke ?order = ?is" by (simp add: filter_empty_conv)
  have dist: "distinct ?order" using assms by auto
  have sub: "set ?order \<subseteq> set ?fns" by auto
  show "construction ?fns ?order" unfolding construction_def using dist sub inv deps by (intro conjI)
qed

section \<open>The graph of a node\<close>

text \<open>Whatever the flags, the options are taken in order from the list of all options.\<close>

definition all_options :: "node_option list" where
  "all_options = concat (map fst (base_table @ grpc_Module @ http_Module @ rest_table))"

lemma chosen_subseq: "subseq (chosen c t) (concat (map fst t))"
  by (induction t) (auto simp: chosen_def intro: list_emb_append_mono)

lemma node_options_subseq:
  assumes "usable_config c" "node_options c = Ret opts"
  shows "subseq opts all_options"
proof -
  have "flags_boolean c" using assms(1) by (simp add: usable_config_def flags_boolean_def)
  from node_options_chosen [OF this] assms(2)
  have "opts = chosen c base_table @ MaybeOption (chosen c grpc_Module) (flag c ''UseGRPC'') @
    MaybeOption (chosen c http_Module) (flag c ''UseHTTP'') @ chosen c rest_table" by simp
  then show ?thesis
    by (simp add: all_options_def MaybeOption_def list_emb_append_mono chosen_subseq)
qed

lemma subseq_concat_map: "subseq xs ys \<Longrightarrow> subseq (concat (map g xs)) (concat (map g ys))"
  by (induction rule: list_emb.induct) (auto intro: list_emb_append_mono list_emb_append2)

lemma subseq_keeps_distinct: "subseq xs ys \<Longrightarrow> distinct ys \<Longrightarrow> distinct xs"
  by (induction rule: list_emb.induct) (auto dest: list_emb_set)

lemma all_options_distinct:
  "distinct (map fn_name (node_functions all_options))" "distinct (concat (map fn_gives (node_functions all_options)))"
  by (simp_all add: all_options_def node_functions_def table_defs module_defs)

lemma node_functions_distinct:
  assumes "usable_config c" "node_options c = Ret opts"
  shows "distinct (node_functions opts)" "one_provider (node_functions opts)"
proof -
  have sub: "subseq (node_functions opts) (node_functions all_options)"
    unfolding node_functions_def by (rule subseq_concat_map [OF node_options_subseq [OF assms]])
  from all_options_distinct(1) have "distinct (node_functions all_options)" by (simp add: distinct_map)
  from subseq_keeps_distinct [OF sub this] show "distinct (node_functions opts)" .
  from subseq_keeps_distinct [OF subseq_concat_map [OF sub] all_options_distinct(2)]
  show "one_provider (node_functions opts)" by (simp add: one_provider_def)
qed

text \<open>Which option provides a value.\<close>

fun provider :: "dep \<Rightarrow> node_option" where
  "provider DContext = OptContext" | "provider DCancel = OptContext" | "provider DRepo = OptRepo"
| "provider DConfig = OptRepo" | "provider DBatching = OptRepo" | "provider DTaskManager = OptTaskManager"
| "provider DStatus = OptStatus" | "provider DRegistry = OptMetrics" | "provider DTracer = OptTracer"
| "provider DLocker = OptLocker" | "provider DJWT = OptAuth" | "provider DACL = OptAuth"
| "provider DPeer = OptFiles" | "provider DEvents = OptEvents" | "provider DProtocols = OptProtocols"
| "provider DSharedStore = OptSharedStore" | "provider DMux = GrpcMuxedListener" | "provider DGrpcMetrics = GrpcPrometheus"
| "provider DServerOpts = GrpcOptsAggregator" | "provider DGrpcServer = GrpcServer" | "provider DP2PClient = GrpcP2PClient"
| "provider DStaticClient = GrpcStaticClient" | "provider DServeMux = HttpServerMux" | "provider DGateway = HttpGateway"
| "provider _ = OptP2P"

lemma provider_gives:
  "f \<in> set (fx_functions opt) \<Longrightarrow> d \<in> set (fn_needs f) \<Longrightarrow> \<exists>g \<in> set (fx_functions (provider d)). d \<in> set (fn_gives g)"
  by (cases opt) (auto simp: module_defs)

lemma option_present:
  assumes "usable_config c" "node_options c = Ret opts"
  shows "opt \<in> set opts \<longleftrightarrow> opt \<in> set (chosen c base_table) \<or>
    flag c ''UseGRPC'' \<and> opt \<in> set (chosen c grpc_Module) \<or>
    flag c ''UseHTTP'' \<and> opt \<in> set (chosen c http_Module) \<or> opt \<in> set (chosen c rest_table)"
  using node_option_mem [OF assms(1)] assms(2) by simp

lemma provider_present:
  assumes "usable_config c" "node_options c = Ret opts" "opt \<in> set opts" "f \<in> set (fx_functions opt)" "d \<in> set (fn_needs f)"
  shows "provider d \<in> set opts"
proof -
  note mem = option_present [OF assms(1,2)]
  have "opt \<in> set opts \<longrightarrow> (\<forall>f \<in> set (fx_functions opt). \<forall>d \<in> set (fn_needs f). provider d \<in> set opts)"
    by (cases opt) (simp_all add: module_defs mem, simp_all add: table_defs)
  with assms(3-5) show ?thesis by blast
qed

text \<open>A function that takes part in an order of construction comes after everything it depends on, and
  whatever \<^verbatim>\<open>Populate\<close> can fill in is constructed.\<close>

definition precedes :: "'a list \<Rightarrow> 'a \<Rightarrow> 'a \<Rightarrow> bool" where
  "precedes xs a b \<longleftrightarrow> (\<exists>us vs. xs = us @ b # vs \<and> a \<in> set us)"

lemma construction_precedes:
  assumes "construction fns order" "f \<in> set order" "g \<in> set fns" "depends f g"
  shows "precedes order g f" "g \<in> set order"
proof -
  from assms(2) obtain us vs where o: "order = us @ f # vs" by (meson split_list)
  with assms(1,3,4) have "g \<in> set us" unfolding construction_def by blast
  with o show "precedes order g f" "g \<in> set order" by (auto simp: precedes_def)
qed

lemma construction_invoked:
  assumes "construction fns order" "f \<in> set fns" "fn_invoke f"
  shows "f \<in> set order"
proof -
  have "f \<in> set (filter fn_invoke order)" using assms by (simp add: construction_def)
  then show ?thesis by simp
qed

lemma populated_constructed:
  assumes "usable_config c" "node_options c = Ret opts" "construction (node_functions opts) order"
    and "g \<in> set (node_functions opts)" "set (fn_gives g) \<inter> set (fn_inputs Populate_deps) \<noteq> {}"
  shows "g \<in> set order"
proof -
  have "OptPopulate \<in> set opts" by (simp add: option_present [OF assms(1,2)] rest_table_def)
  then have p: "Populate_deps \<in> set (node_functions opts)" by (force simp: node_functions_def)
  from construction_invoked [OF assms(3) this] have "Populate_deps \<in> set order"
    by (simp add: Populate_deps_def Invoke_def)
  moreover have "depends Populate_deps g" using assms(5) by (auto simp: depends_def fn_outputs_def)
  ultimately show ?thesis using construction_precedes(2) [OF assms(3) _ assms(4)] by blast
qed

text \<open>
  C12: the container accepts every node. For every configuration whose feature flags are booleans (\<open>new_config_usable\<close>
  says which calls of the options lead to one),
  each parameter of each function that the node's options hand to the container is provided by
  one of them, no value is provided twice, and there is an order in which the functions can be
  called; and in every such order everything the service's methods return that some option
  provides is constructed.
\<close>

theorem node_graph_accepted:
  assumes "usable_config c"
  shows "\<exists>opts. node_options c = Ret opts \<and> complete (node_functions opts) \<and> one_provider (node_functions opts) \<and>
    (\<exists>order. construction (node_functions opts) order) \<and>
    (\<forall>order g. construction (node_functions opts) order \<and> g \<in> set (node_functions opts) \<and>
       set (fn_gives g) \<inter> set (fn_inputs Populate_deps) \<noteq> {} \<longrightarrow> g \<in> set order)"
proof -
  from node_option_mem [OF assms] obtain opts where opts: "node_options c = Ret opts" by blast
  let ?fns = "node_functions opts"
  have "complete ?fns"
    unfolding complete_def
  proof (intro ballI)
    fix f d
    assume "f \<in> set ?fns" and d: "d \<in> set (fn_needs f)"
    then obtain opt where opt: "opt \<in> set opts" "f \<in> set (fx_functions opt)" by (auto simp: node_functions_def)
    from provider_present [OF assms opts opt d] provider_gives [OF opt(2) d]
    show "\<exists>g \<in> set ?fns. d \<in> set (fn_gives g)" by (auto simp: node_functions_def)
  qed
  then show ?thesis
    using opts node_functions_distinct [OF assms opts] construction_exists populated_constructed [OF assms opts] by blast
qed

theorem node_graph_accepted_witness:
  "\<exists>opts. node_options peer_config = Ret opts \<and> complete (node_functions opts) \<and>
    (\<exists>order. construction (node_functions opts) order)"
  using node_graph_accepted [OF peer_config_usable] by blast

section \<open>What the service gets\<close>

text \<open>Documented behaviour of the container when no constructor fails: there is a value for what a
  constructor it called returns, and none for anything else.\<close>

definition instantiates :: "fx_fn list \<Rightarrow> (dep \<Rightarrow> 'o option) \<Rightarrow> bool" where
  "instantiates order val \<longleftrightarrow> (\<forall>d. val d \<noteq> None \<longleftrightarrow> (\<exists>f \<in> set order. d \<in> set (fn_gives f)))"

text \<open>\<^verbatim>\<open>fx.Populate(&dp)\<close> by the types and name tags of the fields of \<^verbatim>\<open>deps\<close>. Of the client services and the
  provider of shared stores the service uses one method, \<open>client_Get\<close> and \<open>store_Get\<close>.\<close>

definition populate :: "('o \<Rightarrow> string \<Rightarrow> 'conn result) \<Rightarrow> ('o \<Rightarrow> string \<Rightarrow> 'o result) \<Rightarrow> (dep \<Rightarrow> 'o option) \<Rightarrow> ('o, 'conn) deps" where
  "populate client_Get store_Get val =
     \<lparr>dp_R = val DRepo, dp_Am = val DACL, dp_Tm = val DTaskManager, dp_Lk = val DLocker, dp_Rsrv = val DGrpcServer,
      dp_Mx = val DServeMux, dp_Gmx = val DGateway, dp_H = val DMainHost, dp_Dht = val DRouting, dp_P = val DPeer,
      dp_Ps = val DPubsub, dp_Disc = val DDiscovery, dp_Jm = val DJWT, dp_Ev = val DEvents, dp_Pr = val DProtocols,
      dp_PCs = map_option client_Get (val DP2PClient), dp_SCs = map_option client_Get (val DStaticClient),
      dp_ShSt = map_option store_Get (val DSharedStore), dp_Trcr = val DTracer, dp_Mtrcs = val DRegistry\<rparr>"

text \<open>The provider table agrees with the functions: whoever gives a value is its provider.\<close>

lemma gives_provider: "f \<in> set (fx_functions opt) \<Longrightarrow> d \<in> set (fn_gives f) \<Longrightarrow> opt = provider d"
  by (cases opt) (auto simp: module_defs)

lemma populated_provider:
  "d \<in> set (fn_inputs Populate_deps) \<Longrightarrow> \<exists>g \<in> set (fx_functions (provider d)). d \<in> set (fn_gives g)"
  by (auto simp: fn_inputs_def module_defs)

text \<open>A field of the service is filled in exactly when the option is chosen whose constructor returns it.\<close>

lemma populated_iff:
  assumes "usable_config c" "node_options c = Ret opts" "construction (node_functions opts) order" "instantiates order val"
    and "d \<in> set (fn_inputs Populate_deps)"
  shows "val d \<noteq> None \<longleftrightarrow> provider d \<in> set opts"
proof
  assume "val d \<noteq> None"
  then obtain f where f: "f \<in> set order" "d \<in> set (fn_gives f)" using assms(4) by (auto simp: instantiates_def)
  with assms(3) obtain opt where "opt \<in> set opts" "f \<in> set (fx_functions opt)"
    by (auto simp: construction_def node_functions_def)
  with gives_provider [of f opt d] f(2) show "provider d \<in> set opts" by simp
next
  assume p: "provider d \<in> set opts"
  from populated_provider [OF assms(5)] obtain g where g: "g \<in> set (fx_functions (provider d))" "d \<in> set (fn_gives g)" ..
  with p have "g \<in> set (node_functions opts)" by (auto simp: node_functions_def)
  from populated_constructed [OF assms(1-3) this] g(2) assms(5) have "g \<in> set order" by auto
  with g(2) assms(4) show "val d \<noteq> None" by (auto simp: instantiates_def)
qed

lemma service_values:
  assumes "usable_config c" "node_options c = Ret opts" "construction (node_functions opts) order" "instantiates order val"
  shows "val DRepo \<noteq> None" "val DTaskManager \<noteq> None"
    "val DMainHost \<noteq> None \<longleftrightarrow> flag c ''UseP2P''" "val DRouting \<noteq> None \<longleftrightarrow> flag c ''UseP2P''"
    "val DDiscovery \<noteq> None \<longleftrightarrow> flag c ''UseP2P''" "val DPubsub \<noteq> None \<longleftrightarrow> flag c ''UseP2P''"
    "val DEvents \<noteq> None \<longleftrightarrow> flag c ''UseP2P''" "val DProtocols \<noteq> None \<longleftrightarrow> flag c ''UseP2P''"
    "val DSharedStore \<noteq> None \<longleftrightarrow> flag c ''UseP2P''" "val DPeer \<noteq> None \<longleftrightarrow> flag c ''UseP2P'' \<and> flag c ''UseFiles''"
    "val DJWT \<noteq> None \<longleftrightarrow> flag c ''UseAuth''" "val DACL \<noteq> None \<longleftrightarrow> flag c ''UseAuth''"
    "val DGrpcServer \<noteq> None \<longleftrightarrow> flag c ''UseGRPC''" "val DServeMux \<noteq> None \<longleftrightarrow> flag c ''UseHTTP''"
    "val DGateway \<noteq> None \<longleftrightarrow> flag c ''UseHTTP''" "val DLocker \<noteq> None \<longleftrightarrow> flag c ''UseLocker''"
    "val DTracer \<noteq> None \<longleftrightarrow> flag c ''UseTracing''" "val DRegistry \<noteq> None \<longleftrightarrow> flag c ''UsePrometheus''"
    "val DP2PClient \<noteq> None \<longleftrightarrow> flag c ''UseGRPC'' \<and> flag c ''UseP2P''"
    "val DStaticClient \<noteq> None \<longleftrightarrow> flag c ''UseGRPC'' \<and> flag c ''UseStaticDiscovery''"
proof -
  note value_iff = populated_iff [OF assms] and options = service_options [OF assms(1,2)]
  have inputs: "fn_inputs Populate_deps = [DContext, DCancel, DRepo, DACL, DTaskManager, DLocker, DGrpcServer, DServeMux, DGateway,
      DMainHost, DRouting, DPeer, DPubsub, DDiscovery, DJWT, DEvents, DProtocols, DP2PClient, DStaticClient, DSharedStore, DTracer, DRegistry]"
    by (simp add: fn_inputs_def module_defs)
  show "val DRepo \<noteq> None" "val DTaskManager \<noteq> None"
    "val DMainHost \<noteq> None \<longleftrightarrow> flag c ''UseP2P''" "val DRouting \<noteq> None \<longleftrightarrow> flag c ''UseP2P''"
    "val DDiscovery \<noteq> None \<longleftrightarrow> flag c ''UseP2P''" "val DPubsub \<noteq> None \<longleftrightarrow> flag c ''UseP2P''"
    "val DEvents \<noteq> None \<longleftrightarrow> flag c ''UseP2P''" "val DProtocols \<noteq> None \<longleftrightarrow> flag c ''UseP2P''"
    "val DSharedStore \<noteq> None \<longleftrightarrow> flag c ''UseP2P''" "val DPeer \<noteq> None \<longleftrightarrow> flag c ''UseP2P'' \<and> flag c ''UseFiles''"
    "val DJWT \<noteq> None \<longleftrightarrow> flag c ''UseAuth''" "val DACL \<noteq> None \<longleftrightarrow> flag c ''UseAuth''"
    "val DGrpcServer \<noteq> None \<longleftrightarrow> flag c ''UseGRPC''" "val DServeMux \<noteq> None \<longleftrightarrow> flag c ''UseHTTP''"
    "val DGateway \<noteq> None \<longleftrightarrow> flag c ''UseHTTP''" "val DLocker \<noteq> None \<longleftrightarrow> flag c ''UseLocker''"
    "val DTracer \<noteq> None \<longleftrightarrow> flag c ''UseTracing''" "val DRegistry \<noteq> None \<longleftrightarrow> flag c ''UsePrometheus''"
    "val DP2PClient \<noteq> None \<longleftrightarrow> flag c ''UseGRPC'' \<and> flag c ''UseP2P''"
    "val DStaticClient \<noteq> None \<longleftrightarrow> flag c ''UseGRPC'' \<and> flag c ''UseStaticDiscovery''"
    by (simp_all add: value_iff inputs options del: not_None_eq)
qed

text \<open>
  C19: what the methods of the service return. For a node assembled under a configuration whose flags
  are booleans, whatever order the container called the constructors in: each method returns
  what its constructor made exactly when its flags are set, and its \<^verbatim>\<open>not configured\<close> error
  otherwise; the repository and the task manager are always there. And for a service with any
  of its dependencies missing: what \<^verbatim>\<open>P2P\<close> and \<^verbatim>\<open>Auth\<close> return without an error has all its parts.
\<close>

theorem service_offers_configured:
  assumes "usable_config c" "node_options c = Ret opts" "construction (node_functions opts) order" "instantiates order val"
    and "s = populate client_Get store_Get val"
  shows "P2P_svc s = (if flag c ''UseP2P'' then Inr s else Inl (ErrorString ''P2P not configured'')) \<and>
    Auth_svc s = (if flag c ''UseAuth'' then Inr s else Inl (ErrorString ''Auth not configured'')) \<and>
    GRPC_svc s = (if flag c ''UseGRPC'' then Inr s else Inl (ErrorString ''GRPC service not configured'')) \<and>
    HTTP_svc s = (if flag c ''UseHTTP'' then Inr s else Inl (ErrorString ''HTTP service not configured'')) \<and>
    Locker_svc s = (if flag c ''UseLocker'' then Inr (the (val DLocker)) else Inl (ErrorString ''Locker not configured'')) \<and>
    Files_svc s = (if flag c ''UseP2P'' \<and> flag c ''UseFiles'' then Inr (the (val DPeer)) else Inl (ErrorString ''Files service not configured'')) \<and>
    Protocols_svc s = (if flag c ''UseP2P'' then Inr (the (val DProtocols)) else Inl (ErrorString ''Protocols svc not configured'')) \<and>
    Events_api s = (if flag c ''UseP2P'' then Inr (the (val DEvents)) else Inl (ErrorString ''Events not configured'')) \<and>
    (\<forall>ns. SharedStorage_svc s ns = (if flag c ''UseP2P'' then store_Get (the (val DSharedStore)) ns
       else Inl (ErrorString ''shared storage provider not configured''))) \<and>
    Tracing_svc s = (if flag c ''UseTracing'' then Inr (the (val DTracer)) else Inl (ErrorString ''tracing not configured'')) \<and>
    Metrics_svc s = (if flag c ''UsePrometheus'' then Inr (the (val DRegistry)) else Inl (ErrorString ''metrics not enabled'')) \<and>
    (\<not> (flag c ''UseGRPC'' \<and> (flag c ''UseP2P'' \<or> flag c ''UseStaticDiscovery'')) \<longrightarrow>
       (\<forall>name. Client_svc s name = (None, Some (ErrorString ''Service discovery not configured'')))) \<and>
    Repo_svc s \<noteq> None \<and> TM_svc s \<noteq> None \<and>
    (Host_svc s \<noteq> None \<longleftrightarrow> flag c ''UseP2P'') \<and> (Routing_svc s \<noteq> None \<longleftrightarrow> flag c ''UseP2P'') \<and>
    (Discovery_svc s \<noteq> None \<longleftrightarrow> flag c ''UseP2P'') \<and> (Pubsub_svc s \<noteq> None \<longleftrightarrow> flag c ''UseP2P'') \<and>
    (JWT_svc s \<noteq> None \<longleftrightarrow> flag c ''UseAuth'') \<and> (ACL_svc s \<noteq> None \<longleftrightarrow> flag c ''UseAuth'') \<and>
    (Server_svc s \<noteq> None \<longleftrightarrow> flag c ''UseGRPC'') \<and> (Mux_svc s \<noteq> None \<longleftrightarrow> flag c ''UseHTTP'') \<and>
    (Gateway_svc s \<noteq> None \<longleftrightarrow> flag c ''UseHTTP'') \<and>
    (\<forall>some p. P2P_svc some = Inr p \<longrightarrow> Host_svc p \<noteq> None \<and> Routing_svc p \<noteq> None \<and> Discovery_svc p \<noteq> None \<and> Pubsub_svc p \<noteq> None) \<and>
    (\<forall>some a. Auth_svc some = Inr a \<longrightarrow> JWT_svc a \<noteq> None \<and> ACL_svc a \<noteq> None)"
proof -
  note filled = service_values [OF assms(1-4)]
  have neg: "x = None \<longleftrightarrow> \<not> Q" if "x \<noteq> None \<longleftrightarrow> Q" for x :: "'a option" and Q using that by blast
  note absent = filled(3-20) [THEN neg] filled(1,2)
  have need_if: "need msg x = (if Q then Inr (the x) else Inl (ErrorString msg))" if "x \<noteq> None \<longleftrightarrow> Q"
    for msg and x :: "'a option" and Q using that by (auto simp: need_def)
  have part: "\<forall>some p. P2P_svc some = Inr p \<longrightarrow> Host_svc p \<noteq> None \<and> Routing_svc p \<noteq> None \<and> Discovery_svc p \<noteq> None \<and> Pubsub_svc p \<noteq> None"
    "\<forall>some a. Auth_svc some = Inr a \<longrightarrow> JWT_svc a \<noteq> None \<and> ACL_svc a \<noteq> None"
    by (auto simp: P2P_svc_def Auth_svc_def part_defs split: if_splits)
  have store: "\<forall>ns. SharedStorage_svc s ns = (if flag c ''UseP2P'' then store_Get (the (val DSharedStore)) ns
       else Inl (ErrorString ''shared storage provider not configured''))"
    using filled(9) by (auto simp: SharedStorage_svc_def assms(5) populate_def)
  show ?thesis
    by (intro conjI part store)
      (simp_all add: assms(5) populate_def P2P_svc_def Auth_svc_def GRPC_svc_def HTTP_svc_def Locker_svc_def Files_svc_def
        Protocols_svc_def Events_api_def Tracing_svc_def Metrics_svc_def Client_svc_def part_defs absent
        need_if [OF filled(7)] need_if [OF filled(8)] need_if [OF filled(10)] need_if [OF filled(16)] need_if [OF filled(17)]
        need_if [OF filled(18)] del: not_None_eq)
qed

text \<open>
  C35: which connection \<^verbatim>\<open>Client\<close> returns, and when it returns nothing at all. On a node with the gRPC
  server, addresses configured statically are asked first and peer discovery is the fallback.
  When no source finds the service, the error of the static addresses is reported; but when
  the node has peer discovery only, the caller gets neither a connection nor an error.
\<close>

theorem client_connection:
  assumes "usable_config c" "node_options c = Ret opts" "construction (node_functions opts) order" "instantiates order val"
    and "flag c ''UseGRPC''"
  shows "let s = populate client_Get store_Get val;
             static = (if flag c ''UseStaticDiscovery'' then Some (client_Get (the (val DStaticClient)) name) else None);
             peer = (if flag c ''UseP2P'' then Some (client_Get (the (val DP2PClient)) name) else None)
    in Client_svc s name =
      (case (static, peer) of
         (None, None) \<Rightarrow> (None, Some (ErrorString ''Service discovery not configured''))
       | (Some (Inr conn), _) \<Rightarrow> (Some conn, None)
       | (_, Some (Inr conn)) \<Rightarrow> (Some conn, None)
       | (Some (Inl err), _) \<Rightarrow> (None, Some err)
       | (None, Some (Inl err)) \<Rightarrow> (None, None))"
proof -
  have "val DP2PClient \<noteq> None \<longleftrightarrow> flag c ''UseP2P''" "val DStaticClient \<noteq> None \<longleftrightarrow> flag c ''UseStaticDiscovery''"
    using service_values(19,20) [OF assms(1-4)] assms(5) by simp_all
  then show ?thesis
    by (cases "val DStaticClient"; cases "val DP2PClient")
      (auto simp: Client_svc_def populate_def Let_def split: sum.splits)
qed

text \<open>A container whose constructors all return the same kind of object.\<close>

definition unit_values :: "fx_fn list \<Rightarrow> dep \<Rightarrow> unit option" where
  "unit_values order d = (if \<exists>f \<in> set order. d \<in> set (fn_gives f) then Some () else None)"

lemma unit_values_instantiates: "instantiates order (unit_values order)"
  by (simp add: instantiates_def unit_values_def)

theorem service_offers_configured_witness:
  "\<exists>s. Auth_svc s = Inl (ErrorString ''Auth not configured'') \<and> P2P_svc (s :: (unit, string) deps) = Inr s"
proof -
  obtain opts order where o: "node_options peer_config = Ret opts" "construction (node_functions opts) order"
    using node_functions_distinct [OF peer_config_usable] construction_exists node_option_mem [OF peer_config_usable] by blast
  let ?s = "populate (\<lambda>_. Inr) (\<lambda>_ _. Inr ()) (unit_values order) :: (unit, string) deps"
  note offers = service_offers_configured [OF peer_config_usable o unit_values_instantiates refl,
      where client_Get = "\<lambda>_. Inr :: string \<Rightarrow> string result" and store_Get = "\<lambda>_ _. Inr ()"]
  have "Auth_svc ?s = Inl (ErrorString ''Auth not configured'')"
    using offers [THEN conjunct2, THEN conjunct1] peer_config_flags(4) by simp
  moreover have "P2P_svc ?s = Inr ?s" using offers [THEN conjunct1] peer_config_flags(2) by simp
  ultimately show ?thesis by blast
qed

theorem client_connection_witness:
  "\<exists>s :: (unit, string) deps. Client_svc s ''svc'' = (None, None)"
proof -
  obtain opts order where o: "node_options peer_config = Ret opts" "construction (node_functions opts) order"
    using node_functions_distinct [OF peer_config_usable] construction_exists node_option_mem [OF peer_config_usable] by blast
  show ?thesis
    using client_connection [OF peer_config_usable o unit_values_instantiates peer_config_flags(1),
        where client_Get = "\<lambda>_ _. Inl (ErrorString ''no peer'')" and store_Get = "\<lambda>_ _. Inr ()" and name = "''svc''"]
      peer_config_flags by (intro exI) (simp add: Let_def)
qed

end
