(* ===== verification/Node_Lifecycle.thy ===== *)
theory Node_Lifecycle
  imports Node_Graph
begin

text \<open>
  The hooks the node's constructors append to the container's life cycle (\<^verbatim>\<open>lc.Append\<close> in
  \<^verbatim>\<open>modules/node/node.go\<close>, \<^verbatim>\<open>modules/node/grpc\<close>, \<^verbatim>\<open>modules/node/http/http.go\<close>,
  \<^verbatim>\<open>modules/node/ipfs/host.go\<close>, \<^verbatim>\<open>modules/node/locker/handler.go\<close>, \<^verbatim>\<open>modules/diag/metrics/metrics.go\<close>), and what
  starting and stopping the node does. The calls the hooks make into other packages are
  recorded in a trace; what they return is a parameter. \<open>runs_hooks\<close> states what \<^verbatim>\<open>fx\<close> documents
  of \<^verbatim>\<open>Start\<close> and \<^verbatim>\<open>Stop\<close>.
\<close>

section \<open>Calls and hooks\<close>

datatype node_call =
    RepoClose | TmStop | TracerClose | LockerClose | HostClose | DhtClose | DialerClose | CancelCtx
  | BootstrapStart | MuxStart | MuxClose | GrpcServe | GrpcStop | HttpServe | HttpShutdown

record 'w node_world =
  nw_env :: 'w
  nw_calls :: "node_call list"

type_synonym 'w action = "'w node_world \<Rightarrow> 'w node_world \<times> goerror option"

definition call :: "(node_call \<Rightarrow> 'w \<Rightarrow> 'w \<times> goerror option) \<Rightarrow> node_call \<Rightarrow> 'w action" where
  "call L c s = (case L c (nw_env s) of (w', err) \<Rightarrow> (s\<lparr>nw_env := w', nw_calls := nw_calls s @ [c]\<rparr>, err))"

text \<open>A call whose error is logged or dropped.\<close>

definition call_ignoring :: "(node_call \<Rightarrow> 'w \<Rightarrow> 'w \<times> goerror option) \<Rightarrow> node_call \<Rightarrow> 'w action" where
  "call_ignoring L c s = (fst (call L c s), None)"

record 'w hook =
  hk_OnStart :: "'w action option"
  hk_OnStop :: "'w action option"

definition repo_hook :: "(node_call \<Rightarrow> 'w \<Rightarrow> 'w \<times> goerror option) \<Rightarrow> 'w hook" where
  "repo_hook L = \<lparr>hk_OnStart = None, hk_OnStop = Some (call L RepoClose)\<rparr>"

definition cancel_hook :: "(node_call \<Rightarrow> 'w \<Rightarrow> 'w \<times> goerror option) \<Rightarrow> 'w hook" where
  "cancel_hook L = \<lparr>hk_OnStart = None, hk_OnStop = Some (call_ignoring L CancelCtx)\<rparr>"

definition taskmanager_hook :: "(node_call \<Rightarrow> 'w \<Rightarrow> 'w \<times> goerror option) \<Rightarrow> 'w hook" where
  "taskmanager_hook L = \<lparr>hk_OnStart = None, hk_OnStop = Some (call_ignoring L TmStop)\<rparr>"

definition tracer_hook :: "(node_call \<Rightarrow> 'w \<Rightarrow> 'w \<times> goerror option) \<Rightarrow> 'w hook" where
  "tracer_hook L = \<lparr>hk_OnStart = None, hk_OnStop = Some (call L TracerClose)\<rparr>"

definition locker_hook :: "(node_call \<Rightarrow> 'w \<Rightarrow> 'w \<times> goerror option) \<Rightarrow> 'w hook" where
  "locker_hook L = \<lparr>hk_OnStart = None, hk_OnStop = Some (call L LockerClose)\<rparr>"

text \<open>The main host's hook drops both errors; the local dialer's returns its error.\<close>

definition host_hook :: "(node_call \<Rightarrow> 'w \<Rightarrow> 'w \<times> goerror option) \<Rightarrow> 'w hook" where
  "host_hook L = \<lparr>hk_OnStart = None, hk_OnStop = Some (\<lambda>s. call_ignoring L DhtClose (fst (call_ignoring L HostClose s)))\<rparr>"

definition dialer_hook :: "(node_call \<Rightarrow> 'w \<Rightarrow> 'w \<times> goerror option) \<Rightarrow> 'w hook" where
  "dialer_hook L = \<lparr>hk_OnStart = None, hk_OnStop = Some (call L DialerClose)\<rparr>"

definition bootstrap_hook :: "(node_call \<Rightarrow> 'w \<Rightarrow> 'w \<times> goerror option) \<Rightarrow> 'w hook" where
  "bootstrap_hook L = \<lparr>hk_OnStart = Some (call L BootstrapStart), hk_OnStop = None\<rparr>"

text \<open>The constructor of the mux: it calls the status manager, an optional parameter, without a test.\<close>

definition NewMuxedListener :: "string list \<Rightarrow> 'c Mux gomap option \<Rightarrow> ('c Mux \<times> 'c Mux gomap) outcome" where
  "NewMuxedListener listeners stManager =
     (let m = New_mux listeners in
      case stManager of
        None \<Rightarrow> Panic ''nil pointer dereference''
      | Some st \<Rightarrow> Ret (m, AddReporter st ''RPC Listeners'' m))"

text \<open>An error of closing the listeners is logged and not returned.\<close>

definition NewMuxedListener_hook :: "(node_call \<Rightarrow> 'w \<Rightarrow> 'w \<times> goerror option) \<Rightarrow> 'w hook" where
  "NewMuxedListener_hook L = \<lparr>hk_OnStart = Some (call L MuxStart), hk_OnStop = Some (call_ignoring L MuxClose)\<rparr>"

definition grpc_server_hook :: "(node_call \<Rightarrow> 'w \<Rightarrow> 'w \<times> goerror option) \<Rightarrow> 'w hook" where
  "grpc_server_hook L = \<lparr>hk_OnStart = Some (call L GrpcServe), hk_OnStop = Some (call_ignoring L GrpcStop)\<rparr>"

definition http_server_hook :: "(node_call \<Rightarrow> 'w \<Rightarrow> 'w \<times> goerror option) \<Rightarrow> 'w hook" where
  "http_server_hook L = \<lparr>hk_OnStart = Some (call L HttpServe), hk_OnStop = Some (call L HttpShutdown)\<rparr>"

fun hooks_of :: "(node_call \<Rightarrow> 'w \<Rightarrow> 'w \<times> goerror option) \<Rightarrow> JsonConfig \<Rightarrow> ctor \<Rightarrow> 'w hook list" where
  "hooks_of L c FRepo = [repo_hook L]"
| "hooks_of L c FCancelHook = [cancel_hook L]"
| "hooks_of L c FTaskManager = [taskmanager_hook L]"
| "hooks_of L c FTracer = [tracer_hook L]"
| "hooks_of L c FLocker = [locker_hook L]"
| "hooks_of L c FLibp2p = [host_hook L]"
| "hooks_of L c FLocalDialer = [dialer_hook L]"
| "hooks_of L c FBootstrapper =
     (if fst (Get decode_strings c ''BootstrapAddresses'' []) then [bootstrap_hook L] else [])"
| "hooks_of L c FMuxedListener = [NewMuxedListener_hook L]"
| "hooks_of L c FGrpcServer = [grpc_server_hook L]"
| "hooks_of L c FHTTPServer = [http_server_hook L]"
| "hooks_of L c _ = []"

definition node_hooks :: "(node_call \<Rightarrow> 'w \<Rightarrow> 'w \<times> goerror option) \<Rightarrow> JsonConfig \<Rightarrow> fx_fn list \<Rightarrow> 'w hook list" where
  "node_hooks L c order = concat (map (\<lambda>f. hooks_of L c (fn_name f)) order)"

lemmas hook_defs = repo_hook_def cancel_hook_def taskmanager_hook_def tracer_hook_def locker_hook_def host_hook_def
  dialer_hook_def bootstrap_hook_def NewMuxedListener_hook_def grpc_server_hook_def http_server_hook_def

section \<open>Starting and stopping\<close>

text \<open>The start hooks one after the other until one fails, with the number that did not.\<close>

definition run_action :: "'w action option \<Rightarrow> 'w action" where
  "run_action a s = (case a of None \<Rightarrow> (s, None) | Some act \<Rightarrow> act s)"

fun run_starts :: "'w hook list \<Rightarrow> 'w node_world \<Rightarrow> 'w node_world \<times> nat \<times> goerror option" where
  "run_starts [] s = (s, 0, None)"
| "run_starts (h # hs) s =
     (case run_action (hk_OnStart h) s of
        (s', Some err) \<Rightarrow> (s', 0, Some err)
      | (s', None) \<Rightarrow> (case run_starts hs s' of (s'', n, err) \<Rightarrow> (s'', Suc n, err)))"

text \<open>All stop hooks, also after errors.\<close>

fun run_stops :: "'w hook list \<Rightarrow> 'w node_world \<Rightarrow> 'w node_world \<times> goerror list" where
  "run_stops [] s = (s, [])"
| "run_stops (h # hs) s =
     (case run_action (hk_OnStop h) s of
        (s', err) \<Rightarrow> (case run_stops hs s' of (s'', errs) \<Rightarrow> (s'', Append_error [] err @ errs)))"

text \<open>
  Documented of \<^verbatim>\<open>App.Start\<close> and \<^verbatim>\<open>App.Stop\<close>. An application is the error its construction ended
  with, or its hooks in the order they were appended; a start gives the number of hooks that
  are started. When a start hook fails, those before it are stopped in reverse order. A
  stop runs the stop hooks of the started ones in reverse order and goes on after errors.
\<close>

definition runs_hooks ::
  "('w hook list result \<Rightarrow> 'w node_world \<Rightarrow> 'w node_world \<times> nat \<times> goerror option) \<Rightarrow>
   ('w hook list result \<Rightarrow> nat \<Rightarrow> 'w action) \<Rightarrow> bool" where
  "runs_hooks app_Start app_Stop \<longleftrightarrow>
     (\<forall>err s. app_Start (Inl err) s = (s, 0, Some err)) \<and> (\<forall>err n s. app_Stop (Inl err) n s = (s, None)) \<and>
     (\<forall>hs s. case run_starts hs s of
        (s', n, None) \<Rightarrow> app_Start (Inr hs) s = (s', n, None)
      | (s', n, Some _) \<Rightarrow> (\<exists>err. app_Start (Inr hs) s = (fst (run_stops (rev (take n hs)) s'), 0, Some err))) \<and>
     (\<forall>hs n s. case run_stops (rev (take n hs)) s of
        (s', errs) \<Rightarrow> \<exists>err. app_Stop (Inr hs) n s = (s', err) \<and> (err = None \<longleftrightarrow> errs = []))"

lemma runs_hooksD:
  assumes "runs_hooks app_Start app_Stop"
  shows "app_Start (Inr hs) s = (s1, n, None) \<Longrightarrow> run_starts hs s = (s1, n, None)"
    and "app_Start (Inr hs) s = (s1, n, Some err) \<Longrightarrow>
      \<exists>s' m err'. run_starts hs s = (s', m, Some err') \<and> s1 = fst (run_stops (rev (take m hs)) s') \<and> n = 0"
    and "app_Stop (Inr hs) n s = (s2, err2) \<Longrightarrow>
      s2 = fst (run_stops (rev (take n hs)) s) \<and> (err2 = None \<longleftrightarrow> snd (run_stops (rev (take n hs)) s) = [])"
proof -
  obtain s' m e where r: "run_starts hs s = (s', m, e)" by (cases "run_starts hs s") auto
  have start: "case run_starts hs s of
        (s', n, None) \<Rightarrow> app_Start (Inr hs) s = (s', n, None)
      | (s', n, Some _) \<Rightarrow> (\<exists>err. app_Start (Inr hs) s = (fst (run_stops (rev (take n hs)) s'), 0, Some err))"
    by (rule assms [unfolded runs_hooks_def, THEN conjunct2, THEN conjunct2, THEN conjunct1, THEN spec, THEN spec])
  show "app_Start (Inr hs) s = (s1, n, None) \<Longrightarrow> run_starts hs s = (s1, n, None)"
    "app_Start (Inr hs) s = (s1, n, Some err) \<Longrightarrow>
      \<exists>s' m err'. run_starts hs s = (s', m, Some err') \<and> s1 = fst (run_stops (rev (take m hs)) s') \<and> n = 0"
    using start unfolding r by (cases e; auto)+
  have "case run_stops (rev (take n hs)) s of
        (s', errs) \<Rightarrow> \<exists>err. app_Stop (Inr hs) n s = (s', err) \<and> (err = None \<longleftrightarrow> errs = [])"
    by (rule assms [unfolded runs_hooks_def, THEN conjunct2, THEN conjunct2, THEN conjunct2, THEN spec, THEN spec, THEN spec])
  then show "app_Stop (Inr hs) n s = (s2, err2) \<Longrightarrow>
      s2 = fst (run_stops (rev (take n hs)) s) \<and> (err2 = None \<longleftrightarrow> snd (run_stops (rev (take n hs)) s) = [])"
    by (auto split: prod.splits)
qed

section \<open>The trace of a start and of a stop\<close>

text \<open>The calls the hooks of a constructor make.\<close>

fun start_calls :: "JsonConfig \<Rightarrow> ctor \<Rightarrow> node_call list" where
  "start_calls c FBootstrapper = (if fst (Get decode_strings c ''BootstrapAddresses'' []) then [BootstrapStart] else [])"
| "start_calls c FMuxedListener = [MuxStart]"
| "start_calls c FGrpcServer = [GrpcServe]"
| "start_calls c FHTTPServer = [HttpServe]"
| "start_calls c _ = []"

fun stop_calls :: "ctor \<Rightarrow> node_call list" where
  "stop_calls FRepo = [RepoClose]" | "stop_calls FCancelHook = [CancelCtx]" | "stop_calls FTaskManager = [TmStop]"
| "stop_calls FTracer = [TracerClose]" | "stop_calls FLocker = [LockerClose]" | "stop_calls FLibp2p = [HostClose, DhtClose]"
| "stop_calls FLocalDialer = [DialerClose]" | "stop_calls FMuxedListener = [MuxClose]" | "stop_calls FGrpcServer = [GrpcStop]"
| "stop_calls FHTTPServer = [HttpShutdown]"
| "stop_calls _ = []"

definition starts_of :: "JsonConfig \<Rightarrow> fx_fn list \<Rightarrow> node_call list" where
  "starts_of c order = concat (map (\<lambda>f. start_calls c (fn_name f)) order)"

definition stops_of :: "fx_fn list \<Rightarrow> node_call list" where
  "stops_of order = concat (map (\<lambda>f. stop_calls (fn_name f)) (rev order))"

lemma call_trace [simp]:
  "nw_calls (fst (call L x s)) = nw_calls s @ [x]" "nw_calls (fst (call_ignoring L x s)) = nw_calls s @ [x]"
  "snd (call_ignoring L x s) = None" "snd (call L x s) = snd (L x (nw_env s))"
  by (simp_all add: call_def call_ignoring_def split: prod.splits)

lemma run_stops_Cons [simp]: "fst (run_stops (h # hs) s) = fst (run_stops hs (fst (run_action (hk_OnStop h) s)))"
  by (simp split: prod.splits)

lemma run_action_simps [simp]: "run_action None s = (s, None)" "run_action (Some act) s = act s"
  by (simp_all add: run_action_def)

lemma run_stops_append:
  "fst (run_stops (xs @ ys) s) = fst (run_stops ys (fst (run_stops xs s)))"
  by (induction xs arbitrary: s) (simp_all del: run_stops.simps(2))

lemma run_stops_hooks: "nw_calls (fst (run_stops (rev (hooks_of L c f)) s)) = nw_calls s @ stop_calls f"
  by (cases f) (simp_all add: hook_defs del: run_stops.simps(2))

lemma stops_trace: "nw_calls (fst (run_stops (rev (node_hooks L c order)) s)) = nw_calls s @ stops_of order"
  by (induction order arbitrary: s rule: rev_induct)
    (simp_all add: node_hooks_def stops_of_def run_stops_append run_stops_hooks del: run_stops.simps(2))

text \<open>A constructor has at most one hook, and its start hook is one call or missing.\<close>

lemma hook_cases:
  obtains (none) "hooks_of L c f = []" "start_calls c f = []"
  | (silent) h where "hooks_of L c f = [h]" "hk_OnStart h = None" "start_calls c f = []"
  | (starting) h x where "hooks_of L c f = [h]" "hk_OnStart h = Some (call L x)" "start_calls c f = [x]"
proof -
  have "hooks_of L c f = [] \<and> start_calls c f = [] \<or> (\<exists>h. hooks_of L c f = [h] \<and>
    (hk_OnStart h = None \<and> start_calls c f = [] \<or> (\<exists>x. hk_OnStart h = Some (call L x) \<and> start_calls c f = [x])))"
    by (cases f) (simp_all add: hook_defs)
  with none silent starting show thesis by blast
qed

lemma node_hooks_Cons: "node_hooks L c (f # fs) = hooks_of L c (fn_name f) @ node_hooks L c fs"
  by (simp add: node_hooks_def)

lemma starts_of_Cons: "starts_of c (f # fs) = start_calls c (fn_name f) @ starts_of c fs"
  by (simp add: starts_of_def)

lemma starts_trace:
  "run_starts (node_hooks L c order) s = (s', n, None) \<Longrightarrow>
    n = length (node_hooks L c order) \<and> nw_calls s' = nw_calls s @ starts_of c order"
proof (induction order arbitrary: s n)
  case (Cons f order)
  show ?case
  proof (cases rule: hook_cases [of L c "fn_name f"])
    case none
    with Cons show ?thesis by (simp add: node_hooks_Cons starts_of_Cons)
  next
    case (silent h)
    with Cons show ?thesis by (auto simp: node_hooks_Cons starts_of_Cons split: prod.splits)
  next
    case (starting h x)
    obtain s1 e where c: "call L x s = (s1, e)" by fastforce
    with call_trace(1) [of L x s] have "nw_calls s1 = nw_calls s @ [x]" by simp
    with Cons starting c show ?thesis
      by (auto simp: node_hooks_Cons starts_of_Cons split: prod.splits option.splits)
  qed
qed (simp_all add: node_hooks_def starts_of_def)

text \<open>When the start fails, it is at one constructor's hook, and exactly the hooks before it are started.\<close>

lemma starts_fail:
  "run_starts (node_hooks L c order) s = (s', n, Some err) \<Longrightarrow>
    \<exists>us f vs x w. order = us @ f # vs \<and> take n (node_hooks L c order) = node_hooks L c us \<and>
      nw_calls s' = nw_calls s @ starts_of c (us @ [f]) \<and> start_calls c (fn_name f) = [x] \<and> snd (L x w) \<noteq> None"
proof (induction order arbitrary: s n)
  case (Cons f order)
  have later: "\<exists>us f' vs x w. f # order = us @ f' # vs \<and> take n (node_hooks L c (f # order)) = node_hooks L c us \<and>
      nw_calls s' = nw_calls s @ starts_of c (us @ [f']) \<and> start_calls c (fn_name f') = [x] \<and> snd (L x w) \<noteq> None"
    if "run_starts (node_hooks L c order) s1 = (s', m, Some err)" "n = length (hooks_of L c (fn_name f)) + m"
      "nw_calls s1 = nw_calls s @ start_calls c (fn_name f)" for s1 m
  proof -
    from Cons.IH [OF that(1)] obtain us f' vs x w where "order = us @ f' # vs"
      "take m (node_hooks L c order) = node_hooks L c us" "nw_calls s' = nw_calls s1 @ starts_of c (us @ [f'])"
      "start_calls c (fn_name f') = [x]" "snd (L x w) \<noteq> None" by blast
    with that(2,3) show ?thesis
      by (intro exI [of _ "f # us"] exI [of _ f'] exI [of _ vs] exI [of _ x] exI [of _ w])
        (simp add: node_hooks_Cons starts_of_Cons)
  qed
  show ?case
  proof (cases rule: hook_cases [of L c "fn_name f"])
    case none
    with Cons.prems show ?thesis by (intro later) (simp_all add: node_hooks_Cons)
  next
    case (silent h)
    with Cons.prems obtain m where m: "run_starts (node_hooks L c order) s = (s', m, Some err)" "n = Suc m"
      by (auto simp: node_hooks_Cons split: prod.splits)
    show ?thesis by (rule later [OF m(1)]) (simp_all add: m(2) silent)
  next
    case (starting h x)
    obtain s1 e where c: "call L x s = (s1, e)" by fastforce
    with call_trace(1,4) [of L x s] have s1: "nw_calls s1 = nw_calls s @ [x]" "e = snd (L x (nw_env s))" by simp_all
    show ?thesis
    proof (cases e)
      case None
      with Cons.prems starting c obtain m where m: "run_starts (node_hooks L c order) s1 = (s', m, Some err)" "n = Suc m"
        by (auto simp: node_hooks_Cons split: prod.splits)
      show ?thesis by (rule later [OF m(1)]) (simp_all add: m(2) starting s1)
    next
      case (Some e')
      with s1(2) have "snd (L x (nw_env s)) \<noteq> None" by (metis option.distinct(1))
      moreover from Cons.prems starting c Some have "s' = s1" "n = 0" by (simp_all add: node_hooks_Cons)
      ultimately show ?thesis using starting s1(1)
        by (intro exI [of _ "[]"] exI [of _ f] exI [of _ order] exI [of _ x] exI [of _ "nw_env s"])
          (simp add: node_hooks_Cons node_hooks_def starts_of_def)
    qed
  qed
qed (simp add: node_hooks_def)

section \<open>Order\<close>

lemma precedes_trans:
  assumes "distinct xs" "precedes xs a b" "precedes xs b c"
  shows "precedes xs a c"
proof -
  from assms(2,3) obtain us vs us' vs' where x: "xs = us @ b # vs" "a \<in> set us" "xs = us' @ c # vs'" "b \<in> set us'"
    unfolding precedes_def by blast
  from x(4) obtain p q where us': "us' = p @ b # q" by (meson split_list)
  have "b \<notin> set us" "b \<notin> set vs" using assms(1) unfolding x(1) by simp_all
  moreover have "us @ b # vs = p @ b # (q @ c # vs')" using x(1,3) us' by simp
  ultimately have "us = p" by (simp add: append_Cons_eq_iff)
  with x us' show ?thesis unfolding precedes_def by (intro exI [of _ us'] exI [of _ vs']) simp
qed

lemma precedes_stops:
  assumes "precedes order g f" "x \<in> set (stop_calls (fn_name f))" "y \<in> set (stop_calls (fn_name g))"
  shows "precedes (stops_of order) x y"
proof -
  from assms(1) obtain us vs ws where o: "order = us @ g # ws @ f # vs"
    unfolding precedes_def by (metis append.assoc append_Cons split_list)
  from assms(3) obtain ps qs where y: "stop_calls (fn_name g) = ps @ y # qs" by (meson split_list)
  show ?thesis unfolding precedes_def
    by (intro exI [of _ "stops_of (ws @ f # vs) @ ps"] exI [of _ "qs @ stops_of us"])
      (use assms(2) in \<open>simp add: o y stops_of_def\<close>)
qed

lemma precedes_starts:
  assumes "precedes order f g" "x \<in> set (start_calls c (fn_name f))" "y \<in> set (start_calls c (fn_name g))"
  shows "precedes (starts_of c order) x y"
proof -
  from assms(1) obtain us vs where o: "order = us @ g # vs" "f \<in> set us" unfolding precedes_def by blast
  from assms(3) obtain ps qs where y: "start_calls c (fn_name g) = ps @ y # qs" by (meson split_list)
  show ?thesis unfolding precedes_def
    by (intro exI [of _ "starts_of c us @ ps"] exI [of _ "qs @ starts_of c vs"])
      (use assms(2) o(2) in \<open>auto simp: o(1) y starts_of_def\<close>)
qed

text \<open>The functions with hooks, and the option that hands each of them over.\<close>

abbreviation "repo_fn \<equiv> hd (fx_functions OptRepo)"
abbreviation "tm_fn \<equiv> hd (fx_functions OptTaskManager)"
abbreviation "mux_fn \<equiv> hd (fx_functions GrpcMuxedListener)"
abbreviation "server_fn \<equiv> hd (fx_functions GrpcServer)"

lemma hooked_depends:
  assumes "f \<in> set (fx_functions opt)" "stop_calls (fn_name f) \<noteq> [] \<or> start_calls c (fn_name f) \<noteq> []"
  shows "f = repo_fn \<or> fn_name f \<in> {FLocalDialer, FCancelHook} \<or> depends f repo_fn \<or> f = mux_fn \<or> f = server_fn"
proof -
  have "\<forall>f \<in> set (fx_functions opt). stop_calls (fn_name f) = [] \<and> start_calls c (fn_name f) = [] \<or>
      f = repo_fn \<or> fn_name f \<in> {FLocalDialer, FCancelHook} \<or> depends f repo_fn \<or> f = mux_fn \<or> f = server_fn"
    by (cases opt) (simp_all add: module_defs depends_def fn_inputs_def fn_outputs_def)
  with assms show ?thesis by blast
qed

lemma chain_depends: "depends tm_fn repo_fn" "depends mux_fn tm_fn" "depends server_fn mux_fn"
  by (simp_all add: depends_def fn_inputs_def fn_outputs_def Provide_def)

text \<open>The functions every order of construction contains.\<close>

lemma order_mem:
  assumes "usable_config c" "node_options c = Ret opts" "construction (node_functions opts) order"
  shows "repo_fn \<in> set order" "tm_fn \<in> set order" "hd (fx_functions OptCancelHook) \<in> set order"
    "flag c ''UseGRPC'' \<Longrightarrow> mux_fn \<in> set order" "flag c ''UseGRPC'' \<Longrightarrow> server_fn \<in> set order"
    "flag c ''UseHTTP'' \<Longrightarrow> hd (fx_functions HttpServer) \<in> set order"
    "flag c ''UseP2P'' \<Longrightarrow> P2PModule ! 1 \<in> set order"
    "flag c ''UseTracing'' \<Longrightarrow> hd (fx_functions OptTracer) \<in> set order"
    "flag c ''UseLocker'' \<Longrightarrow> hd (fx_functions OptLocker) \<in> set order"
proof -
  let ?fns = "node_functions opts"
  note mem = option_present [OF assms(1,2)]
  have fns: "f \<in> set ?fns" if "opt \<in> set opts" "f \<in> set (fx_functions opt)" for f opt
    using that by (auto simp: node_functions_def)
  note pop = populated_constructed [OF assms fns] and inv = construction_invoked [OF assms(3) fns]
  show "repo_fn \<in> set order" by (rule pop [of OptRepo]) (simp_all add: mem table_defs, simp_all add: module_defs fn_inputs_def)
  show "tm_fn \<in> set order" by (rule pop [of OptTaskManager]) (simp_all add: mem table_defs, simp_all add: module_defs fn_inputs_def)
  show "hd (fx_functions OptCancelHook) \<in> set order"
    by (rule inv [of OptCancelHook]) (simp_all add: mem table_defs, simp_all add: module_defs)
  show server: "server_fn \<in> set order" if "flag c ''UseGRPC''"
    by (rule pop [of GrpcServer]) (use that in \<open>simp_all add: mem table_defs\<close>, simp_all add: module_defs fn_inputs_def)
  show "mux_fn \<in> set order" if u: "flag c ''UseGRPC''"
    by (rule construction_precedes(2) [OF assms(3) server [OF u] _ chain_depends(3)], rule fns [of GrpcMuxedListener])
      (use u in \<open>simp_all add: mem table_defs\<close>)
  show "hd (fx_functions HttpServer) \<in> set order" if "flag c ''UseHTTP''"
    by (rule inv [of HttpServer]) (use that in \<open>simp_all add: mem table_defs\<close>, simp_all add: module_defs)
  show "P2PModule ! 1 \<in> set order" if "flag c ''UseP2P''"
    by (rule pop [of OptP2P]) (use that in \<open>simp_all add: mem table_defs\<close>, simp_all add: module_defs fn_inputs_def)
  show "hd (fx_functions OptTracer) \<in> set order" if "flag c ''UseTracing''"
    by (rule pop [of OptTracer]) (use that in \<open>simp_all add: mem table_defs\<close>, simp_all add: module_defs fn_inputs_def)
  show "hd (fx_functions OptLocker) \<in> set order" if "flag c ''UseLocker''"
    by (rule pop [of OptLocker]) (use that in \<open>simp_all add: mem table_defs\<close>, simp_all add: module_defs fn_inputs_def)
qed

text \<open>Each call is made by the hook of one constructor only.\<close>

fun stopper :: "node_call \<Rightarrow> ctor" where
  "stopper RepoClose = FRepo" | "stopper CancelCtx = FCancelHook" | "stopper TmStop = FTaskManager"
| "stopper TracerClose = FTracer" | "stopper LockerClose = FLocker" | "stopper HostClose = FLibp2p" | "stopper DhtClose = FLibp2p"
| "stopper DialerClose = FLocalDialer" | "stopper MuxClose = FMuxedListener" | "stopper GrpcStop = FGrpcServer"
| "stopper HttpShutdown = FHTTPServer" | "stopper _ = FContext"

lemma stop_calls_stopper: "\<forall>x \<in> set (stop_calls f). stopper x = f" "distinct (stop_calls f)"
  by (cases f; simp)+

lemma distinct_stops: "distinct (map fn_name order) \<Longrightarrow> distinct (stops_of order)"
proof (induction order)
  case (Cons f order)
  have "stopper x \<in> fn_name ` set order" if "x \<in> set (stops_of order)" for x
    using that stop_calls_stopper(1) by (auto simp: stops_of_def)
  then have "set (stops_of order) \<inter> set (stop_calls (fn_name f)) = {}"
    using Cons.prems stop_calls_stopper(1) [of "fn_name f"] by fastforce
  with Cons show ?case by (simp add: stops_of_def stop_calls_stopper(2))
qed (simp add: stops_of_def)

lemma order_distinct:
  assumes "usable_config c" "node_options c = Ret opts" "construction (node_functions opts) order"
  shows "distinct (map fn_name order)"
proof -
  have "subseq (node_functions opts) (node_functions all_options)"
    unfolding node_functions_def by (rule subseq_concat_map [OF node_options_subseq [OF assms(1,2)]])
  then have "set (node_functions opts) \<subseteq> set (node_functions all_options)" by (auto dest: list_emb_set)
  with all_options_distinct(1) assms(3) show ?thesis
    unfolding construction_def distinct_map by (meson inj_on_subset subset_trans)
qed

lemma server_after_mux:
  assumes "usable_config c" "node_options c = Ret opts" "construction (node_functions opts) order"
    and f: "f \<in> set order" "fn_name f = FGrpcServer"
  shows "precedes order mux_fn f" "mux_fn \<in> set order"
proof -
  from assms(3) f(1) obtain opt where opt: "opt \<in> set opts" "f \<in> set (fx_functions opt)"
    by (auto simp: construction_def node_functions_def)
  have "\<forall>f \<in> set (fx_functions opt). fn_name f = FGrpcServer \<longrightarrow> f = server_fn" by (cases opt) (simp_all add: module_defs)
  with opt(2) f(2) have s: "f = server_fn" by blast
  from provider_present [OF assms(1,2) opt, of DMux] s have "GrpcMuxedListener \<in> set opts" by (simp add: Provide_def)
  then have m: "mux_fn \<in> set (node_functions opts)" by (force simp: node_functions_def)
  from construction_precedes [OF assms(3) f(1) m] chain_depends(3) s
  show "precedes order mux_fn f" "mux_fn \<in> set order" by simp_all
qed

text \<open>Whatever has hooks, except the local dialer and the cancellation, is constructed after the
  repository.\<close>

lemma repo_first:
  assumes "usable_config c" "node_options c = Ret opts" "construction (node_functions opts) order"
    and f: "f \<in> set order" "stop_calls (fn_name f) \<noteq> [] \<or> start_calls c (fn_name f) \<noteq> []"
    and other: "fn_name f \<notin> {FRepo, FLocalDialer, FCancelHook}"
  shows "precedes order repo_fn f"
proof -
  let ?fns = "node_functions opts"
  from assms(3) f(1) obtain opt where opt: "opt \<in> set opts" "f \<in> set (fx_functions opt)"
    by (auto simp: construction_def node_functions_def)
  note mem = order_mem [OF assms(1-3)] and pre = construction_precedes(1) [OF assms(3)]
  have dist: "distinct order" and sub: "set order \<subseteq> set ?fns" using assms(3) by (simp_all add: construction_def)
  have tm: "precedes order repo_fn tm_fn" by (rule pre [OF mem(2) _ chain_depends(1)]) (use mem(1) sub in blast)
  have mux: "precedes order repo_fn mux_fn" if "mux_fn \<in> set order"
    by (rule precedes_trans [OF dist tm], rule pre [OF that _ chain_depends(2)]) (use mem(2) sub in blast)
  have server: "precedes order repo_fn server_fn" if s: "f = server_fn"
  proof -
    have "fn_name f = FGrpcServer" by (simp add: s Provide_def)
    note m = server_after_mux [OF assms(1-3) f(1) this]
    show ?thesis by (rule precedes_trans [OF dist mux [OF m(2)] m(1) [unfolded s]])
  qed
  have "f \<noteq> repo_fn" using other by (auto simp: Provide_def)
  with hooked_depends [OF opt(2) f(2)] other consider "depends f repo_fn" | "f = mux_fn" | "f = server_fn" by blast
  then show ?thesis
  proof cases
    case 1
    show ?thesis by (rule pre [OF f(1) _ 1]) (use mem(1) sub in blast)
  qed (use mux server f(1) in auto)
qed

lemma stops_before_repo:
  assumes "usable_config c" "node_options c = Ret opts" "construction (node_functions opts) order"
    and "x \<in> set (stops_of order)" "x \<notin> {RepoClose, DialerClose, CancelCtx}"
  shows "precedes (stops_of order) x RepoClose"
proof -
  from assms(4) obtain f where f: "f \<in> set order" "x \<in> set (stop_calls (fn_name f))" by (auto simp: stops_of_def)
  have "fn_name f \<notin> {FRepo, FLocalDialer, FCancelHook}" using f(2) assms(5) by auto
  then have "precedes order repo_fn f" by (intro repo_first [OF assms(1-3) f(1)]) (use f(2) in auto)
  from precedes_stops [OF this f(2)] show ?thesis by (simp add: Provide_def)
qed

section \<open>Orderly start and stop\<close>

lemma stop_of_member: "f \<in> set order \<Longrightarrow> x \<in> set (stop_calls (fn_name f)) \<Longrightarrow> x \<in> set (stops_of order)"
  by (auto simp: stops_of_def)

lemma grpc_order:
  assumes "usable_config c" "node_options c = Ret opts" "construction (node_functions opts) order" "flag c ''UseGRPC''"
  shows "precedes (starts_of c order) MuxStart GrpcServe" "precedes (stops_of order) GrpcStop MuxClose"
    "precedes (stops_of order) MuxClose TmStop"
    "flag c ''UseP2P'' \<Longrightarrow> flag c ''UseP2PGRPC'' \<Longrightarrow> precedes (stops_of order) MuxClose HostClose"
proof -
  let ?fns = "node_functions opts" and ?listener = "hd (fx_functions GrpcP2PListener)" and ?host = "P2PModule ! 1"
  note mem = order_mem [OF assms(1-3)] and pre = construction_precedes [OF assms(3)]
  have sub: "set order \<subseteq> set ?fns" and dist: "distinct order" using assms(3) by (simp_all add: construction_def)
  have server: "precedes order mux_fn server_fn"
    by (rule pre(1) [OF mem(5) [OF assms(4)] _ chain_depends(3)]) (use mem(4) [OF assms(4)] sub in blast)
  have mux: "precedes order tm_fn mux_fn"
    by (rule pre(1) [OF mem(4) [OF assms(4)] _ chain_depends(2)]) (use mem(2) sub in blast)
  show "precedes (starts_of c order) MuxStart GrpcServe"
    by (rule precedes_starts [OF server]) (simp_all add: Provide_def)
  show "precedes (stops_of order) GrpcStop MuxClose"
    by (rule precedes_stops [OF server]) (simp_all add: Provide_def)
  show "precedes (stops_of order) MuxClose TmStop"
    by (rule precedes_stops [OF mux]) (simp_all add: Provide_def)
  show "precedes (stops_of order) MuxClose HostClose" if p: "flag c ''UseP2P''" "flag c ''UseP2PGRPC''"
  proof -
    have "GrpcP2PListener \<in> set opts"
      using assms(4) p by (simp add: option_present [OF assms(1,2)] table_defs)
    then have "?listener \<in> set ?fns" by (force simp: node_functions_def)
    note l = pre [OF mem(4) [OF assms(4)] this]
    have d: "depends mux_fn ?listener" "depends ?listener ?host"
      by (simp_all add: depends_def fn_inputs_def fn_outputs_def module_defs)
    have "precedes order ?host ?listener"
      by (rule pre(1) [OF l(2) [OF d(1)] _ d(2)]) (use mem(7) [OF p(1)] sub in blast)
    from precedes_stops [OF precedes_trans [OF dist this l(1) [OF d(1)]]] show ?thesis by (simp add: module_defs)
  qed
qed

text \<open>Invoked functions are called in the order of the options, and the one that appends the
  cancellation comes after the modules.\<close>

lemma precedes_Cons: "precedes (x # xs) a b \<longleftrightarrow> x = a \<and> b \<in> set xs \<or> precedes xs a b"
proof
  assume "precedes (x # xs) a b"
  then obtain us vs where "x # xs = us @ b # vs" "a \<in> set us" unfolding precedes_def by blast
  then show "x = a \<and> b \<in> set xs \<or> precedes xs a b" by (cases us) (auto simp: precedes_def)
next
  assume "x = a \<and> b \<in> set xs \<or> precedes xs a b"
  then show "precedes (x # xs) a b"
  proof
    assume b: "x = a \<and> b \<in> set xs"
    then obtain us vs where "xs = us @ b # vs" by (meson split_list)
    with b show ?thesis unfolding precedes_def by (intro exI [of _ "x # us"] exI [of _ vs]) simp
  next
    assume "precedes xs a b"
    then obtain us vs where "xs = us @ b # vs" "a \<in> set us" unfolding precedes_def by blast
    then show ?thesis unfolding precedes_def by (intro exI [of _ "x # us"] exI [of _ vs]) simp
  qed
qed

lemma precedes_Nil: "\<not> precedes [] a b"
  by (simp add: precedes_def)

lemma precedes_filter: "precedes (filter P xs) a b \<Longrightarrow> precedes xs a b"
  by (induction xs) (auto simp: precedes_Cons precedes_Nil split: if_splits)

lemma precedes_append: "a \<in> set xs \<Longrightarrow> b \<in> set ys \<Longrightarrow> precedes (xs @ ys) a b"
  by (induction xs) (auto simp: precedes_Cons)

lemma cancel_invoked_last:
  assumes "usable_config c" "node_options c = Ret opts" "construction (node_functions opts) order"
    and "opt \<in> set opts" "opt \<notin> set (chosen c rest_table)" "f \<in> set (fx_functions opt)" "fn_invoke f"
  shows "precedes order f (hd (fx_functions OptCancelHook))"
proof -
  let ?cancel = "hd (fx_functions OptCancelHook)"
  have "flags_boolean c" using assms(1) by (simp add: usable_config_def flags_boolean_def)
  from node_options_chosen [OF this] assms(2) obtain pre where opts: "opts = pre @ chosen c rest_table" by auto
  with assms(4,5) have "opt \<in> set pre" by simp
  with assms(6,7) have "f \<in> set (filter fn_invoke (node_functions pre))" by (auto simp: node_functions_def)
  moreover have "?cancel \<in> set (filter fn_invoke (node_functions (chosen c rest_table)))"
    by (auto simp: node_functions_def table_defs chosen_def Invoke_def Provide_def)
  moreover have "filter fn_invoke order = filter fn_invoke (node_functions pre) @ filter fn_invoke (node_functions (chosen c rest_table))"
    using assms(3) by (simp add: construction_def opts node_functions_def)
  ultimately have "precedes (filter fn_invoke order) f ?cancel" by (simp only: precedes_append)
  then show ?thesis by (rule precedes_filter)
qed

lemma cancel_order:
  assumes "usable_config c" "node_options c = Ret opts" "construction (node_functions opts) order"
  shows "flag c ''UseHTTP'' \<Longrightarrow> precedes (stops_of order) CancelCtx HttpShutdown"
    and "flag c ''UseP2P'' \<Longrightarrow> precedes (stops_of order) CancelCtx HostClose"
proof -
  note last = cancel_invoked_last [OF assms] and present = option_present [OF assms(1,2)]
  show "precedes (stops_of order) CancelCtx HttpShutdown" if h: "flag c ''UseHTTP''"
  proof (rule precedes_stops [OF last [of HttpServer]])
    show "HttpServer \<in> set opts" "HttpServer \<notin> set (chosen c rest_table)" using h by (simp_all add: present table_defs)
  qed (auto simp: Invoke_def Provide_def)
  show "precedes (stops_of order) CancelCtx HostClose" if p: "flag c ''UseP2P''"
  proof -
    let ?host = "P2PModule ! 1" and ?mdns = "P2PModule ! 5"
    have opt: "OptP2P \<in> set opts" "OptP2P \<notin> set (chosen c rest_table)" using p by (simp_all add: present table_defs)
    have mdns: "precedes order ?mdns (hd (fx_functions OptCancelHook))" by (rule last [OF opt]) (simp_all add: module_defs)
    then have "?mdns \<in> set order" by (auto simp: precedes_def)
    then have "precedes order ?host ?mdns"
      by (rule construction_precedes(1) [OF assms(3)])
        (use opt(1) in \<open>force simp: node_functions_def module_defs\<close>, simp add: depends_def fn_inputs_def fn_outputs_def module_defs)
    with mdns have "precedes order ?host (hd (fx_functions OptCancelHook))"
      using precedes_trans assms(3) by (auto simp: construction_def)
    from precedes_stops [OF this] show ?thesis by (simp add: module_defs)
  qed
qed


text \<open>A container that does what is documented, and calls that never fail.\<close>

definition sample_Start :: "'w hook list result \<Rightarrow> 'w node_world \<Rightarrow> 'w node_world \<times> nat \<times> goerror option" where
  "sample_Start app s =
     (case app of
        Inl err \<Rightarrow> (s, 0, Some err)
      | Inr hs \<Rightarrow>
          (case run_starts hs s of
             (s', n, None) \<Rightarrow> (s', n, None)
           | (s', n, Some err) \<Rightarrow> (fst (run_stops (rev (take n hs)) s'), 0, Some err)))"

definition sample_Stop :: "'w hook list result \<Rightarrow> nat \<Rightarrow> 'w action" where
  "sample_Stop app n s =
     (case app of
        Inl err \<Rightarrow> (s, None)
      | Inr hs \<Rightarrow> (case run_stops (rev (take n hs)) s of (s', errs) \<Rightarrow> (s', ErrorOrNil errs)))"

lemma sample_runs_hooks: "runs_hooks sample_Start sample_Stop"
  by (simp add: runs_hooks_def sample_Start_def sample_Stop_def ErrorOrNil_def split: prod.splits option.splits)

lemma peer_order: obtains opts order where "node_options peer_config = Ret opts" "construction (node_functions opts) order"
  using node_option_mem [OF peer_config_usable] construction_exists node_functions_distinct(1) [OF peer_config_usable] by blast

lemma quiet_start:
  obtains s1 n where "sample_Start (Inr (node_hooks (\<lambda>_ w. (w, None)) c order)) s = (s1, n, None)"
proof -
  let ?hs = "node_hooks (\<lambda>_ w. (w, None)) c order"
  obtain s1 n e where r: "run_starts ?hs s = (s1, n, e)" by (cases "run_starts ?hs s") auto
  then have "e = None" using starts_fail [of "\<lambda>_ w. (w, None)" c order s s1 n] by (cases e) auto
  with r that show thesis by (simp add: sample_Start_def)
qed


section \<open>A start that fails\<close>

lemma stops_of_append: "stops_of (us @ vs) = stops_of vs @ stops_of us"
  by (simp add: stops_of_def)

lemma starting_calls:
  "x \<in> set (start_calls c f) \<Longrightarrow> (x, f) \<in> {(BootstrapStart, FBootstrapper), (MuxStart, FMuxedListener), (GrpcServe, FGrpcServer), (HttpServe, FHTTPServer)}"
  by (cases f) (auto split: if_splits)

text \<open>
  C25: what a failed start leaves behind. When a start hook fails, there is a constructor \<open>f\<close> in the
  order of construction whose hook made the failing call, one of the four that can fail. The
  calls that were made are exactly the start calls of the constructors before \<open>f\<close> in their
  order, the failing call, and then the stop calls of exactly the constructors before \<open>f\<close> in
  the reverse order; among these is always the closing of the repository, and that of the mux when
  the gRPC server failed. Stopping the node later does nothing more. But the part whose hook
  failed is not closed: listeners that were opened before another one of the mux failed stay
  open.
\<close>

theorem failed_start:
  assumes "usable_config c" "node_options c = Ret opts" "construction (node_functions opts) order"
    and "runs_hooks app_Start app_Stop" "app_Start (Inr (node_hooks L c order)) s = (s1, n, Some err)"
  shows "(\<exists>us f vs x. order = us @ f # vs \<and> start_calls c (fn_name f) = [x] \<and> (\<exists>w. snd (L x w) \<noteq> None) \<and>
      nw_calls s1 = nw_calls s @ concat (map (\<lambda>g. start_calls c (fn_name g)) us) @ [x] @
        concat (map (\<lambda>g. stop_calls (fn_name g)) (rev us)) \<and>
      x \<in> {BootstrapStart, MuxStart, GrpcServe, HttpServe} \<and> distinct (stops_of us) \<and> RepoClose \<in> set (stops_of us) \<and>
      (x = MuxStart \<longrightarrow> MuxClose \<notin> set (stops_of us)) \<and> (x = HttpServe \<longrightarrow> HttpShutdown \<notin> set (stops_of us)) \<and>
      (x = GrpcServe \<longrightarrow> GrpcStop \<notin> set (stops_of us) \<and> MuxClose \<in> set (stops_of us))) \<and>
    app_Stop (Inr (node_hooks L c order)) n s1 = (s1, None)"
proof (intro conjI)
  let ?hs = "node_hooks L c order"
  from runs_hooksD(2) [OF assms(4,5)] obtain s' m err' where r: "run_starts ?hs s = (s', m, Some err')"
    and s1: "s1 = fst (run_stops (rev (take m ?hs)) s')" and n: "n = 0" by blast
  from starts_fail [OF r] obtain us f vs x w where o: "order = us @ f # vs" "take m ?hs = node_hooks L c us"
    "nw_calls s' = nw_calls s @ starts_of c (us @ [f])" "start_calls c (fn_name f) = [x]" "snd (L x w) \<noteq> None" by blast
  from o(3,4) have calls: "nw_calls s1 = nw_calls s @ starts_of c us @ [x] @ stops_of us"
    by (simp add: s1 o(2) starts_of_def stops_trace)
  from o(4) have x: "(x, fn_name f) \<in> {(BootstrapStart, FBootstrapper), (MuxStart, FMuxedListener), (GrpcServe, FGrpcServer), (HttpServe, FHTTPServer)}"
    by (intro starting_calls [of x c]) simp
  have dist: "distinct (stops_of order)" "distinct order"
    using distinct_stops [OF order_distinct [OF assms(1-3)]] assms(3) by (simp_all add: construction_def)
  have before: "g \<in> set us" if "precedes order g f" for g
    using that o(1) dist(2) unfolding precedes_def by (auto simp: append_eq_append_conv2 Cons_eq_append_conv)
  have "precedes order repo_fn f" by (rule repo_first [OF assms(1-3)]) (use o(1,4) x in auto)
  from before [OF this] have repo: "RepoClose \<in> set (stops_of us)" by (rule stop_of_member) (simp add: Provide_def)
  have away: "y \<notin> set (stops_of us)" if "y \<in> set (stop_calls (fn_name f))" for y
    using dist(1) that by (auto simp: o(1) stops_of_append) (auto simp: stops_of_def)
  have mux: "MuxClose \<in> set (stops_of us)" if g: "x = GrpcServe"
  proof (rule stop_of_member)
    show "mux_fn \<in> set us" by (rule before, rule server_after_mux [OF assms(1-3)]) (use g x o(1) in auto)
  qed (simp add: Provide_def)
  show "\<exists>us f vs x. order = us @ f # vs \<and> start_calls c (fn_name f) = [x] \<and> (\<exists>w. snd (L x w) \<noteq> None) \<and>
      nw_calls s1 = nw_calls s @ concat (map (\<lambda>g. start_calls c (fn_name g)) us) @ [x] @
        concat (map (\<lambda>g. stop_calls (fn_name g)) (rev us)) \<and>
      x \<in> {BootstrapStart, MuxStart, GrpcServe, HttpServe} \<and> distinct (stops_of us) \<and> RepoClose \<in> set (stops_of us) \<and>
      (x = MuxStart \<longrightarrow> MuxClose \<notin> set (stops_of us)) \<and> (x = HttpServe \<longrightarrow> HttpShutdown \<notin> set (stops_of us)) \<and>
      (x = GrpcServe \<longrightarrow> GrpcStop \<notin> set (stops_of us) \<and> MuxClose \<in> set (stops_of us))"
    by (rule exI [of _ us], rule exI [of _ f], rule exI [of _ vs], rule exI [of _ x],
        unfold starts_of_def [symmetric] stops_of_def [symmetric])
      (use calls o(4,5) x dist(1) repo away mux in \<open>auto simp: o(1) stops_of_append\<close>)
  show "app_Stop (Inr ?hs) n s1 = (s1, None)"
    using runs_hooksD(3) [OF assms(4) surjective_pairing, of ?hs n s1] n by (simp add: prod_eq_iff)
qed

lemma starts_succeeded:
  "run_starts (node_hooks L c order) s = (s', n, None) \<Longrightarrow> x \<in> set (starts_of c order) \<Longrightarrow> \<exists>w. snd (L x w) = None"
proof (induction order arbitrary: s n)
  case (Cons f order)
  show ?case
  proof (cases rule: hook_cases [of L c "fn_name f"])
    case none
    with Cons show ?thesis by (auto simp: node_hooks_Cons starts_of_Cons)
  next
    case (silent h)
    with Cons show ?thesis by (auto simp: node_hooks_Cons starts_of_Cons split: prod.splits)
  next
    case (starting h y)
    obtain s1 e where c: "call L y s = (s1, e)" by fastforce
    from c starting Cons.prems(1) obtain m where m: "e = None" "run_starts (node_hooks L c order) s1 = (s', m, None)"
      by (auto simp: node_hooks_Cons split: prod.splits option.splits)
    with c call_trace(4) [of L y s] have "snd (L y (nw_env s)) = None" by simp
    with Cons.IH [OF m(2)] Cons.prems(2) starting show ?thesis by (auto simp: starts_of_Cons)
  qed
qed (simp add: starts_of_def)

theorem failed_start_witness:
  "\<exists>opts order s1 n err starts stops. node_options peer_config = Ret opts \<and> construction (node_functions opts) order \<and>
    sample_Start (Inr (node_hooks (\<lambda>x w. (w, if x = MuxStart then Some (ErrorString ''address in use'') else None)) peer_config order))
      \<lparr>nw_env = (), nw_calls = []\<rparr> = (s1, n, Some err) \<and>
    nw_calls s1 = starts @ [MuxStart] @ stops \<and> RepoClose \<in> set stops \<and> MuxClose \<notin> set stops"
proof -
  let ?L = "\<lambda>x w. (w :: unit, if x = MuxStart then Some (ErrorString ''address in use'') else None)"
  let ?s = "\<lparr>nw_env = (), nw_calls = []\<rparr>"
  obtain opts order where o: "node_options peer_config = Ret opts" "construction (node_functions opts) order" by (rule peer_order)
  let ?hs = "node_hooks ?L peer_config order"
  have "mux_fn \<in> set order" by (rule order_mem(4) [OF peer_config_usable o peer_config_flags(1)])
  then have m: "MuxStart \<in> set (starts_of peer_config order)" by (force simp: starts_of_def Provide_def)
  obtain s1 n e where st: "sample_Start (Inr ?hs) ?s = (s1, n, e)" by (cases "sample_Start (Inr ?hs) ?s") auto
  have "e \<noteq> None"
  proof
    assume "e = None"
    with st have "sample_Start (Inr ?hs) ?s = (s1, n, None)" by simp
    from starts_succeeded [OF runs_hooksD(1) [OF sample_runs_hooks this] m] show False by simp
  qed
  then obtain err where start: "sample_Start (Inr ?hs) ?s = (s1, n, Some err)" using st by blast
  from failed_start [OF peer_config_usable o sample_runs_hooks start] obtain us x w where
    t: "nw_calls s1 = concat (map (\<lambda>g. start_calls peer_config (fn_name g)) us) @ [x] @ stops_of us" "snd (?L x w) \<noteq> None"
      "RepoClose \<in> set (stops_of us)" "x = MuxStart \<longrightarrow> MuxClose \<notin> set (stops_of us)"
    unfolding stops_of_def by auto
  from t(2) have "x = MuxStart" by (simp split: if_splits)
  with o start t show ?thesis by blast
qed

end
