(* ===== verification/Server_Lifecycle.thy ===== *)
theory Server_Lifecycle
  imports Node_Servers
begin

text \<open>
  The life cycle the gRPC server (\<^verbatim>\<open>modules/node/grpc/grpc.go\<close>) and the HTTP server
  (\<^verbatim>\<open>modules/node/http/http.go\<close>) share: a start hook launches a goroutine that serves, waits until
  it runs or the start's context ends, and registers a reporter that looks at the goroutine's
  end. Goroutine, hook and context are interleaved by a step relation; what \<^verbatim>\<open>Serve\<close> returns is
  arbitrary.
\<close>

section \<open>States and steps\<close>

datatype goroutine = Spawned | Serving | Finished "goerror option"
datatype hook = Waiting | HookReturned "goerror option"

record server_state =
  sv_goroutine :: goroutine
  sv_hook :: hook
  sv_ctxErr :: "goerror option"
  sv_reporters :: "string list"

definition server_init :: server_state where
  "server_init = \<lparr>sv_goroutine = Spawned, sv_hook = Waiting, sv_ctxErr = None, sv_reporters = []\<rparr>"

text \<open>The channel \<^verbatim>\<open>started\<close> is closed when the goroutine runs, \<^verbatim>\<open>stopped\<close> when it ends.\<close>

definition started_closed :: "server_state \<Rightarrow> bool" where
  "started_closed s = (sv_goroutine s \<noteq> Spawned)"

definition stopped_closed :: "server_state \<Rightarrow> bool" where
  "stopped_closed s = (case sv_goroutine s of Finished _ \<Rightarrow> True | _ \<Rightarrow> False)"

text \<open>\<open>key\<close> is the name under which the server reports.\<close>

inductive server_step :: "string \<Rightarrow> server_state \<Rightarrow> server_state \<Rightarrow> bool" for key where
  goroutine_runs: "sv_goroutine s = Spawned \<Longrightarrow> server_step key s (s\<lparr>sv_goroutine := Serving\<rparr>)"
| serve_returns: "sv_goroutine s = Serving \<Longrightarrow> server_step key s (s\<lparr>sv_goroutine := Finished err\<rparr>)"
| context_ends: "sv_ctxErr s = None \<Longrightarrow> server_step key s (s\<lparr>sv_ctxErr := Some err\<rparr>)"
| hook_context: "sv_hook s = Waiting \<Longrightarrow> sv_ctxErr s = Some err \<Longrightarrow>
    server_step key s (s\<lparr>sv_hook := HookReturned (Some err)\<rparr>)"
| hook_started: "sv_hook s = Waiting \<Longrightarrow> started_closed s \<Longrightarrow>
    server_step key s (s\<lparr>sv_hook := HookReturned None, sv_reporters := sv_reporters s @ [key]\<rparr>)"

inductive_cases server_stepE: "server_step key s s'"

definition httpReporter_Status :: "int \<Rightarrow> server_state \<Rightarrow> string" where
  "httpReporter_Status port s = (if stopped_closed s then ''stopped'' else ''running on port '' @ int_str port)"

definition grpcReporter_Status :: "server_state \<Rightarrow> string" where
  "grpcReporter_Status s = (if stopped_closed s then ''stopped'' else ''running'')"

section \<open>The invariant\<close>

definition server_inv :: "string \<Rightarrow> server_state \<Rightarrow> bool" where
  "server_inv key s \<longleftrightarrow>
     (sv_hook s = HookReturned None \<longrightarrow> started_closed s) \<and>
     sv_reporters s = (if sv_hook s = HookReturned None then [key] else []) \<and>
     (\<forall>err. sv_hook s = HookReturned (Some err) \<longrightarrow> sv_ctxErr s = Some err)"

lemma server_step_inv: "server_step key s s' \<Longrightarrow> server_inv key s \<Longrightarrow> server_inv key s'"
  by (erule server_stepE) (auto simp: server_inv_def started_closed_def)

lemma server_init_inv: "server_inv key server_init"
  by (simp add: server_inv_def server_init_def)

text \<open>The steps goroutine, context and hook have left.\<close>

definition server_steps_left :: "server_state \<Rightarrow> nat" where
  "server_steps_left s =
     (case sv_goroutine s of Spawned \<Rightarrow> 2 | Serving \<Rightarrow> 1 | Finished _ \<Rightarrow> 0) +
     (if sv_ctxErr s = None then 1 else 0) + (if sv_hook s = Waiting then 1 else 0)"

lemma server_step_left: "server_step key s s' \<Longrightarrow> Suc (server_steps_left s') = server_steps_left s"
  by (erule server_stepE) (auto simp: server_steps_left_def)

interpretation srv: transition_invariant "server_step key" "server_inv key" for key
  by unfold_locales (rule server_step_inv)

interpretation srv: counted_transitions "server_step key" server_steps_left for key
  by unfold_locales (rule server_step_left)

text \<open>A waiting hook never blocks the start for good: something can still happen.\<close>

lemma waiting_can_step: "sv_hook s = Waiting \<Longrightarrow> \<exists>s'. server_step key s s'"
proof (cases "sv_goroutine s = Spawned")
  case True
  from goroutine_runs [OF this] show ?thesis by (rule exI)
next
  assume w: "sv_hook s = Waiting"
  case False
  then have "started_closed s" by (simp add: started_closed_def)
  from hook_started [OF w this] show ?thesis by (rule exI)
qed

text \<open>A hook that has returned stays as it is, and a goroutine that has ended stays ended.\<close>

lemma server_step_stable:
  "server_step key s s' \<Longrightarrow> sv_hook s = HookReturned r \<Longrightarrow> sv_hook s' = HookReturned r"
  "server_step key s s' \<Longrightarrow> stopped_closed s \<Longrightarrow> sv_goroutine s' = sv_goroutine s"
  by (erule server_stepE; auto simp: stopped_closed_def)+

text \<open>From the start, the goroutine may run, fail to serve, and the hook then return.\<close>

lemma failed_start_reachable:
  "(server_step key ^^ 3) server_init \<lparr>sv_goroutine = Finished (Some err), sv_hook = HookReturned None, sv_ctxErr = None, sv_reporters = [key]\<rparr>"
proof -
  have s1: "server_step key server_init (server_init\<lparr>sv_goroutine := Serving\<rparr>)"
    by (rule goroutine_runs) (simp add: server_init_def)
  have s2: "server_step key (server_init\<lparr>sv_goroutine := Serving\<rparr>) (server_init\<lparr>sv_goroutine := Finished (Some err)\<rparr>)"
    using serve_returns [of "server_init\<lparr>sv_goroutine := Serving\<rparr>" key "Some err"] by simp
  have s3: "server_step key (server_init\<lparr>sv_goroutine := Finished (Some err)\<rparr>)
      \<lparr>sv_goroutine = Finished (Some err), sv_hook = HookReturned None, sv_ctxErr = None, sv_reporters = [key]\<rparr>"
    using hook_started [of "server_init\<lparr>sv_goroutine := Finished (Some err)\<rparr>" key]
    by (simp add: server_init_def started_closed_def)
  show ?thesis unfolding numeral_3_eq_3
    by (rule relpowp_Suc_I2, rule s1, rule relpowp_Suc_I2, rule s2, rule relpowp_Suc_I2, rule s3, rule relpowp_0_I)
qed

text \<open>
  C36: what a started server means. Every interleaving has at most four steps and can go on as
  long as the start hook waits, so the hook returns. When it has returned
  without error, the goroutine has been started and exactly one reporter is registered, which says
  that the server runs as long as serving has not ended and that it is stopped from then on;
  when the hook returned an error it is that of the context and there is no reporter. But a
  server that cannot serve at all, for instance because its port is taken, can leave the hook
  returning success: the failure shows in the status only.
\<close>

theorem server_start_report:
  assumes "(server_step key ^^ n) server_init s"
  shows "n \<le> 4 \<and>
    (case sv_hook s of
       Waiting \<Rightarrow> sv_reporters s = [] \<and> (\<exists>s'. server_step key s s')
     | HookReturned (Some err) \<Rightarrow> sv_reporters s = [] \<and> sv_ctxErr s = Some err
     | HookReturned None \<Rightarrow> sv_reporters s = [key] \<and>
         (if \<exists>r. sv_goroutine s = Finished r then httpReporter_Status port s = ''stopped'' \<and> grpcReporter_Status s = ''stopped''
          else sv_goroutine s = Serving \<and> httpReporter_Status port s = ''running on port '' @ int_str port \<and>
            grpcReporter_Status s = ''running'')) \<and>
    (\<exists>s'. (server_step key)\<^sup>*\<^sup>* server_init s' \<and> sv_goroutine s' = Finished (Some err) \<and> sv_hook s' = HookReturned None)"
proof (intro conjI)
  show "n \<le> 4"
    using srv.run_length [OF assms] by (simp add: server_steps_left_def server_init_def)
  from assms server_init_inv have "server_inv key s" by (rule srv.after_steps)
  then show "case sv_hook s of
       Waiting \<Rightarrow> sv_reporters s = [] \<and> (\<exists>s'. server_step key s s')
     | HookReturned (Some err) \<Rightarrow> sv_reporters s = [] \<and> sv_ctxErr s = Some err
     | HookReturned None \<Rightarrow> sv_reporters s = [key] \<and>
         (if \<exists>r. sv_goroutine s = Finished r then httpReporter_Status port s = ''stopped'' \<and> grpcReporter_Status s = ''stopped''
          else sv_goroutine s = Serving \<and> httpReporter_Status port s = ''running on port '' @ int_str port \<and>
            grpcReporter_Status s = ''running'')"
    by (cases "sv_goroutine s")
      (auto simp: server_inv_def started_closed_def stopped_closed_def httpReporter_Status_def grpcReporter_Status_def
        waiting_can_step split: hook.splits option.splits)
  show "\<exists>s'. (server_step key)\<^sup>*\<^sup>* server_init s' \<and> sv_goroutine s' = Finished (Some err) \<and> sv_hook s' = HookReturned None"
    by (rule exI, rule conjI, rule relpowp_imp_rtranclp, rule failed_start_reachable [of key err]) simp
qed

theorem server_start_report_witness:
  "httpReporter_Status 80 \<lparr>sv_goroutine = Finished (Some (ErrorString ''address in use'')), sv_hook = HookReturned None,
     sv_ctxErr = None, sv_reporters = [''HTTP Server'']\<rparr> = ''stopped''"
  using server_start_report [OF failed_start_reachable [of "''HTTP Server''" "ErrorString ''address in use''"], of 80] by simp

end
