(* ===== verification/Node_Status.thy ===== *)
theory Node_Status
  imports Node_Lifecycle Server_Lifecycle
begin

text \<open>
  What a node reports about itself: the reporters its constructors and start hooks register
  (\<^verbatim>\<open>AddReporter\<close> in \<^verbatim>\<open>modules/node/node.go\<close>, \<^verbatim>\<open>modules/node/ipfs/host.go\<close>, \<^verbatim>\<open>modules/node/grpc\<close>,
  \<^verbatim>\<open>modules/node/http/http.go\<close>), the value each gives, and the document \<^verbatim>\<open>/status\<close> answers with.
\<close>

section \<open>Reporters\<close>

datatype reporter = RepoReporter | TmReporter | SvcsReporter | MuxReporter | GrpcReporter | HttpReporter | P2PReporter

definition NewP2PReporter :: "reporter gomap \<Rightarrow> reporter gomap" where
  "NewP2PReporter st = AddReporter st ''P2P Service'' P2PReporter"

definition node_reporters_hook :: "reporter gomap \<Rightarrow> reporter gomap" where
  "node_reporters_hook st =
     AddReporter (AddReporter (AddReporter st ''Repository'' RepoReporter) ''TaskManager'' TmReporter) ''Services'' SvcsReporter"

text \<open>At construction; the two servers register when their start hook succeeds.\<close>

fun constructed_reporters :: "ctor \<Rightarrow> reporter gomap \<Rightarrow> reporter gomap" where
  "constructed_reporters FP2PReporter st = NewP2PReporter st"
| "constructed_reporters FReporters st = node_reporters_hook st"
| "constructed_reporters FMuxedListener st = AddReporter st ''RPC Listeners'' MuxReporter"
| "constructed_reporters _ st = st"

fun started_reporters :: "node_call \<Rightarrow> reporter gomap \<Rightarrow> reporter gomap" where
  "started_reporters GrpcServe st = AddReporter st ''GRPC Server'' GrpcReporter"
| "started_reporters HttpServe st = AddReporter st ''HTTP Server'' HttpReporter"
| "started_reporters _ st = st"

text \<open>The status manager of a node that was constructed in an order and made these calls when started.\<close>

definition reporters_after :: "fx_fn list \<Rightarrow> node_call list \<Rightarrow> reporter gomap" where
  "reporters_after order starts =
     fold started_reporters starts (fold (\<lambda>f. constructed_reporters (fn_name f)) order New_status)"

section \<open>What they report\<close>

text \<open>The parts of a node the reporters look at. Repository and task manager are given by their status
  values, the host by its ID, addresses and peers.\<close>

record 'c node_state =
  ns_repo :: goval
  ns_tm :: goval
  ns_config :: JsonConfig
  ns_mux :: "'c Mux"
  ns_grpc :: server_state
  ns_http :: server_state
  ns_port :: int
  ns_ID :: string
  ns_Addrs :: "string list"
  ns_Peers :: "string list"

definition p2pReporter_Status :: "string \<Rightarrow> string list \<Rightarrow> string list \<Rightarrow> goval" where
  "p2pReporter_Status ID Addrs Peers = GMap [(''ID'', GStr ID), (''Addrs'', GStrs Addrs), (''Peers'', GStrs Peers)]"

text \<open>The text of a listener's status; \<open>Error\<close> is the text of an error.\<close>

fun mux_status_text :: "(goerror \<Rightarrow> string) \<Rightarrow> mux_status \<Rightarrow> string" where
  "mux_status_text Error NotRunning = ''not running''"
| "mux_status_text Error Running = ''running''"
| "mux_status_text Error (FailedToStart err) = ''failed to start err: '' @ Error err"
| "mux_status_text Error (FailedWith err) = ''failed with err: '' @ Error err"

fun reporter_Status :: "(goerror \<Rightarrow> string) \<Rightarrow> 'c node_state \<Rightarrow> reporter \<Rightarrow> goval" where
  "reporter_Status Error ns RepoReporter = ns_repo ns"
| "reporter_Status Error ns TmReporter = ns_tm ns"
| "reporter_Status Error ns SvcsReporter = svcsReporter_Status (ns_config ns)"
| "reporter_Status Error ns MuxReporter = GStrMap (map (\<lambda>(k, v). (k, mux_status_text Error v)) (Status_mux (ns_mux ns)))"
| "reporter_Status Error ns GrpcReporter = GStr (grpcReporter_Status (ns_grpc ns))"
| "reporter_Status Error ns HttpReporter = GStr (httpReporter_Status (ns_port ns) (ns_http ns))"
| "reporter_Status Error ns P2PReporter = p2pReporter_Status (ns_ID ns) (ns_Addrs ns) (ns_Peers ns)"

section \<open>The document\<close>

lemma those_marshal:
  "list_all (\<lambda>kv. marshal (snd kv) \<noteq> None) kvs \<Longrightarrow>
    those (map (\<lambda>kv. map_option (Pair (fst kv)) (marshal (snd kv))) kvs) = Some (map (\<lambda>kv. (fst kv, the (marshal (snd kv)))) kvs)"
  by (induction kvs) auto

lemma map_of_sort_key: "distinct (map fst xs) \<Longrightarrow> map_of (sort_key fst xs) = map_of xs"
  by (subst map_of_inject_set) (auto simp: distinct_map inj_on_def)

text \<open>A map of encodable values is an object with the documents of the values.\<close>

lemma marshal_GMap:
  assumes "wf_gomap kvs" "\<forall>kv \<in> set kvs. \<exists>j. marshal (snd kv) = Some j \<and> int_json j"
  shows "\<exists>fs. marshal (GMap kvs) = Some (JObj fs) \<and> int_json (JObj fs) \<and> (\<forall>k. map_of fs k = Option.bind (map_of kvs k) marshal)"
proof -
  let ?fs = "map (\<lambda>kv. (fst kv, the (marshal (snd kv)))) kvs"
  have "marshal (GMap kvs) = Some (JObj (sort_key fst ?fs))"
  proof -
    have "list_all (\<lambda>kv. marshal (snd kv) \<noteq> None) kvs" using assms(2) by (auto simp: list_all_iff)
    from those_marshal [OF this] show ?thesis by simp
  qed
  moreover have "int_json (JObj (sort_key fst ?fs))" using assms(2) by (auto simp: list_all_iff)
  moreover have "map_of (sort_key fst ?fs) = map_of ?fs"
    using assms(1) by (intro map_of_sort_key) (simp add: wf_gomap_def comp_def)
  moreover have "map_of ?fs k = Option.bind (map_of kvs k) marshal" for k
    using assms(2) by (induction kvs) auto
  ultimately show ?thesis by auto
qed

lemma AddReporter_keys:
  "fst ` set (AddReporter m k r) = insert k (fst ` set m)" "wf_gomap m \<Longrightarrow> wf_gomap (AddReporter m k r)"
  "map_of (AddReporter m k r) k' = (if k' = k then Some r else map_of m k')"
  by (auto simp: AddReporter_def go_simps dom_update)

lemma reporters_wf: "wf_gomap (reporters_after order starts)"
proof -
  have c: "wf_gomap m \<Longrightarrow> wf_gomap (constructed_reporters f m)" for f m
    by (cases f) (simp_all add: AddReporter_keys NewP2PReporter_def node_reporters_hook_def)
  have s: "wf_gomap m \<Longrightarrow> wf_gomap (started_reporters x m)" for x m by (cases x) (simp_all add: AddReporter_keys)
  have "wf_gomap m \<Longrightarrow> wf_gomap (fold (\<lambda>f. constructed_reporters (fn_name f)) order m)" for m
    by (induction order arbitrary: m) (simp_all add: c)
  moreover have "wf_gomap m \<Longrightarrow> wf_gomap (fold started_reporters starts m)" for m
    by (induction starts arbitrary: m) (simp_all add: s)
  ultimately show ?thesis by (simp add: reporters_after_def New_status_def)
qed

section \<open>Which reporters a node has\<close>

fun reporter_key :: "reporter \<Rightarrow> string" where
  "reporter_key RepoReporter = ''Repository''" | "reporter_key TmReporter = ''TaskManager''"
| "reporter_key SvcsReporter = ''Services''" | "reporter_key MuxReporter = ''RPC Listeners''"
| "reporter_key GrpcReporter = ''GRPC Server''" | "reporter_key HttpReporter = ''HTTP Server''"
| "reporter_key P2PReporter = ''P2P Service''"

lemma reporter_key_inj: "reporter_key r = reporter_key r' \<longleftrightarrow> r = r'"
  by (cases r; cases r') simp_all

definition holds_reporters :: "reporter gomap \<Rightarrow> reporter set \<Rightarrow> bool" where
  "holds_reporters m R \<longleftrightarrow> (\<forall>k r. map_of m k = Some r \<longleftrightarrow> k = reporter_key r \<and> r \<in> R)"

lemma holds_AddReporter:
  "holds_reporters m R \<Longrightarrow> k = reporter_key r \<Longrightarrow> holds_reporters (AddReporter m k r) (insert r R)"
  by (auto simp: holds_reporters_def AddReporter_keys(3) reporter_key_inj)

definition made_by :: "ctor \<Rightarrow> reporter set" where
  "made_by f = (if f = FP2PReporter then {P2PReporter} else if f = FReporters then {SvcsReporter, TmReporter, RepoReporter}
     else if f = FMuxedListener then {MuxReporter} else {})"

definition made_at_start :: "node_call \<Rightarrow> reporter set" where
  "made_at_start x = (if x = GrpcServe then {GrpcReporter} else if x = HttpServe then {HttpReporter} else {})"

lemma holds_constructed: "holds_reporters m R \<Longrightarrow> holds_reporters (constructed_reporters f m) (made_by f \<union> R)"
proof (cases "made_by f = {}")
  case True
  then have "constructed_reporters f m = m" for m by (cases f) (simp_all add: made_by_def)
  then show "holds_reporters m R \<Longrightarrow> ?thesis" using True by simp
next
  case False
  then consider "f = FP2PReporter" | "f = FReporters" | "f = FMuxedListener" by (auto simp: made_by_def split: if_splits)
  then show "holds_reporters m R \<Longrightarrow> ?thesis"
    by cases (simp_all add: made_by_def NewP2PReporter_def node_reporters_hook_def holds_AddReporter)
qed

lemma holds_started: "holds_reporters m R \<Longrightarrow> holds_reporters (started_reporters x m) (made_at_start x \<union> R)"
  by (cases x) (simp_all add: made_at_start_def holds_AddReporter)

lemma fold_holds:
  assumes "\<And>x m R. holds_reporters m R \<Longrightarrow> holds_reporters (g x m) (h x \<union> R)"
  shows "holds_reporters m R \<Longrightarrow> holds_reporters (fold g xs m) (\<Union> (h ` set xs) \<union> R)"
proof (induction xs arbitrary: m R)
  case (Cons x xs)
  have "\<Union> (h ` set (x # xs)) \<union> R = \<Union> (h ` set xs) \<union> (h x \<union> R)" by auto
  with Cons.IH [OF assms [OF Cons.prems]] show ?case by simp
qed simp

lemma reporters_held:
  "holds_reporters (reporters_after order starts) (\<Union> (made_at_start ` set starts) \<union> \<Union> ((\<lambda>f. made_by (fn_name f)) ` set order))"
proof -
  have "holds_reporters New_status {}" by (simp add: holds_reporters_def New_status_def)
  from fold_holds [of "\<lambda>f. constructed_reporters (fn_name f)" "\<lambda>f. made_by (fn_name f)", OF holds_constructed this]
  have "holds_reporters (fold (\<lambda>f. constructed_reporters (fn_name f)) order New_status) (\<Union> ((\<lambda>f. made_by (fn_name f)) ` set order))"
    by simp
  from fold_holds [OF holds_started this] show ?thesis unfolding reporters_after_def .
qed

text \<open>The reporters a node is meant to have.\<close>

definition expected_reporters :: "JsonConfig \<Rightarrow> reporter set" where
  "expected_reporters c = {RepoReporter, TmReporter, SvcsReporter} \<union>
     (if flag c ''UseGRPC'' then {MuxReporter, GrpcReporter} else {}) \<union>
     (if flag c ''UseHTTP'' then {HttpReporter} else {}) \<union> (if flag c ''UseP2P'' then {P2PReporter} else {})"

lemma named_option:
  assumes "f \<in> set (fx_functions opt)"
  shows "fn_name f = FMuxedListener \<Longrightarrow> opt = GrpcMuxedListener" "fn_name f = FP2PReporter \<Longrightarrow> opt = OptP2P"
    "fn_name f = FGrpcServer \<Longrightarrow> opt = GrpcServer" "fn_name f = FHTTPServer \<Longrightarrow> opt = HttpServer"
proof -
  have "\<forall>f \<in> set (fx_functions opt). (fn_name f = FMuxedListener \<longrightarrow> opt = GrpcMuxedListener) \<and> (fn_name f = FP2PReporter \<longrightarrow> opt = OptP2P) \<and>
      (fn_name f = FGrpcServer \<longrightarrow> opt = GrpcServer) \<and> (fn_name f = FHTTPServer \<longrightarrow> opt = HttpServer)"
    by (cases opt) (simp_all add: module_defs)
  with assms show "fn_name f = FMuxedListener \<Longrightarrow> opt = GrpcMuxedListener" "fn_name f = FP2PReporter \<Longrightarrow> opt = OptP2P"
    "fn_name f = FGrpcServer \<Longrightarrow> opt = GrpcServer" "fn_name f = FHTTPServer \<Longrightarrow> opt = HttpServer" by blast+
qed

text \<open>The option a constructed function came with.\<close>

lemma order_option:
  assumes "construction (node_functions opts) order" "n \<in> fn_name ` set order"
    and "\<And>f opt'. f \<in> set (fx_functions opt') \<Longrightarrow> fn_name f = n \<Longrightarrow> opt' = opt"
  shows "opt \<in> set opts"
proof -
  from assms(2) obtain f where f: "f \<in> set order" "fn_name f = n" by blast
  with assms(1) obtain opt' where o: "opt' \<in> set opts" "f \<in> set (fx_functions opt')"
    by (auto simp: construction_def node_functions_def)
  from assms(3) [OF o(2) f(2)] o(1) show ?thesis by simp
qed

lemma invoked_name:
  assumes "construction (node_functions opts) order" "opt \<in> set opts" "f \<in> set (fx_functions opt)" "fn_invoke f"
  shows "fn_name f \<in> fn_name ` set order"
  by (rule imageI, rule construction_invoked [OF assms(1)]) (use assms in \<open>auto simp: node_functions_def\<close>)

lemma server_starts:
  assumes "(x, f) \<in> {(GrpcServe, FGrpcServer), (HttpServe, FHTTPServer)}"
  shows "x \<in> set (starts_of c order) \<longleftrightarrow> f \<in> fn_name ` set order"
proof -
  have "x \<in> set (start_calls c g) \<longleftrightarrow> g = f" for g using assms by (cases g) auto
  then show ?thesis by (auto simp: starts_of_def)
qed

lemma order_names:
  assumes "usable_config c" "node_options c = Ret opts" "construction (node_functions opts) order"
  shows "FReporters \<in> fn_name ` set order" "FMuxedListener \<in> fn_name ` set order \<longleftrightarrow> flag c ''UseGRPC''"
    "FP2PReporter \<in> fn_name ` set order \<longleftrightarrow> flag c ''UseP2P''"
    "GrpcServe \<in> set (starts_of c order) \<longleftrightarrow> flag c ''UseGRPC''" "HttpServe \<in> set (starts_of c order) \<longleftrightarrow> flag c ''UseHTTP''"
proof -
  note mem = order_mem [OF assms] and present = option_present [OF assms(1,2)]
    and inv = invoked_name [OF assms(3)] and opt = order_option [OF assms(3)]
  have "FMuxedListener \<in> fn_name ` set order \<Longrightarrow> GrpcMuxedListener \<in> set opts"
    "FGrpcServer \<in> fn_name ` set order \<Longrightarrow> GrpcServer \<in> set opts"
    "FHTTPServer \<in> fn_name ` set order \<Longrightarrow> HttpServer \<in> set opts"
    "FP2PReporter \<in> fn_name ` set order \<Longrightarrow> OptP2P \<in> set opts"
    by (erule opt, erule named_option, assumption)+
  then have flags: "FMuxedListener \<in> fn_name ` set order \<Longrightarrow> flag c ''UseGRPC''"
    "FGrpcServer \<in> fn_name ` set order \<Longrightarrow> flag c ''UseGRPC''"
    "FHTTPServer \<in> fn_name ` set order \<Longrightarrow> flag c ''UseHTTP''" "FP2PReporter \<in> fn_name ` set order \<Longrightarrow> flag c ''UseP2P''"
    by (simp_all add: present table_defs)
  show "FReporters \<in> fn_name ` set order"
    using inv [of OptReporters "hd (fx_functions OptReporters)"] by (simp add: present table_defs Invoke_def Provide_def)
  show "FMuxedListener \<in> fn_name ` set order \<longleftrightarrow> flag c ''UseGRPC''"
    using flags(1) mem(4) imageI [of mux_fn "set order" fn_name] by (auto simp: Provide_def)
  show "GrpcServe \<in> set (starts_of c order) \<longleftrightarrow> flag c ''UseGRPC''"
    unfolding server_starts [of GrpcServe FGrpcServer, simplified]
    using flags(2) mem(5) imageI [of server_fn "set order" fn_name] by (auto simp: Provide_def)
  show "HttpServe \<in> set (starts_of c order) \<longleftrightarrow> flag c ''UseHTTP''"
    unfolding server_starts [of HttpServe FHTTPServer, simplified]
    using flags(3) mem(6) imageI [of "hd (fx_functions HttpServer)" "set order" fn_name] by (auto simp: Provide_def Invoke_def)
  have "FP2PReporter \<in> fn_name ` set order" if "flag c ''UseP2P''"
    using that inv [of OptP2P "P2PModule ! 6"] by (simp add: present table_defs) (simp add: module_defs)
  with flags(4) show "FP2PReporter \<in> fn_name ` set order \<longleftrightarrow> flag c ''UseP2P''" by blast
qed

lemma node_has_reporters:
  assumes "usable_config c" "node_options c = Ret opts" "construction (node_functions opts) order"
  shows "\<Union> (made_at_start ` set (starts_of c order)) \<union> \<Union> ((\<lambda>f. made_by (fn_name f)) ` set order) = expected_reporters c"
proof -
  have c: "\<Union> ((\<lambda>f. made_by (fn_name f)) ` set order) = \<Union> (made_by ` (fn_name ` set order))" by auto
  have m: "\<Union> (made_by ` N) = (if FReporters \<in> N then {RepoReporter, TmReporter, SvcsReporter} else {}) \<union>
      (if FMuxedListener \<in> N then {MuxReporter} else {}) \<union> (if FP2PReporter \<in> N then {P2PReporter} else {})" for N
    by (auto simp: made_by_def split: if_splits)
  have s: "\<Union> (made_at_start ` X) = (if GrpcServe \<in> X then {GrpcReporter} else {}) \<union> (if HttpServe \<in> X then {HttpReporter} else {})" for X
    by (auto simp: made_at_start_def split: if_splits)
  show ?thesis unfolding c m s order_names(2-5) [OF assms] expected_reporters_def using order_names(1) [OF assms] by auto
qed

text \<open>
  C23: the status report is complete. In every order of construction, after a start in which no
  hook failed, the manager holds exactly the reporters of the parts the node was configured
  with; and when the repository's and the task manager's values can be encoded, \<^verbatim>\<open>/status\<close> is
  answered with the text of an object that has, under the name of each of these parts and nothing else, the
  value its reporter gives at that moment.
\<close>

theorem status_report_complete:
  assumes "usable_config c" "node_options c = Ret opts" "construction (node_functions opts) order"
    and "runs_hooks app_Start app_Stop" "app_Start (Inr (node_hooks L c order)) s = (s1, n, None)"
    and "nw_calls s1 = nw_calls s @ starts" "marshal (ns_repo ns) = Some jr" "int_json jr"
    and "marshal (ns_tm ns) = Some jt" "int_json jt"
  shows "\<exists>buf fs. status_handler (reporter_Status Error ns) (reporters_after order starts) = Served buf \<and>
    parse_json buf = Some (JObj fs) \<and>
    (\<forall>k j. map_of fs k = Some j \<longleftrightarrow>
      (\<exists>r \<in> expected_reporters c. k = reporter_key r \<and> marshal (reporter_Status Error ns r) = Some j))"
proof -
  let ?m = "reporters_after order starts" and ?st = "reporter_Status Error ns"
  from starts_trace [OF runs_hooksD(1) [OF assms(4,5)]] assms(6) have "starts = starts_of c order" by simp
  with reporters_held [of order starts] node_has_reporters [OF assms(1-3)]
  have held: "map_of ?m k = Some r \<longleftrightarrow> k = reporter_key r \<and> r \<in> expected_reporters c" for k r
    by (simp add: holds_reporters_def)
  have enc: "\<exists>j. marshal (?st r) = Some j \<and> int_json j" for r
    using assms(7-10) by (cases r) (auto simp: p2pReporter_Status_def svcsReporter_Status_def list_all_iff split: prod.split bool.split)
  have all: "Status_all ?st ?m = map (\<lambda>(k, r). (k, ?st r)) ?m" by (simp add: Status_all_def)
  have wf: "wf_gomap (Status_all ?st ?m)" using reporters_wf [of order starts] by (simp add: all wf_gomap_def case_prod_unfold comp_def)
  have mo: "map_of (Status_all ?st ?m) k = map_option ?st (map_of ?m k)" for k
    by (simp add: all map_of_map)
  have "\<forall>kv \<in> set (Status_all ?st ?m). \<exists>j. marshal (snd kv) = Some j \<and> int_json j" using enc by (auto simp: all)
  from marshal_GMap [OF wf this] obtain fs where fs: "marshal (GMap (Status_all ?st ?m)) = Some (JObj fs)" "int_json (JObj fs)"
    "\<forall>k. map_of fs k = Option.bind (map_of (Status_all ?st ?m) k) marshal" by blast
  have "map_of fs k = Some j \<longleftrightarrow> (\<exists>r \<in> expected_reporters c. k = reporter_key r \<and> marshal (?st r) = Some j)" for k j
    unfolding fs(3) [rule_format] mo by (auto simp: bind_eq_Some_conv held)
  moreover have "status_handler ?st ?m = Served (indent_json 0 (JObj fs))"
    using fs(1) by (simp add: status_handler_def MarshalIndent_def del: marshal.simps)
  ultimately show ?thesis using parse_indent_json [OF fs(2)] by blast
qed

definition sample_state :: "nat node_state" where
  "sample_state = \<lparr>ns_repo = GStr ''In-mem repository'', ns_tm = GNil, ns_config = peer_config, ns_mux = New_mux [],
     ns_grpc = \<lparr>sv_goroutine = Serving, sv_hook = HookReturned None, sv_ctxErr = None, sv_reporters = [''GRPC Server'']\<rparr>,
     ns_http = server_init, ns_port = 80, ns_ID = ''me'', ns_Addrs = [], ns_Peers = []\<rparr>"

theorem status_report_complete_witness:
  "\<exists>opts order starts buf fs. node_options peer_config = Ret opts \<and> construction (node_functions opts) order \<and>
    status_handler (reporter_Status (\<lambda>_. []) sample_state) (reporters_after order starts) = Served buf \<and>
    parse_json buf = Some (JObj fs) \<and>
    map_of fs ''GRPC Server'' = Some (JStr ''running'') \<and> map_of fs ''HTTP Server'' = None"
proof -
  let ?L = "\<lambda>(_ :: node_call) (w :: unit). (w, None :: goerror option)" and ?s = "\<lparr>nw_env = (), nw_calls = []\<rparr>"
  obtain opts order where o: "node_options peer_config = Ret opts" "construction (node_functions opts) order" by (rule peer_order)
  obtain s1 n where start: "sample_Start (Inr (node_hooks ?L peer_config order)) ?s = (s1, n, None)" by (rule quiet_start)
  have "nw_calls s1 = nw_calls ?s @ nw_calls s1" "marshal (ns_repo sample_state) = Some (JStr ''In-mem repository'')"
    "int_json (JStr ''In-mem repository'')" "marshal (ns_tm sample_state) = Some JNull" "int_json JNull"
    by (simp_all add: sample_state_def)
  from status_report_complete [OF peer_config_usable o sample_runs_hooks start this, of "\<lambda>_. []"] obtain buf fs where
    fs: "status_handler (reporter_Status (\<lambda>_. []) sample_state) (reporters_after order (nw_calls s1)) = Served buf"
    "parse_json buf = Some (JObj fs)"
    "\<forall>k j. map_of fs k = Some j \<longleftrightarrow> (\<exists>r \<in> expected_reporters peer_config. k = reporter_key r \<and>
      marshal (reporter_Status (\<lambda>_. []) sample_state r) = Some j)" by blast
  have "\<not> flag peer_config ''UseHTTP''" by (simp add: flag_def IsSet_def Set_def DefaultConfig_def peer_config_def)
  with peer_config_flags have R: "expected_reporters peer_config = {RepoReporter, TmReporter, SvcsReporter, MuxReporter, GrpcReporter, P2PReporter}"
    by (auto simp: expected_reporters_def)
  have "map_of fs ''GRPC Server'' = Some (JStr ''running'')"
    unfolding fs(3) [rule_format] R by (simp add: sample_state_def grpcReporter_Status_def stopped_closed_def)
  moreover have "map_of fs ''HTTP Server'' \<noteq> Some j" for j unfolding fs(3) [rule_format] R by simp
  then have "map_of fs ''HTTP Server'' = None" by (cases "map_of fs ''HTTP Server''") blast+
  ultimately show ?thesis using o fs(1,2) by blast
qed

end
