(* ===== verification/Go_Http_Mux.thy ===== *)
theory Go_Http_Mux
  imports Go_Json_Text
begin

text \<open>
  What the node uses of \<^verbatim>\<open>net/http\<close> and \<^verbatim>\<open>path\<close>: the path of a request target, \<^verbatim>\<open>path.Clean\<close> on rooted paths
  and the request multiplexer \<^verbatim>\<open>http.ServeMux\<close> of Go 1.17 for patterns without a host and for methods
  other than \<^verbatim>\<open>CONNECT\<close>, whose paths it does not clean. The
  locale \<open>path_router\<close> is the multiplexer as those that register handlers use it.
\<close>

section \<open>Request targets\<close>

text \<open>\<^verbatim>\<open>url.ParseRequestURI\<close> on a target in origin form cuts it at the first question mark and decodes
  the path; a target that does not decode is refused. \<^verbatim>\<open>URL.String()\<close> gives the target back, as the
  path's encoding is kept when it is not the default one.\<close>

fun unescape_path :: "string \<Rightarrow> string option" where
  "unescape_path [] = Some []"
| "unescape_path (c # cs) =
     (if c = CHR ''%'' then
        (case cs of
           a # b # rest \<Rightarrow>
             (case (hex_val a, hex_val b) of
                (Some x, Some y) \<Rightarrow> map_option (Cons (char_of (16 * x + y))) (unescape_path rest)
              | _ \<Rightarrow> None)
         | _ \<Rightarrow> None)
      else map_option (Cons c) (unescape_path cs))"

definition URL_Path :: "string \<Rightarrow> string option" where
  "URL_Path target = unescape_path (takeWhile (\<lambda>c. c \<noteq> CHR ''?'') target)"

lemma unescape_plain: "CHR ''%'' \<notin> set s \<Longrightarrow> unescape_path s = Some s"
  by (induction s) auto

lemma URL_Path_query:
  assumes "CHR ''?'' \<notin> set p"
  shows "URL_Path (p @ CHR ''?'' # q) = URL_Path p"
proof -
  have "takeWhile (\<lambda>c. c \<noteq> CHR ''?'') p = p" using assms by (auto simp: takeWhile_eq_all_conv)
  moreover have "takeWhile (\<lambda>c. c \<noteq> CHR ''?'') (p @ CHR ''?'' # q) = p" using assms by (subst takeWhile_append2) auto
  ultimately show ?thesis unfolding URL_Path_def by (simp only:)
qed

section \<open>Clean paths\<close>

fun clean_elems :: "string list \<Rightarrow> string list \<Rightarrow> string list" where
  "clean_elems st [] = rev st"
| "clean_elems st (e # es) =
     (if e = [] \<or> e = ''.'' then clean_elems st es
      else if e = ''..'' then clean_elems (tl st) es
      else clean_elems (e # st) es)"

definition join_path :: "string list \<Rightarrow> string" where
  "join_path es = concat (map (Cons CHR ''/'') es)"

definition path_Clean :: "string \<Rightarrow> string" where
  "path_Clean p = (let es = clean_elems [] (split_on CHR ''/'' p) in if es = [] then ''/'' else join_path es)"

text \<open>\<^verbatim>\<open>cleanPath\<close> of \<^verbatim>\<open>net/http\<close> keeps a slash at the end.\<close>

definition cleanPath :: "string \<Rightarrow> string" where
  "cleanPath p =
     (if p = [] then ''/''
      else
        (let p = (if hd p = CHR ''/'' then p else CHR ''/'' # p); np = path_Clean p in
         if last p = CHR ''/'' \<and> np \<noteq> ''/'' then np @ ''/'' else np))"

definition clean_elem :: "string \<Rightarrow> bool" where
  "clean_elem e \<longleftrightarrow> e \<notin> {[], ''.'', ''..''} \<and> CHR ''/'' \<notin> set e"

lemma split_on_no_slash: "\<forall>e \<in> set (split_on d s). d \<notin> set e"
  by (induction d s rule: split_on.induct) (auto split: list.splits)

lemma clean_elems_clean:
  "\<forall>e \<in> set es. CHR ''/'' \<notin> set e \<Longrightarrow> \<forall>e \<in> set st. clean_elem e \<Longrightarrow> \<forall>e \<in> set (clean_elems st es). clean_elem e"
proof (induction st es rule: clean_elems.induct)
  case (2 st e es)
  have tl: "\<forall>e \<in> set (tl st). clean_elem e" using "2.prems"(2) by (cases st) auto
  have rest: "\<forall>e \<in> set es. CHR ''/'' \<notin> set e" using "2.prems"(1) by simp
  consider "e = [] \<or> e = ''.''" | "e = ''..''" | "clean_elem e" "e \<noteq> []" "e \<noteq> ''.''" "e \<noteq> ''..''"
    using "2.prems"(1) by (auto simp: clean_elem_def)
  then show ?case
  proof cases
    case 1
    with "2.IH"(1) rest "2.prems"(2) show ?thesis by simp
  next
    case 2
    with "2.IH"(2) rest tl show ?thesis by simp
  next
    case 3
    with "2.IH"(3) rest "2.prems"(2) show ?thesis by simp
  qed
qed simp

lemma clean_elems_id: "\<forall>e \<in> set es. clean_elem e \<Longrightarrow> clean_elems st (es @ replicate n []) = rev st @ es"
proof (induction es arbitrary: st)
  case Nil
  then show ?case by (induction n) auto
qed (auto simp: clean_elem_def)

lemma join_path_Cons: "join_path (e # es) = CHR ''/'' # e @ join_path es"
  by (simp add: join_path_def)

lemma split_join_path:
  assumes "es \<noteq> []" "\<forall>e \<in> set es. clean_elem e"
  shows "split_on CHR ''/'' (join_path es) = [] # es" "split_on CHR ''/'' (join_path es @ ''/'') = [] # es @ [[]]"
proof -
  have "split_on CHR ''/'' (join_path (e # es)) = [] # e # es \<and> split_on CHR ''/'' (join_path (e # es) @ ''/'') = [] # e # es @ [[]]"
    if "\<forall>e \<in> set (e # es). CHR ''/'' \<notin> set e" for e es
    using that
  proof (induction es arbitrary: e)
    case Nil
    then show ?case using split_on_append_sep [of "CHR ''/''" e "[]"] by (simp add: join_path_Cons split_on_no_sep) (simp add: join_path_def split_on_no_sep)
  next
    case (Cons e' es)
    let ?rest = "e' @ join_path es"
    have j: "join_path (e' # es) = CHR ''/'' # ?rest" by (simp add: join_path_Cons)
    from Cons.IH [of e'] Cons.prems have "split_on CHR ''/'' ?rest = e' # es" "split_on CHR ''/'' (?rest @ ''/'') = e' # es @ [[]]"
      by (simp_all add: j)
    with split_on_append_sep [of "CHR ''/''" e ?rest] split_on_append_sep [of "CHR ''/''" e "?rest @ ''/''"] Cons.prems
    show ?case by (simp add: join_path_Cons [of e] j)
  qed
  with assms show "split_on CHR ''/'' (join_path es) = [] # es" "split_on CHR ''/'' (join_path es @ ''/'') = [] # es @ [[]]"
    by (cases es; simp add: clean_elem_def)+
qed

lemma path_Clean_elems: obtains es where "\<forall>e \<in> set es. clean_elem e" "path_Clean p = (if es = [] then ''/'' else join_path es)"
  using clean_elems_clean [of "split_on CHR ''/'' p" "[]"] split_on_no_slash by (simp add: path_Clean_def Let_def)

lemma join_path_not_slash:
  assumes "es \<noteq> []" "\<forall>e \<in> set es. clean_elem e"
  shows "join_path es \<noteq> ''/''" "hd (join_path es) = CHR ''/''" "join_path es \<noteq> []" "last (join_path es) \<noteq> CHR ''/''"
proof -
  from assms(1) obtain es' e where es: "es = es' @ [e]" by (metis rev_exhaust)
  with assms(2) have e: "e \<noteq> []" "CHR ''/'' \<notin> set e" by (simp_all add: clean_elem_def)
  have j: "join_path es = join_path es' @ CHR ''/'' # e" by (simp add: es join_path_def)
  have "last e \<noteq> CHR ''/''"
  proof
    assume eq: "last e = CHR ''/''"
    from last_in_set [OF e(1)] have "CHR ''/'' \<in> set e" unfolding eq .
    with e(2) show False ..
  qed
  then show "last (join_path es) \<noteq> CHR ''/''" using e(1) by (simp add: j)
  then show "join_path es \<noteq> ''/''" by auto
  show "hd (join_path es) = CHR ''/''" "join_path es \<noteq> []" using assms(1) by (cases es; simp add: join_path_Cons)+
qed

text \<open>Following the redirect to the clean path does not lead to another one.\<close>

lemma cleanPath_idem: "cleanPath (cleanPath p) = cleanPath p"
proof -
  have root: "cleanPath ''/'' = ''/''" by (simp add: cleanPath_def path_Clean_def)
  have join: "cleanPath (join_path es) = join_path es" "cleanPath (join_path es @ ''/'') = join_path es @ ''/''"
    if es: "es \<noteq> []" "\<forall>e \<in> set es. clean_elem e" for es
  proof -
    note j = join_path_not_slash [OF es]
    have "clean_elems [] ([] # es) = es" "clean_elems [] ([] # es @ [[]]) = es"
      using clean_elems_id [OF es(2), of "[]" 0] clean_elems_id [OF es(2), of "[]" 1] by simp_all
    then have "path_Clean (join_path es) = join_path es" "path_Clean (join_path es @ ''/'') = join_path es"
      unfolding path_Clean_def split_join_path [OF es] using es(1) by (simp_all only: Let_def if_False)
    with j show "cleanPath (join_path es) = join_path es" "cleanPath (join_path es @ ''/'') = join_path es @ ''/''"
      by (simp_all add: cleanPath_def Let_def)
  qed
  let ?p = "if hd p = CHR ''/'' then p else CHR ''/'' # p"
  obtain es where es: "\<forall>e \<in> set es. clean_elem e" "path_Clean ?p = (if es = [] then ''/'' else join_path es)"
    by (rule path_Clean_elems)
  then have "cleanPath p \<in> {''/'', join_path es, join_path es @ ''/''} \<and> (es = [] \<longrightarrow> cleanPath p = ''/'')"
    by (auto simp: cleanPath_def Let_def)
  with root join [OF _ es(1)] show ?thesis by (cases "es = []") auto
qed

section \<open>The multiplexer\<close>

text \<open>\<^verbatim>\<open>Handle\<close> panics on an empty pattern and on one that is registered already.\<close>

definition Handle_mux :: "'h gomap \<Rightarrow> string \<Rightarrow> 'h \<Rightarrow> 'h gomap outcome" where
  "Handle_mux m pattern h =
     (if pattern = [] then Panic ''http: invalid pattern''
      else if map_of m pattern \<noteq> None then Panic (''http: multiple registrations for '' @ pattern)
      else Ret (m @ [(pattern, h)]))"

text \<open>An exact match, or the longest pattern with a slash at the end that is a prefix of the path.\<close>

definition subtrees :: "'h gomap \<Rightarrow> 'h gomap" where
  "subtrees m = sort_key (\<lambda>e. - int (length (fst e))) (filter (\<lambda>e. last (fst e) = CHR ''/'') m)"

definition match_mux :: "'h gomap \<Rightarrow> string \<Rightarrow> 'h option" where
  "match_mux m p =
     (case map_of m p of
        Some h \<Rightarrow> Some h
      | None \<Rightarrow> map_option snd (find (\<lambda>e. HasPrefix p (fst e)) (subtrees m)))"

text \<open>What becomes of a request for a path: a handler, a redirect to another path (the query stays), or
  the answer 404.\<close>

datatype 'h mux_answer = Dispatch 'h | MovedPermanently string | NotFound

definition Handler_mux :: "'h gomap \<Rightarrow> string \<Rightarrow> 'h mux_answer" where
  "Handler_mux m p =
     (let cp = cleanPath p in
      if map_of m cp = None \<and> map_of m (cp @ ''/'') \<noteq> None \<and> last cp \<noteq> CHR ''/'' then MovedPermanently (cp @ ''/'')
      else if cp \<noteq> p then MovedPermanently cp
      else (case match_mux m p of Some h \<Rightarrow> Dispatch h | None \<Rightarrow> NotFound))"

section \<open>Registering handlers\<close>

fun register_all :: "('m \<Rightarrow> string \<Rightarrow> 'h \<Rightarrow> 'm outcome) \<Rightarrow> 'm \<Rightarrow> (string \<times> 'h) list \<Rightarrow> 'm outcome" where
  "register_all register m [] = Ret m"
| "register_all register m ((p, h) # phs) =
     (case register m p h of Panic msg \<Rightarrow> Panic msg | Ret m' \<Rightarrow> register_all register m' phs)"

lemma register_all_append:
  "register_all register m (xs @ ys) =
    (case register_all register m xs of Panic msg \<Rightarrow> Panic msg | Ret m' \<Rightarrow> register_all register m' ys)"
  by (induction register m xs rule: register_all.induct) (simp_all split: outcome.split)

locale path_router =
  fixes register :: "'m \<Rightarrow> string \<Rightarrow> 'h \<Rightarrow> 'm outcome" and lookup :: "'m \<Rightarrow> string \<Rightarrow> 'h option"
    and registered :: "'m \<Rightarrow> string set"
  assumes register_fresh: "p \<noteq> [] \<Longrightarrow> p \<notin> registered m \<Longrightarrow> \<exists>m'. register m p h = Ret m' \<and>
      registered m' = insert p (registered m) \<and> lookup m' p = Some h \<and> (\<forall>q \<in> registered m. lookup m' q = lookup m q)"
    and register_again: "p \<in> registered m \<Longrightarrow> \<exists>msg. register m p h = Panic msg"
begin

text \<open>Handlers for different patterns can all be registered, and each is found under its pattern.\<close>

lemma register_all_fresh:
  assumes "distinct (map fst phs)" "registered m \<inter> fst ` set phs = {}" "[] \<notin> fst ` set phs"
  shows "\<exists>m'. register_all register m phs = Ret m' \<and> registered m' = registered m \<union> fst ` set phs \<and>
    (\<forall>q \<in> registered m. lookup m' q = lookup m q) \<and> (\<forall>(p, h) \<in> set phs. lookup m' p = Some h)"
  using assms
proof (induction phs arbitrary: m)
  case (Cons ph phs)
  obtain p h where ph: "ph = (p, h)" by (cases ph)
  with Cons.prems register_fresh [of p m h] obtain m1 where m1: "register m p h = Ret m1"
    "registered m1 = insert p (registered m)" "lookup m1 p = Some h" "\<forall>q \<in> registered m. lookup m1 q = lookup m q" by auto
  with Cons.IH [of m1] Cons.prems ph obtain m' where "register_all register m1 phs = Ret m'"
    "registered m' = registered m1 \<union> fst ` set phs" "\<forall>q \<in> registered m1. lookup m' q = lookup m1 q"
    "\<forall>(p, h) \<in> set phs. lookup m' p = Some h" by auto
  with m1 ph show ?case by auto
qed simp

text \<open>Two handlers for one pattern cannot.\<close>

lemma register_all_clash:
  assumes "p \<in> registered m" "p \<in> fst ` set phs" "[] \<notin> fst ` set phs"
  shows "\<exists>msg. register_all register m phs = Panic msg"
  using assms
proof (induction phs arbitrary: m)
  case (Cons ph phs)
  obtain q h where ph: "ph = (q, h)" by (cases ph)
  show ?case
  proof (cases "q \<in> registered m")
    case True
    from register_again [OF this, of h] show ?thesis by (auto simp: ph)
  next
    case False
    with Cons.prems ph register_fresh [of q m h] obtain m1 where "register m q h = Ret m1" "registered m1 = insert q (registered m)"
      by auto
    with Cons.IH [of m1] Cons.prems False ph show ?thesis by auto
  qed
qed simp

end

interpretation servemux: path_router Handle_mux match_mux "\<lambda>m. fst ` set m"
proof unfold_locales
  fix p :: string and m :: "'h gomap" and h :: 'h
  assume "p \<noteq> []" "p \<notin> fst ` set m"
  moreover from this have "map_of m p = None" by (simp add: map_of_eq_None_iff)
  ultimately show "\<exists>m'. Handle_mux m p h = Ret m' \<and> fst ` set m' = insert p (fst ` set m) \<and> match_mux m' p = Some h \<and>
      (\<forall>q \<in> fst ` set m. match_mux m' q = match_mux m q)"
    by (auto simp: Handle_mux_def match_mux_def map_add_def split: option.splits dest: weak_map_of_SomeI)
next
  fix p :: string and m :: "'h gomap" and h :: 'h
  assume "p \<in> fst ` set m"
  then have "map_of m p \<noteq> None" by (simp add: map_of_eq_None_iff)
  then show "\<exists>msg. Handle_mux m p h = Panic msg" by (auto simp: Handle_mux_def)
qed

lemma register_fresh_list:
  "distinct (map fst (m @ phs)) \<Longrightarrow> [] \<notin> fst ` set phs \<Longrightarrow> register_all Handle_mux m phs = Ret (m @ phs)"
proof (induction phs arbitrary: m)
  case (Cons ph phs)
  obtain p h where ph: "ph = (p, h)" by (cases ph)
  from Cons.prems ph have "map_of m p = None" "p \<noteq> []" by (auto simp: map_of_eq_None_iff)
  then have "Handle_mux m p h = Ret (m @ [ph])" by (simp add: Handle_mux_def ph)
  with Cons.IH [of "m @ [ph]"] Cons.prems show ?case by (simp add: ph)
qed simp

end
