(* ===== verification/Handler_Chain.thy ===== *)
theory Handler_Chain
  imports Node_Servers
begin

text \<open>
  The checks in place: the token middleware in the HTTP server's chain of handlers
  (\<^verbatim>\<open>modules/node/http/http.go\<close>) and the interceptor in the gRPC server's chain
  (\<^verbatim>\<open>modules/node/grpc/grpc.go\<close>, \<^verbatim>\<open>OptsAggregator\<close>). The container collects both lists in no
  particular order. The locale \<open>guarded_chain\<close> states what a check at any place of such a chain
  achieves; it is interpreted on both.
\<close>

section \<open>A check in a chain\<close>

text \<open>What is asked of the members of a chain around a check: what they do with a request depends only
  on what the next handler does for requests that are the same to the check. They may answer on
  their own, read and change results, or not call on.\<close>

definition passes :: "('r \<Rightarrow> 'r \<Rightarrow> bool) \<Rightarrow> (('r \<Rightarrow> 'a) \<Rightarrow> 'r \<Rightarrow> 'a) \<Rightarrow> bool" where
  "passes same v \<longleftrightarrow> (\<forall>h h' r. (\<forall>r'. same r' r \<longrightarrow> h r' = h' r') \<longrightarrow> v h r = v h' r)"

locale guarded_chain =
  fixes same :: "'r \<Rightarrow> 'r \<Rightarrow> bool" and granted :: "'r \<Rightarrow> bool" and refuse :: "'r \<Rightarrow> 'a"
    and guard :: "('r \<Rightarrow> 'a) \<Rightarrow> 'r \<Rightarrow> 'a"
  assumes same_refl: "same r r"
    and same_trans: "same r r' \<Longrightarrow> same r' r'' \<Longrightarrow> same r r''"
    and granted_same: "same r r' \<Longrightarrow> granted r = granted r'"
    and guard_law: "guard h r = (if granted r then h r else refuse r)"
begin

lemma chain_passes:
  assumes "\<forall>v \<in> set vs. passes same v" "\<forall>r'. same r' r \<longrightarrow> h r' = h' r'"
  shows "foldr (\<lambda>v k. v k) vs h r = foldr (\<lambda>v k. v k) vs h' r"
  using assms
proof (induction vs arbitrary: r)
  case (Cons v vs)
  have "foldr (\<lambda>v k. v k) vs h r' = foldr (\<lambda>v k. v k) vs h' r'" if "same r' r" for r'
  proof (rule Cons.IH)
    show "\<forall>v \<in> set vs. passes same v" using Cons.prems(1) by simp
    show "\<forall>r''. same r'' r' \<longrightarrow> h r'' = h' r''" using Cons.prems(2) that same_trans by blast
  qed
  with Cons.prems(1) show ?case by (simp add: passes_def)
qed (simp add: same_refl)

text \<open>A granted request is handled as if the check were not there; otherwise the handlers behind the
  check do not matter.\<close>

lemma guarded:
  assumes "\<forall>v \<in> set outer. passes same v"
  shows "granted r \<Longrightarrow> foldr (\<lambda>v k. v k) outer (guard h) r = foldr (\<lambda>v k. v k) outer h r"
    and "\<not> granted r \<Longrightarrow> foldr (\<lambda>v k. v k) outer (guard h) r = foldr (\<lambda>v k. v k) outer refuse r"
proof -
  show "foldr (\<lambda>v k. v k) outer (guard h) r = foldr (\<lambda>v k. v k) outer h r" if "granted r"
    by (rule chain_passes [OF assms]) (use granted_same that in \<open>auto simp: guard_law\<close>)
  show "foldr (\<lambda>v k. v k) outer (guard h) r = foldr (\<lambda>v k. v k) outer refuse r" if "\<not> granted r"
    by (rule chain_passes [OF assms]) (use granted_same that in \<open>auto simp: guard_law\<close>)
qed

end

section \<open>The HTTP chain\<close>

definition same_auth :: "http_request \<Rightarrow> http_request \<Rightarrow> bool" where
  "same_auth r r' \<longleftrightarrow> req_URL r = req_URL r' \<and> http_token r = http_token r'"

definition http_granted :: "AuthInterceptor \<Rightarrow> http_request \<Rightarrow> bool" where
  "http_granted mw r = grants mw (req_URL r) (http_token r)"

text \<open>The answer to a request that is not granted: the state is left alone.\<close>

definition http_refuse :: "AuthInterceptor \<Rightarrow> ('st, 'w) handler" where
  "http_refuse mw r st =
     (st, case http_token r of
            None \<Rightarrow> HttpError (ErrorString ''token is absent'') StatusBadRequest
          | Some t \<Rightarrow> HttpError (case jm mw t of Inr _ \<Rightarrow> ErrorString ''invalid role for resource''
              | Inl err \<Rightarrow> Wrapped ''failed verifying token'' err) StatusUnauthorized)"

interpretation http: guarded_chain same_auth "http_granted mw" "http_refuse mw" "JWT_middleware mw" for mw
  by unfold_locales
    (auto simp: same_auth_def http_granted_def http_refuse_def JWT_middleware_def JWT_grants fun_eq_iff split: option.splits)

section \<open>The gRPC chain\<close>

text \<open>The options of the token interceptor, and the server's options from the collected interceptors.\<close>

definition JwtAuthOptions :: "(string \<Rightarrow> UserClaims result) \<Rightarrow> (string \<Rightarrow> Role list) \<Rightarrow>
    (metadata option \<Rightarrow> 'req \<Rightarrow> string \<Rightarrow> (metadata option \<Rightarrow> 'req \<Rightarrow> grpc_status + 'resp) \<Rightarrow> grpc_status + 'resp) \<times>
    ('srv \<Rightarrow> 'stream \<Rightarrow> ('stream \<Rightarrow> metadata option) \<Rightarrow> string \<Rightarrow> ('srv \<Rightarrow> 'stream \<Rightarrow> grpc_status option) \<Rightarrow> grpc_status option)" where
  "JwtAuthOptions j a = (let incp = NewAuthInterceptor j a in (Unary incp, Stream incp))"

definition OptsAggregator :: "('u list \<Rightarrow> 'opt) \<Rightarrow> ('s list \<Rightarrow> 'opt) \<Rightarrow> 'u list \<Rightarrow> 's list \<Rightarrow> 'opt list" where
  "OptsAggregator WithUnaryServerChain WithStreamServerChain unaryOpts streamOpts =
     [WithUnaryServerChain unaryOpts, WithStreamServerChain streamOpts]"

text \<open>For one method, an interceptor turns a handler of contexts and requests into another. The library
  documents that the first interceptor of a chain is the outermost.\<close>

type_synonym ('req, 'resp) unary_handler = "metadata option \<times> 'req \<Rightarrow> grpc_status + 'resp"

definition unary_guard :: "AuthInterceptor \<Rightarrow> string \<Rightarrow> ('req, 'resp) unary_handler \<Rightarrow> ('req, 'resp) unary_handler" where
  "unary_guard mw method handler = (\<lambda>(ctx, req). Unary mw ctx req method (\<lambda>ctx req. handler (ctx, req)))"

definition chains_in_order :: "((('r \<Rightarrow> 'a) \<Rightarrow> 'r \<Rightarrow> 'a) list \<Rightarrow> ('r \<Rightarrow> 'a) \<Rightarrow> 'r \<Rightarrow> 'a) \<Rightarrow> bool" where
  "chains_in_order ChainUnaryServer \<longleftrightarrow> (\<forall>ics h. ChainUnaryServer ics h = foldr (\<lambda>ic k. ic k) ics h)"

definition same_token :: "metadata option \<times> 'req \<Rightarrow> metadata option \<times> 'req \<Rightarrow> bool" where
  "same_token c c' \<longleftrightarrow> grpc_token (fst c) = grpc_token (fst c')"

definition grpc_granted :: "AuthInterceptor \<Rightarrow> string \<Rightarrow> metadata option \<times> 'req \<Rightarrow> bool" where
  "grpc_granted mw method c = grants mw method (grpc_token (fst c))"

definition grpc_refuse :: "AuthInterceptor \<Rightarrow> string \<Rightarrow> ('req, 'resp) unary_handler" where
  "grpc_refuse mw method c = Inl (the (authorize mw (fst c) method))"

interpretation grpc: guarded_chain same_token "grpc_granted mw rpc" "grpc_refuse mw rpc" "unary_guard mw rpc" for mw rpc
proof unfold_locales
  fix h :: "('req, 'resp) unary_handler" and c
  show "unary_guard mw rpc h c = (if grpc_granted mw rpc c then h c else grpc_refuse mw rpc c)"
    using authorize_grants [of mw "fst c" rpc]
    by (cases c) (auto simp: unary_guard_def grpc_granted_def grpc_refuse_def Unary_def split: option.splits)
qed (simp_all add: same_token_def grpc_granted_def)

section \<open>Both servers are guarded\<close>

text \<open>
  C7: the checks guard everything behind them, wherever the container puts them. In the HTTP
  server with any middlewares inside the token middleware and well-behaved ones outside, and in
  the gRPC server with any interceptors after the token interceptor and well-behaved ones
  before it: a request that is granted is handled as if the check were not there; one that is
  not gets what the outer members make of the refusal, whatever the mux, the method's handler and
  the inner members are, so that none of these runs.
\<close>

theorem servers_guarded:
  assumes "NewHTTPServer Handle ServeHTTP c mux gateway (inner @ JWT_middleware mw # outer) = Inr (mux', srv)"
    and "\<forall>v \<in> set outer. passes same_auth v"
    and "chains_in_order ChainUnaryServer" "\<forall>ic \<in> set before. passes same_token ic"
  shows "hs_Handler srv m r =
      (if http_granted mw r then fold (\<lambda>v k. v k) (inner @ outer) (ServeHTTP m) r
       else fold (\<lambda>v k. v k) outer (http_refuse mw) r) \<and>
    ChainUnaryServer (before @ unary_guard mw method # after) handler call =
      (if grpc_granted mw method call then ChainUnaryServer (before @ after) handler call
       else ChainUnaryServer before (grpc_refuse mw method) call)"
proof
  have srv: "hs_Handler srv m = foldr (\<lambda>v k. v k) (rev outer) (JWT_middleware mw (fold (\<lambda>v k. v k) inner (ServeHTTP m)))"
    using assms(1) by (auto simp: NewHTTPServer_def Let_def foldr_conv_fold split: prod.splits bool.splits)
  have "\<forall>v \<in> set (rev outer). passes same_auth v" using assms(2) by simp
  note h = http.guarded [OF this, where mw = mw]
  show "hs_Handler srv m r =
      (if http_granted mw r then fold (\<lambda>v k. v k) (inner @ outer) (ServeHTTP m) r
       else fold (\<lambda>v k. v k) outer (http_refuse mw) r)"
    unfolding srv using h(1) [of r "fold (\<lambda>v k. v k) inner (ServeHTTP m)"] h(2) [of r "fold (\<lambda>v k. v k) inner (ServeHTTP m)"]
    by (simp add: foldr_conv_fold)
  show "ChainUnaryServer (before @ unary_guard mw method # after) handler call =
      (if grpc_granted mw method call then ChainUnaryServer (before @ after) handler call
       else ChainUnaryServer before (grpc_refuse mw method) call)"
    using assms(3) by (simp add: chains_in_order_def grpc.guarded [OF assms(4)])
qed

text \<open>A middleware that counts requests and an interceptor that looks at the reply only.\<close>

definition counting :: "(nat, 'w) Middleware" where
  "counting h r st = h r (Suc st)"

definition recovery :: "('req, 'resp) unary_handler \<Rightarrow> ('req, 'resp) unary_handler" where
  "recovery h c = (case h c of Inl (HandlerError _) \<Rightarrow> Inl (HandlerError (ErrorString ''internal error'')) | r \<Rightarrow> r)"

lemma samples_pass: "passes same_auth counting" "passes same_token recovery"
  by (simp_all add: passes_def counting_def recovery_def same_auth_def same_token_def fun_eq_iff)

theorem servers_guarded_witness:
  "\<exists>mux' srv. NewHTTPServer (\<lambda>m _ _. m) (\<lambda>_ r st. (100 + st, Served ''secret'')) [(''HTTPPort'', GInt 80)] () (None :: unit option)
      ([] @ JWT_middleware \<lparr>jm = (\<lambda>_. Inl (ErrorString ''bad token'')), am = (\<lambda>_. [Admin])\<rparr> # [counting]) = Inr (mux', srv) \<and>
    hs_Handler srv () \<lparr>req_URL = ''/x'', req_Header = []\<rparr> 0 = (1, HttpError (ErrorString ''token is absent'') StatusBadRequest) \<and>
    foldr (\<lambda>ic k. ic k) ([recovery] @ unary_guard \<lparr>jm = (\<lambda>_. Inl (ErrorString ''bad token'')), am = (\<lambda>_. [Admin])\<rparr> ''/m'' # [])
      (\<lambda>_. Inr ''secret'') (None, ()) = Inl (Unauthenticated (ErrorString ''metadata is not provided''))"
proof -
  let ?c = "[(''HTTPPort'', GInt 80)]" and ?serve = "\<lambda>_ r st. (100 + st, Served ''secret'')"
  let ?mw = "\<lparr>jm = (\<lambda>_. Inl (ErrorString ''bad token'')), am = (\<lambda>_. [Admin])\<rparr> :: AuthInterceptor"
  let ?r = "\<lparr>req_URL = ''/x'', req_Header = []\<rparr>" and ?call = "(None, ()) :: metadata option \<times> unit"
  have wf: "wf_config ?c" by (simp add: wf_config_def wf_gomap_def safe_int_def)
  have port: "Get decode_int ?c ''HTTPPort'' 0 = (True, 80)" by (simp add: Get_doc_of [OF wf] doc_of_def decode_int_def)
  obtain mux' srv where srv: "NewHTTPServer (\<lambda>m _ _. m) ?serve ?c () (None :: unit option)
      ([] @ JWT_middleware ?mw # [counting]) = Inr (mux', srv)" by (simp add: NewHTTPServer_def port)
  have no: "\<not> http_granted ?mw ?r" "\<not> grpc_granted ?mw ''/m'' ?call"
    by (simp_all add: http_granted_def grpc_granted_def grants_def role_defs grpc_token_def http_token_def Header_Get_def)
  have chain: "chains_in_order (foldr (\<lambda>ic k. ic k))" by (simp add: chains_in_order_def)
  have eq: "hs_Handler srv () ?r = fold (\<lambda>v k. v k) [counting] (http_refuse ?mw) ?r \<and>
      foldr (\<lambda>ic k. ic k) ([recovery] @ unary_guard ?mw ''/m'' # []) (\<lambda>_. Inr ''secret'') ?call =
        foldr (\<lambda>ic k. ic k) [recovery] (grpc_refuse ?mw ''/m'') ?call"
    using servers_guarded [OF srv _ chain, of "[recovery]" "()" ?r "''/m''" "[]" "\<lambda>_. Inr ''secret''" ?call] no samples_pass by simp
  have http: "hs_Handler srv () ?r 0 = (1, HttpError (ErrorString ''token is absent'') StatusBadRequest)"
    unfolding eq [THEN conjunct1] by (simp add: counting_def http_refuse_def http_token_def Header_Get_def)
  have grpc: "foldr (\<lambda>ic k. ic k) ([recovery] @ unary_guard ?mw ''/m'' # []) (\<lambda>_. Inr ''secret'') ?call =
      Inl (Unauthenticated (ErrorString ''metadata is not provided''))"
    unfolding eq [THEN conjunct2] by (simp add: recovery_def grpc_refuse_def authorize_def role_defs Let_def)
  from srv http grpc show ?thesis by (intro exI conjI)
qed

end
