(* ===== verification/Http_Routes.thy ===== *)
theory Http_Routes
  imports Node_Graph Go_Http_Mux Handler_Chain
begin

text \<open>
  The HTTP routes of a node: what \<^verbatim>\<open>NewHTTPServer\<close> (\<^verbatim>\<open>modules/node/http/http.go\<close>), \<^verbatim>\<open>Register\<close> and
  \<^verbatim>\<open>RegisterDebug\<close> (\<^verbatim>\<open>modules/node/http/middleware.go\<close>) and \<^verbatim>\<open>RegisterHTTP\<close>
  (\<^verbatim>\<open>modules/diag/status/status.go\<close>) register with the server's mux, which of them answers a request, and
  what the token middleware in front of the mux looks at.
\<close>

section \<open>The handlers\<close>

datatype route =
    GatewayRoute | StatusRoute | MetricsRoute
  | PprofRedirect | PprofCmdline | PprofProfile | PprofSymbol | PprofTrace | PprofIndex | ExpvarRoute

definition RegisterHTTP :: "route gomap \<Rightarrow> route gomap outcome" where
  "RegisterHTTP mux = Handle_mux mux ''/status'' StatusRoute"

definition Register_metrics :: "route gomap \<Rightarrow> route gomap outcome" where
  "Register_metrics mux = Handle_mux mux ''/metrics'' MetricsRoute"

definition debug_routes :: "(string \<times> route) list" where
  "debug_routes =
     [(''/debug/pprof'', PprofRedirect), (''/debug/pprof/cmdline'', PprofCmdline), (''/debug/pprof/profile'', PprofProfile),
      (''/debug/pprof/symbol'', PprofSymbol), (''/debug/pprof/trace'', PprofTrace), (''/debug/pprof/'', PprofIndex),
      (''/debug/vars'', ExpvarRoute)]"

definition RegisterDebug :: "route gomap \<Rightarrow> route gomap outcome" where
  "RegisterDebug mux = register_all Handle_mux mux debug_routes"

text \<open>The handler of \<^verbatim>\<open>/debug/pprof\<close> adds a slash to the path and redirects permanently; the query stays.
  As the path changed, it is encoded anew.\<close>

definition pprof_redirect :: "string \<Rightarrow> string \<times> nat" where
  "pprof_redirect target = (''/debug/pprof/'' @ dropWhile (\<lambda>c. c \<noteq> CHR ''?'') target, 308)"

text \<open>The gateway, when there is one, is registered for everything else. The container gives the server
  the result of \<^verbatim>\<open>NewGRPCGateway\<close>, which is not nil.\<close>

definition gateway_route :: "route option \<Rightarrow> route gomap \<Rightarrow> route gomap outcome" where
  "gateway_route GRPC mux = (case GRPC of Some h \<Rightarrow> Handle_mux mux ''/'' h | None \<Rightarrow> Ret mux)"

fun registers :: "ctor \<Rightarrow> route gomap \<Rightarrow> route gomap outcome" where
  "registers FHTTPServer m = gateway_route (Some GatewayRoute) m"
| "registers FRegister m = Register_metrics m"
| "registers FRegisterDebug m = RegisterDebug m"
| "registers FRegisterHTTP m = RegisterHTTP m"
| "registers _ m = Ret m"

text \<open>The mux after the container has called the functions in an order.\<close>

fun build_mux :: "fx_fn list \<Rightarrow> route gomap \<Rightarrow> route gomap outcome" where
  "build_mux [] m = Ret m"
| "build_mux (f # fs) m = (case registers (fn_name f) m of Panic msg \<Rightarrow> Panic msg | Ret m' \<Rightarrow> build_mux fs m')"

section \<open>The table of routes\<close>

fun routes_of :: "ctor \<Rightarrow> (string \<times> route) list" where
  "routes_of FHTTPServer = [(''/'', GatewayRoute)]"
| "routes_of FRegister = [(''/metrics'', MetricsRoute)]"
| "routes_of FRegisterDebug = debug_routes"
| "routes_of FRegisterHTTP = [(''/status'', StatusRoute)]"
| "routes_of _ = []"

lemma registers_routes: "registers f m = register_all Handle_mux m (routes_of f)"
  by (cases f) (simp_all add: gateway_route_def Register_metrics_def RegisterDebug_def RegisterHTTP_def split: outcome.split)

lemma build_mux_routes: "build_mux order m = register_all Handle_mux m (concat (map (\<lambda>f. routes_of (fn_name f)) order))"
  by (induction order arbitrary: m) (simp_all add: registers_routes register_all_append split: outcome.split)

text \<open>Only invoked functions register handlers, and they are called in the order of the options.\<close>

lemma routes_invoked: "f \<in> set (fx_functions opt) \<Longrightarrow> \<not> fn_invoke f \<Longrightarrow> routes_of (fn_name f) = []"
proof -
  have "\<forall>f \<in> set (fx_functions opt). \<not> fn_invoke f \<longrightarrow> routes_of (fn_name f) = []" by (cases opt) (simp_all add: module_defs)
  then show "f \<in> set (fx_functions opt) \<Longrightarrow> \<not> fn_invoke f \<Longrightarrow> routes_of (fn_name f) = []" by blast
qed

lemma routes_filter:
  assumes "set fs \<subseteq> (\<Union>opt. set (fx_functions opt))"
  shows "concat (map (\<lambda>f. routes_of (fn_name f)) (filter fn_invoke fs)) = concat (map (\<lambda>f. routes_of (fn_name f)) fs)"
  using assms by (induction fs) (auto simp: routes_invoked)

definition option_routes :: "node_option \<Rightarrow> (string \<times> route) list" where
  "option_routes opt = concat (map (\<lambda>f. routes_of (fn_name f)) (fx_functions opt))"

lemma chosen_routes:
  "concat (map option_routes (chosen c t)) =
    concat (map (\<lambda>(opts, fs). if list_all (flag c) fs then concat (map option_routes opts) else []) t)"
  by (induction t) (auto simp: chosen_def)

definition node_routes :: "JsonConfig \<Rightarrow> (string \<times> route) list" where
  "node_routes c = (if flag c ''UseHTTP'' then
     [(''/'', GatewayRoute)] @ (if flag c ''UsePrometheus'' then [(''/metrics'', MetricsRoute)] else []) @
     (if flag c ''UseDebug'' then debug_routes else []) @ [(''/status'', StatusRoute)] else [])"

lemma construction_routes:
  assumes "usable_config c" "node_options c = Ret opts" "construction (node_functions opts) order"
  shows "concat (map (\<lambda>f. routes_of (fn_name f)) order) = node_routes c"
proof -
  have fns: "set (node_functions opts) \<subseteq> (\<Union>opt. set (fx_functions opt))" by (auto simp: node_functions_def)
  with assms(3) have order: "set order \<subseteq> (\<Union>opt. set (fx_functions opt))" by (auto simp: construction_def)
  have "flags_boolean c" using assms(1) by (simp add: usable_config_def flags_boolean_def)
  from node_options_chosen [OF this] assms(2)
  have opts: "opts = chosen c base_table @ MaybeOption (chosen c grpc_Module) (flag c ''UseGRPC'') @
    MaybeOption (chosen c http_Module) (flag c ''UseHTTP'') @ chosen c rest_table" by simp
  have "filter fn_invoke order = filter fn_invoke (node_functions opts)" using assms(3) by (simp add: construction_def)
  with routes_filter [OF order] routes_filter [OF fns]
  have "concat (map (\<lambda>f. routes_of (fn_name f)) order) = concat (map (\<lambda>f. routes_of (fn_name f)) (node_functions opts))"
    by simp
  also have "\<dots> = concat (map option_routes opts)"
    by (induction opts) (simp_all add: node_functions_def option_routes_def)
  also have "\<dots> = node_routes c"
    by (simp add: opts MaybeOption_def chosen_routes) (simp add: table_defs option_routes_def module_defs node_routes_def)
  finally show ?thesis .
qed

section \<open>Dispatch\<close>

text \<open>Which handler a clean path is meant for.\<close>

definition route_for :: "JsonConfig \<Rightarrow> string \<Rightarrow> route" where
  "route_for c p =
     (if p = ''/status'' then StatusRoute
      else if flag c ''UsePrometheus'' \<and> p = ''/metrics'' then MetricsRoute
      else if flag c ''UseDebug'' then
        (case map_of debug_routes p of
           Some r \<Rightarrow> r
         | None \<Rightarrow> if HasPrefix p ''/debug/pprof/'' then PprofIndex else GatewayRoute)
      else GatewayRoute)"

lemma cleanPath_rooted: "HasPrefix (cleanPath p) ''/''"
proof -
  have "\<exists>r. path_Clean q = CHR ''/'' # r" for q
  proof -
    obtain es where "\<forall>e \<in> set es. clean_elem e" "path_Clean q = (if es = [] then ''/'' else join_path es)" by (rule path_Clean_elems)
    then show ?thesis by (cases es) (simp_all add: join_path_Cons)
  qed
  then show ?thesis by (auto simp: cleanPath_def Let_def HasPrefix_iff) (metis append_Cons)+
qed

lemma node_routes_distinct: "distinct (map fst (node_routes c))" "[] \<notin> fst ` set (node_routes c)"
  by (auto simp: node_routes_def debug_routes_def)

lemma map_of_node_routes:
  assumes "flag c ''UseHTTP''"
  shows "map_of (node_routes c) p =
    (if p = ''/'' then Some GatewayRoute
     else if flag c ''UsePrometheus'' \<and> p = ''/metrics'' then Some MetricsRoute
     else if flag c ''UseDebug'' \<and> map_of debug_routes p \<noteq> None then map_of debug_routes p
     else if p = ''/status'' then Some StatusRoute else None)"
  using assms by (simp add: node_routes_def map_add_def debug_routes_def split: option.split)

lemma subtrees_node_routes:
  assumes "flag c ''UseHTTP''"
  shows "subtrees (node_routes c) = (if flag c ''UseDebug'' then [(''/debug/pprof/'', PprofIndex)] else []) @ [(''/'', GatewayRoute)]"
  using assms by (simp add: subtrees_def node_routes_def debug_routes_def)

text \<open>The only subtree besides the root is also registered without its slash: the mux redirects only to
  clean paths.\<close>

lemma no_slash_redirect:
  assumes "flag c ''UseHTTP''" "map_of (node_routes c) (p @ ''/'') \<noteq> None" "p \<noteq> []"
  shows "map_of (node_routes c) p \<noteq> None"
proof -
  from assms(2) obtain r where r: "(p @ ''/'', r) \<in> set (node_routes c)" by (auto dest: map_of_SomeD)
  then have "(p @ ''/'', r) \<in> set (subtrees (node_routes c))" by (simp add: subtrees_def)
  with assms(3) have d: "flag c ''UseDebug''" "p @ ''/'' = ''/debug/pprof/''"
    by (auto simp: subtrees_node_routes [OF assms(1)] split: if_splits)
  from d(2) have "butlast (p @ ''/'') = ''/debug/pprof''" by simp
  then have "p = ''/debug/pprof''" by simp
  with d(1) show ?thesis by (simp add: map_of_node_routes [OF assms(1)] debug_routes_def)
qed

lemma root_not_pprof [simp]: "\<not> HasPrefix ''/'' ''/debug/pprof/''"
  by (simp add: HasPrefix_def)

lemma match_node_routes:
  assumes "flag c ''UseHTTP''" "HasPrefix p ''/''"
  shows "match_mux (node_routes c) p = Some (route_for c p)"
  using assms(2) unfolding match_mux_def map_of_node_routes [OF assms(1)] subtrees_node_routes [OF assms(1)] route_for_def
  by (simp add: debug_routes_def)

lemma node_mux:
  assumes "flag c ''UseHTTP''"
  shows "Handler_mux (node_routes c) p = (if cleanPath p = p then Dispatch (route_for c p) else MovedPermanently (cleanPath p))"
    and "usable_config c \<Longrightarrow> node_options c = Ret opts \<Longrightarrow> construction (node_functions opts) order \<Longrightarrow>
      build_mux order [] = Ret (node_routes c)"
proof -
  let ?m = "node_routes c"
  have "cleanPath p \<noteq> []" using cleanPath_rooted [of p] by (auto simp: HasPrefix_def)
  then have nr: "map_of ?m (cleanPath p) \<noteq> None \<or> map_of ?m (cleanPath p @ ''/'') = None"
    using no_slash_redirect [OF assms, of "cleanPath p"] by metis
  have "cleanPath p = p \<Longrightarrow> match_mux ?m p = Some (route_for c p)"
    using match_node_routes [OF assms, of p] cleanPath_rooted [of p] by simp
  moreover have "Handler_mux ?m p = (if cleanPath p \<noteq> p then MovedPermanently (cleanPath p)
      else (case match_mux ?m p of Some h \<Rightarrow> Dispatch h | None \<Rightarrow> NotFound))"
    unfolding Handler_mux_def Let_def by (rule if_not_P) (use nr in metis)
  ultimately show "Handler_mux ?m p = (if cleanPath p = p then Dispatch (route_for c p) else MovedPermanently (cleanPath p))" by simp
  show "build_mux order [] = Ret ?m"
    if "usable_config c" "node_options c = Ret opts" "construction (node_functions opts) order"
    unfolding build_mux_routes construction_routes [OF that]
    using register_fresh_list [of "[]" ?m] node_routes_distinct by simp
qed

text \<open>
  C16: the routes of a node. Whatever is enabled besides the HTTP server and in whatever order the
  container constructs the node, registering the handlers does not panic, and a request is
  answered by the handler its path is meant for: the status report, the metrics and the debug
  handlers under their paths when they are enabled, the gRPC gateway for everything else. A path
  that is not clean is redirected to its clean form, which is served without another redirect;
  the redirect of \<^verbatim>\<open>/debug/pprof\<close> leads to the index with the query kept.
\<close>

theorem node_routes_served:
  assumes "usable_config c" "node_options c = Ret opts" "construction (node_functions opts) order" "flag c ''UseHTTP''"
  shows "\<exists>m. build_mux order [] = Ret m \<and>
    (\<forall>p. Handler_mux m p = (if cleanPath p = p then Dispatch (route_for c p) else MovedPermanently (cleanPath p))) \<and>
    (\<forall>p. Handler_mux m (cleanPath p) = Dispatch (route_for c (cleanPath p))) \<and>
    (flag c ''UseDebug'' \<longrightarrow> Handler_mux m ''/debug/pprof'' = Dispatch PprofRedirect \<and>
      (\<forall>q. URL_Path (fst (pprof_redirect (''/debug/pprof?'' @ q))) = Some ''/debug/pprof/'') \<and>
      Handler_mux m ''/debug/pprof/'' = Dispatch PprofIndex)"
proof -
  let ?m = "node_routes c"
  have "build_mux order [] = Ret ?m" by (rule node_mux(2) [OF assms(4,1-3)])
  moreover have h: "Handler_mux ?m p = (if cleanPath p = p then Dispatch (route_for c p) else MovedPermanently (cleanPath p))" for p
    by (rule node_mux(1) [OF assms(4)])
  moreover have "Handler_mux ?m (cleanPath p) = Dispatch (route_for c (cleanPath p))" for p
    unfolding h cleanPath_idem by simp
  moreover have "cleanPath ''/debug/pprof'' = ''/debug/pprof''" "cleanPath ''/debug/pprof/'' = ''/debug/pprof/''"
    by (simp_all add: cleanPath_def path_Clean_def join_path_def)
  then have "Handler_mux ?m ''/debug/pprof'' = Dispatch PprofRedirect" "Handler_mux ?m ''/debug/pprof/'' = Dispatch PprofIndex"
    if "flag c ''UseDebug''"
    using that by (simp_all add: h route_for_def debug_routes_def)
  moreover have "URL_Path (fst (pprof_redirect (''/debug/pprof?'' @ q))) = Some ''/debug/pprof/''" for q
    using URL_Path_query [of "''/debug/pprof/''" q] by (simp add: pprof_redirect_def URL_Path_def)
  ultimately show ?thesis by blast
qed

definition web_config :: JsonConfig where
  "web_config = Set (Set DefaultConfig ''UseHTTP'' (GBool True)) ''UseDebug'' (GBool True)"

lemma web_config_usable: "usable_config web_config"
  unfolding web_config_def by (intro usable_Set usable_default) simp_all

lemma web_config_flags: "flag web_config ''UseHTTP''" "flag web_config ''UseDebug''" "\<not> flag web_config ''UsePrometheus''"
  by (simp_all add: flag_def IsSet_def Set_def DefaultConfig_def web_config_def)

lemma web_order: obtains opts order where "node_options web_config = Ret opts" "construction (node_functions opts) order"
  using node_option_mem [OF web_config_usable] construction_exists node_functions_distinct(1) [OF web_config_usable] by blast

theorem node_routes_served_witness:
  "\<exists>opts order m. node_options web_config = Ret opts \<and> construction (node_functions opts) order \<and> build_mux order [] = Ret m \<and>
    Handler_mux m ''/status'' = Dispatch StatusRoute \<and> Handler_mux m ''/metrics'' = Dispatch GatewayRoute \<and>
    Handler_mux m ''/a/..//status'' = MovedPermanently ''/status'' \<and> Handler_mux m ''/debug/pprof/heap'' = Dispatch PprofIndex"
proof -
  obtain opts order where o: "node_options web_config = Ret opts" "construction (node_functions opts) order" by (rule web_order)
  obtain m where m: "build_mux order [] = Ret m"
    "Handler_mux m p = (if cleanPath p = p then Dispatch (route_for web_config p) else MovedPermanently (cleanPath p))" for p
    using node_routes_served [OF web_config_usable o web_config_flags(1)] by blast
  have "cleanPath ''/status'' = ''/status''" "cleanPath ''/metrics'' = ''/metrics''" "cleanPath ''/a/..//status'' = ''/status''"
    "cleanPath ''/debug/pprof/heap'' = ''/debug/pprof/heap''"
    by (simp_all add: cleanPath_def path_Clean_def join_path_def)
  with m(2) have "Handler_mux m ''/status'' = Dispatch StatusRoute" "Handler_mux m ''/metrics'' = Dispatch GatewayRoute"
    "Handler_mux m ''/a/..//status'' = MovedPermanently ''/status''" "Handler_mux m ''/debug/pprof/heap'' = Dispatch PprofIndex"
    using web_config_flags by (simp_all add: route_for_def debug_routes_def HasPrefix_def)
  with o m(1) show ?thesis by blast
qed

section \<open>What the token middleware guards\<close>

text \<open>The handler of a mux: the request's path, out of its target, chooses the handler. With the token
  middleware in front, the check is made for the whole target.\<close>

definition ServeHTTP_mux :: "route gomap \<Rightarrow> http_request \<Rightarrow> route mux_answer option" where
  "ServeHTTP_mux m r = map_option (Handler_mux m) (URL_Path (req_URL r))"

text \<open>
  C24: the access rules of HTTP resources hold for one spelling of them only. A resource with a
  rule is refused without a token; but the middleware asks for the rule of the request target as
  it was sent, the mux serves the path it denotes, and a target without a rule is open to
  everyone. So a request with another target for the same path is let through without
  a token and reaches the handler of the guarded resource, unless a rule is configured for that
  spelling too. Any query makes such a target.
\<close>

theorem alias_opens_resource:
  assumes "mw = NewAuthInterceptor verify (Allowed S st)" "policy_of S st rsc = Some lvl" "noRole < lvl"
  shows "JWT mw (ServeHTTP_mux m) \<lparr>req_URL = rsc, req_Header = []\<rparr> = HttpError (ErrorString ''token is absent'') StatusBadRequest \<and>
    (\<forall>target. policy_of S st target = None \<and> URL_Path target = URL_Path rsc \<longrightarrow>
      JWT mw (ServeHTTP_mux m) \<lparr>req_URL = target, req_Header = []\<rparr> = Served (map_option (Handler_mux m) (URL_Path rsc))) \<and>
    (\<forall>q. CHR ''?'' \<notin> set rsc \<longrightarrow> URL_Path (rsc @ ''?'' @ q) = URL_Path rsc)"
proof (intro conjI allI impI)
  have "RoleNone \<notin> set (Allowed S st rsc)"
    using assms(2,3) Allowed_iff_policy [of RoleNone S st rsc] by (simp add: valid_role_def aclMap_def policy_allows_def)
  then show "JWT mw (ServeHTTP_mux m) \<lparr>req_URL = rsc, req_Header = []\<rparr> = HttpError (ErrorString ''token is absent'') StatusBadRequest"
    by (simp add: JWT_grants grants_def assms(1) NewAuthInterceptor_def http_token_def Header_Get_def)
  show "JWT mw (ServeHTTP_mux m) \<lparr>req_URL = target, req_Header = []\<rparr> = Served (map_option (Handler_mux m) (URL_Path rsc))"
    if "policy_of S st target = None \<and> URL_Path target = URL_Path rsc" for target
    using that by (simp add: JWT_grants grants_def assms(1) NewAuthInterceptor_def Allowed_policy ServeHTTP_mux_def)
qed (use URL_Path_query [of rsc] in simp)

theorem alias_opens_resource_witness:
  "\<exists>st. Configure bytes_store [] ''/status'' Admin = (st, None) \<and>
    (\<forall>target \<in> {''/status?x=1'', ''/sta%74us''}.
      JWT (NewAuthInterceptor (\<lambda>_. Inl (ErrorString ''invalid token'')) (Allowed bytes_store st)) (ServeHTTP_mux (node_routes web_config))
        \<lparr>req_URL = target, req_Header = []\<rparr> = Served (Some (Dispatch StatusRoute)))"
proof -
  obtain st where st: "Configure bytes_store [] ''/status'' Admin = (st, None)"
    by (simp add: Configure_def bytes_store_def aclMap_def role_defs)
  from Configure_policy [OF bytes_store_ok st] obtain l where l: "aclMap Admin = Some l"
    "policy_of bytes_store st = (policy_of bytes_store [])(''/status'' \<mapsto> l)" by blast
  then have pol: "policy_of bytes_store st ''/status'' = Some l" "noRole < l"
    "policy_of bytes_store st ''/status?x=1'' = None" "policy_of bytes_store st ''/sta%74us'' = None"
    by (simp_all add: policy_of_def bytes_store_def aclMap_def role_defs level_defs)
  have "cleanPath ''/status'' = ''/status''" by (simp add: cleanPath_def path_Clean_def join_path_def)
  then have h: "Handler_mux (node_routes web_config) ''/status'' = Dispatch StatusRoute"
    by (simp add: node_mux(1) [OF web_config_flags(1)] route_for_def)
  have u: "URL_Path ''/status'' = Some ''/status''" "URL_Path ''/status?x=1'' = Some ''/status''" "URL_Path ''/sta%74us'' = Some ''/status''"
    by (simp_all add: URL_Path_def hex_val_def Let_def char_of_def bit_0)
  note alias_opens_resource [OF refl pol(1,2), of "\<lambda>_. Inl (ErrorString ''invalid token'')" "node_routes web_config",
      THEN conjunct2, THEN conjunct1, rule_format]
  from this [of "''/status?x=1''"] this [of "''/sta%74us''"] pol u h st show ?thesis by auto
qed

end
