(* ===== verification/Grpc_Interceptors.thy ===== *)
theory Grpc_Interceptors
  imports Handler_Chain
begin

text \<open>
  The gRPC interceptors besides the token check (\<^verbatim>\<open>modules/node/grpc/middleware.go\<close>): metrics, tracing,
  validation and recovery. The packages they come from are parameters; \<open>recovers\<close> states what
  \<^verbatim>\<open>grpc_recovery\<close> documents. Handlers here may panic, so that their result is an outcome.
\<close>

section \<open>The options\<close>

text \<open>The metrics object is changed before its interceptors are taken.\<close>

definition MetricsOpts :: "('m \<Rightarrow> 'm) \<Rightarrow> ('m \<Rightarrow> 'u) \<Rightarrow> ('m \<Rightarrow> 's) \<Rightarrow> JsonConfig \<Rightarrow> 'm \<Rightarrow> ('m \<times> 'u \<times> 's) outcome" where
  "MetricsOpts EnableHandlingTimeHistogram UnaryServerInterceptor StreamServerInterceptor c grpcMetrics =
     (case IsSet c ''UsePrometheusLatency'' of
        Panic msg \<Rightarrow> Panic msg
      | Ret b \<Rightarrow>
          (let grpcMetrics = (if b then EnableHandlingTimeHistogram grpcMetrics else grpcMetrics) in
           Ret (grpcMetrics, UnaryServerInterceptor grpcMetrics, StreamServerInterceptor grpcMetrics)))"

text \<open>\<^verbatim>\<open>MustRegister\<close> panics when the collector cannot be registered.\<close>

definition MetricsRegister :: "('r \<Rightarrow> 'm \<Rightarrow> 'r outcome) \<Rightarrow> ('m \<Rightarrow> 'srv \<Rightarrow> 'm) \<Rightarrow> 'r \<Rightarrow> 'srv \<Rightarrow> 'm \<Rightarrow> ('r \<times> 'm) outcome" where
  "MetricsRegister MustRegister InitializeMetrics reg s metrics =
     (case MustRegister reg metrics of
        Panic msg \<Rightarrow> Panic msg
      | Ret reg' \<Rightarrow> Ret (reg', InitializeMetrics metrics s))"

definition recovery_handler :: "string \<Rightarrow> grpc_status" where
  "recovery_handler p = Unknown (ErrorString ''internal error'')"

definition Recovery :: "((string \<Rightarrow> grpc_status) \<Rightarrow> 'u) \<Rightarrow> ((string \<Rightarrow> grpc_status) \<Rightarrow> 's) \<Rightarrow> 'u \<times> 's" where
  "Recovery UnaryServerInterceptor StreamServerInterceptor =
     (UnaryServerInterceptor recovery_handler, StreamServerInterceptor recovery_handler)"

section \<open>Panics in a chain of interceptors\<close>

type_synonym ('c, 'a) panicking = "'c \<Rightarrow> 'a outcome"

text \<open>The recovery interceptor runs the rest of the chain and turns a panic into the error its function
  makes of it; \<open>err\<close> is how the kind of call returns an error.\<close>

definition recovers :: "((string \<Rightarrow> grpc_status) \<Rightarrow> ('c, 'a) panicking \<Rightarrow> ('c, 'a) panicking) \<Rightarrow> (grpc_status \<Rightarrow> 'a) \<Rightarrow> bool" where
  "recovers R err \<longleftrightarrow> (\<forall>f h c. R f h c = (case h c of Panic p \<Rightarrow> Ret (err (f p)) | Ret x \<Rightarrow> Ret x))"

text \<open>An interceptor that does not panic on its own.\<close>

definition returns :: "('c, 'a) panicking \<Rightarrow> bool" where
  "returns h \<longleftrightarrow> (\<forall>c. \<exists>x. h c = Ret x)"

definition calm :: "(('c, 'a) panicking \<Rightarrow> ('c, 'a) panicking) \<Rightarrow> bool" where
  "calm ic \<longleftrightarrow> (\<forall>h. returns h \<longrightarrow> returns (ic h))"

text \<open>The token check in front of a handler that may panic: \<^verbatim>\<open>Unary\<close> and \<^verbatim>\<open>Stream\<close> differ only in how an error
  is returned and where the context is found.\<close>

definition token_check :: "AuthInterceptor \<Rightarrow> string \<Rightarrow> ('c \<Rightarrow> metadata option) \<Rightarrow> (grpc_status \<Rightarrow> 'a) \<Rightarrow>
    ('c, 'a) panicking \<Rightarrow> ('c, 'a) panicking" where
  "token_check mw method Context err h c =
     (case authorize mw (Context c) method of Some e \<Rightarrow> Ret (err e) | None \<Rightarrow> h c)"

lemma token_check_calm: "calm (token_check mw method Context err)"
  by (simp add: calm_def returns_def token_check_def split: option.splits)

lemma calm_chain: "\<forall>ic \<in> set ics. calm ic \<Longrightarrow> returns h \<Longrightarrow> returns (foldr (\<lambda>ic k. ic k) ics h)"
  by (induction ics) (simp_all add: calm_def)

lemma recovery_returns: "recovers R err \<Longrightarrow> returns (R f h)"
  by (simp add: recovers_def returns_def split: outcome.split)

text \<open>
  A panic in a handler does not take the server down. For unary calls and for streams alike,
  with the recovery interceptor anywhere in the chain and interceptors before it that do not
  panic themselves, such as the token check, every call returns, whatever the handler and the
  interceptors after it do; a panic behind it becomes the status \<^verbatim>\<open>Unknown\<close> with the message
  \<^verbatim>\<open>internal error\<close>, and a call without a panic gets the result it would have without it. For every
  configuration with boolean flags the metrics interceptors are made, with
  the latency histogram exactly when it was asked for.
\<close>

lemma panics_are_recovered:
  assumes "recovers R err" "recovers R' err'" "Recovery R R' = (u, s)"
    and "chains_in_order Chain" "chains_in_order Chain'" "\<forall>ic \<in> set before. calm ic" "\<forall>ic \<in> set before'. calm ic"
    and "usable_config cfg"
  shows "(\<exists>x. Chain (before @ u # after) h c = Ret x) \<and> (\<exists>x. Chain' (before' @ s # after') h' c' = Ret x) \<and>
    (case Chain after h c of
       Panic p \<Rightarrow> Chain (u # after) h c = Ret (err (Unknown (ErrorString ''internal error'')))
     | Ret x \<Rightarrow> Chain (u # after) h c = Ret x) \<and>
    (case Chain' after' h' c' of
       Panic p \<Rightarrow> Chain' (s # after') h' c' = Ret (err' (Unknown (ErrorString ''internal error'')))
     | Ret x \<Rightarrow> Chain' (s # after') h' c' = Ret x) \<and>
    (\<forall>enable unary stream m. MetricsOpts enable unary stream cfg m =
       (let m' = (if flag cfg ''UsePrometheusLatency'' then enable m else m) in Ret (m', unary m', stream m')))"
proof (intro conjI)
  have us: "u = R recovery_handler" "s = R' recovery_handler" using assms(3) by (simp_all add: Recovery_def)
  have chain: "Chain ics k = foldr (\<lambda>ic k. ic k) ics k" "Chain' ics' k' = foldr (\<lambda>ic k. ic k) ics' k'" for ics ics' k k'
    using assms(4,5) by (simp_all add: chains_in_order_def)
  show "\<exists>x. Chain (before @ u # after) h c = Ret x"
    using calm_chain [OF assms(6) recovery_returns [OF assms(1)]] by (simp add: chain us returns_def)
  show "\<exists>x. Chain' (before' @ s # after') h' c' = Ret x"
    using calm_chain [OF assms(7) recovery_returns [OF assms(2)]] by (simp add: chain us returns_def)
  show "case Chain after h c of
       Panic p \<Rightarrow> Chain (u # after) h c = Ret (err (Unknown (ErrorString ''internal error'')))
     | Ret x \<Rightarrow> Chain (u # after) h c = Ret x"
    using assms(1) by (simp add: chain us recovers_def recovery_handler_def split: outcome.split)
  show "case Chain' after' h' c' of
       Panic p \<Rightarrow> Chain' (s # after') h' c' = Ret (err' (Unknown (ErrorString ''internal error'')))
     | Ret x \<Rightarrow> Chain' (s # after') h' c' = Ret x"
    using assms(2) by (simp add: chain us recovers_def recovery_handler_def split: outcome.split)
  have "flag_ok cfg ''UsePrometheusLatency''" using assms(8) by (simp add: usable_config_def flag_keys_def)
  then show "\<forall>enable unary stream m. MetricsOpts enable unary stream cfg m =
       (let m' = (if flag cfg ''UsePrometheusLatency'' then enable m else m) in Ret (m', unary m', stream m'))"
    by (auto simp: MetricsOpts_def flag_def flag_ok_def Let_def split: outcome.splits)
qed

definition sample_recovery :: "(grpc_status \<Rightarrow> 'a) \<Rightarrow> (string \<Rightarrow> grpc_status) \<Rightarrow> ('c, 'a) panicking \<Rightarrow> ('c, 'a) panicking" where
  "sample_recovery err f h c = (case h c of Panic p \<Rightarrow> Ret (err (f p)) | Ret x \<Rightarrow> Ret x)"

lemma sample_recovers:
  "recovers (sample_recovery err) err"
  "Recovery (sample_recovery err) (sample_recovery err') = (sample_recovery err recovery_handler, sample_recovery err' recovery_handler)"
  by (simp_all add: recovers_def sample_recovery_def Recovery_def)

lemma foldr_chains: "chains_in_order (foldr (\<lambda>ic k. ic k))"
  by (simp add: chains_in_order_def)

lemma panics_are_recovered_sample:
  "foldr (\<lambda>ic k. ic k) [sample_recovery Inl recovery_handler] (\<lambda>_. Panic ''nil map'') (None :: metadata option) =
    Ret (Inl (Unknown (ErrorString ''internal error'')) :: grpc_status + string) \<and>
   (\<exists>x. foldr (\<lambda>ic k. ic k) ([token_check \<lparr>jm = (\<lambda>_. Inl (ErrorString ''bad'')), am = (\<lambda>_. [RoleNone])\<rparr> ''/m'' (\<lambda>c. c) Some] @
      [sample_recovery Some recovery_handler]) (\<lambda>_. Panic ''nil map'') None = Ret x)"
proof -
  let ?mw = "\<lparr>jm = (\<lambda>_. Inl (ErrorString ''bad'')), am = (\<lambda>_. [RoleNone])\<rparr> :: AuthInterceptor"
  let ?check = "token_check ?mw ''/m'' (\<lambda>c. c) Some :: (metadata option, grpc_status option) panicking \<Rightarrow> _"
  have "\<forall>ic \<in> set [?check]. calm ic" "\<forall>ic \<in> set []. calm ic" by (simp_all add: token_check_calm)
  from panics_are_recovered [OF sample_recovers(1) sample_recovers(1) sample_recovers(2) foldr_chains foldr_chains this(2,1) usable_default,
      where err = "Inl :: grpc_status \<Rightarrow> grpc_status + string" and err' = Some and after = "[]" and after' = "[]" and c = "None :: metadata option" and c' = None
        and h = "\<lambda>_. Panic ''nil map''" and h' = "\<lambda>_. Panic ''nil map''"]
  show ?thesis by (elim conjE) (intro conjI, simp_all)
qed

end
