(* ===== verification/Request_Pipeline.thy ===== *)
theory Request_Pipeline
  imports Http_Routes Grpc_Interceptors Node_Lifecycle "HOL-Library.Multiset"
begin

text \<open>
  The way of a request through an assembled node. The container collects the HTTP middlewares
  and the gRPC interceptors of the enabled options as value groups, which \<^verbatim>\<open>fx\<close> documents to be
  unordered; \<^verbatim>\<open>NewHTTPServer\<close> and the chain of interceptors then nest them. Here the members
  (\<^verbatim>\<open>modules/node/http/middleware.go\<close>, \<^verbatim>\<open>modules/node/grpc/middleware.go\<close>) are put together with the
  groups of \<open>Node_Graph\<close>, the routes of \<open>Http_Routes\<close> and the check of \<open>Auth_Middleware\<close>, for
  every order of construction and every order of the groups.
\<close>

section \<open>Value groups\<close>

definition group_members :: "dep \<Rightarrow> fx_fn list \<Rightarrow> ctor list" where
  "group_members g order = map fn_name (filter (\<lambda>f. g \<in> set (fn_feeds f)) order)"

definition feeder_names :: "dep \<Rightarrow> node_option \<Rightarrow> ctor list" where
  "feeder_names g opt = group_members g (fx_functions opt)"

text \<open>A function that takes a group is called after everything that contributes to it, so that the
  group is what the options contribute.\<close>

lemma group_complete:
  assumes "construction (node_functions opts) order" "f \<in> set order" "g \<in> set (fn_collects f)"
  shows "set (group_members g order) = (\<Union>opt \<in> set opts. set (feeder_names g opt))"
proof -
  have "h \<in> set order" if "h \<in> set (node_functions opts)" "g \<in> set (fn_feeds h)" for h
    by (rule construction_precedes(2) [OF assms(1,2) that(1)])
      (use assms(3) that(2) in \<open>auto simp: depends_def fn_inputs_def fn_outputs_def\<close>)
  moreover have "set order \<subseteq> set (node_functions opts)" using assms(1) by (simp add: construction_def)
  ultimately have "{h \<in> set order. g \<in> set (fn_feeds h)} = (\<Union>opt \<in> set opts. {h \<in> set (fx_functions opt). g \<in> set (fn_feeds h)})"
    by (auto simp: node_functions_def)
  then show ?thesis by (simp add: group_members_def feeder_names_def image_UN)
qed

lemma http_feeders:
  "n \<in> set (feeder_names GHttpMw opt) \<longleftrightarrow>
    (opt, n) \<in> {(HttpRecovery, FHttpRecovery), (HttpLogging, FLogging), (HttpJWT, FHttpJWT), (HttpTracing, FHttpTracing), (HttpPrometheus, FPromMware)}"
  by (cases opt) (auto simp: feeder_names_def group_members_def module_defs)

lemma unary_feeders:
  "n \<in> set (feeder_names GUnary opt) \<longleftrightarrow>
    (opt, n) \<in> {(GrpcJwtAuth, FJwtAuthOptions), (GrpcPrometheus, FMetricsOpts), (GrpcTracing, FJaeger), (GrpcValidator, FValidator), (GrpcRecovery, FGrpcRecovery)}"
  by (cases opt) (auto simp: feeder_names_def group_members_def module_defs)

lemma stream_feeders:
  "n \<in> set (feeder_names GStream opt) \<longleftrightarrow>
    (opt, n) \<in> {(GrpcJwtAuth, FJwtAuthOptions), (GrpcPrometheus, FMetricsOpts), (GrpcValidator, FValidator), (GrpcRecovery, FGrpcRecovery)}"
  by (cases opt) (auto simp: feeder_names_def group_members_def module_defs)

text \<open>The members of the groups of a node.\<close>

lemma http_group:
  assumes "usable_config c" "node_options c = Ret opts" "construction (node_functions opts) order" "flag c ''UseHTTP''"
  shows "set (group_members GHttpMw order) = {FHttpRecovery, FLogging} \<union> (if flag c ''UseAuth'' then {FHttpJWT} else {}) \<union>
    (if flag c ''UseTracing'' then {FHttpTracing} else {}) \<union> (if flag c ''UsePrometheus'' then {FPromMware} else {})"
proof -
  have "HttpRecovery \<in> set opts" "HttpLogging \<in> set opts" "HttpJWT \<in> set opts \<longleftrightarrow> flag c ''UseAuth''"
    "HttpTracing \<in> set opts \<longleftrightarrow> flag c ''UseTracing''" "HttpPrometheus \<in> set opts \<longleftrightarrow> flag c ''UsePrometheus''"
    using assms(4) by (simp_all add: option_present [OF assms(1,2)] table_defs)
  moreover have "set (group_members GHttpMw order) = (\<Union>opt \<in> set opts. set (feeder_names GHttpMw opt))"
    by (rule group_complete [OF assms(3) order_mem(6) [OF assms]]) simp
  ultimately show ?thesis by (auto simp: http_feeders)
qed

lemma grpc_groups:
  assumes "usable_config c" "node_options c = Ret opts" "construction (node_functions opts) order" "flag c ''UseGRPC''"
  shows "set (group_members GUnary order) = {FValidator, FGrpcRecovery} \<union> (if flag c ''UseAuth'' then {FJwtAuthOptions} else {}) \<union>
      (if flag c ''UseTracing'' then {FJaeger} else {}) \<union> (if flag c ''UsePrometheus'' then {FMetricsOpts} else {})"
    and "set (group_members GStream order) = {FValidator, FGrpcRecovery} \<union> (if flag c ''UseAuth'' then {FJwtAuthOptions} else {}) \<union>
      (if flag c ''UsePrometheus'' then {FMetricsOpts} else {})"
proof -
  let ?collect = "hd (fx_functions GrpcOptsAggregator)"
  have present: "GrpcValidator \<in> set opts" "GrpcRecovery \<in> set opts" "GrpcJwtAuth \<in> set opts \<longleftrightarrow> flag c ''UseAuth''"
    "GrpcTracing \<in> set opts \<longleftrightarrow> flag c ''UseTracing''" "GrpcPrometheus \<in> set opts \<longleftrightarrow> flag c ''UsePrometheus''"
    "GrpcOptsAggregator \<in> set opts"
    using assms(4) by (simp_all add: option_present [OF assms(1,2)] table_defs)
  have "?collect \<in> set order"
    by (rule construction_precedes(2) [OF assms(3) order_mem(5) [OF assms]])
      (use present(6) in \<open>force simp: node_functions_def\<close>, simp add: depends_def fn_inputs_def fn_outputs_def Provide_def)
  note complete = group_complete [OF assms(3) this]
  have "set (group_members GUnary order) = (\<Union>opt \<in> set opts. set (feeder_names GUnary opt))"
    "set (group_members GStream order) = (\<Union>opt \<in> set opts. set (feeder_names GStream opt))"
    by (rule complete, simp)+
  with present show "set (group_members GUnary order) = {FValidator, FGrpcRecovery} \<union> (if flag c ''UseAuth'' then {FJwtAuthOptions} else {}) \<union>
      (if flag c ''UseTracing'' then {FJaeger} else {}) \<union> (if flag c ''UsePrometheus'' then {FMetricsOpts} else {})"
    "set (group_members GStream order) = {FValidator, FGrpcRecovery} \<union> (if flag c ''UseAuth'' then {FJwtAuthOptions} else {}) \<union>
      (if flag c ''UsePrometheus'' then {FMetricsOpts} else {})"
    by (auto simp: unary_feeders stream_feeders)
qed

lemma group_distinct:
  assumes "usable_config c" "node_options c = Ret opts" "construction (node_functions opts) order"
  shows "distinct (group_members g order)"
  using order_distinct [OF assms] by (simp add: group_members_def distinct_map_filter)

section \<open>HTTP\<close>

text \<open>Handlers that may panic, and what the packages of the middlewares offer: tracing with a tracer,
  metrics under a handler name, recovery that prints the stack or not, logging to standard output.\<close>

type_synonym ('st, 'w) serving = "http_request \<Rightarrow> 'st \<Rightarrow> 'st \<times> 'w reply outcome"

record ('t, 'h) http_lib =
  hl_Middleware :: "'t \<Rightarrow> 'h \<Rightarrow> 'h"
  hl_HandlerProvider :: "string \<Rightarrow> 'h \<Rightarrow> 'h"
  hl_RecoveryHandler :: "bool \<Rightarrow> 'h \<Rightarrow> 'h"
  hl_LoggingHandler :: "'h \<Rightarrow> 'h"

definition Tracing_mware :: "('t, 'h) http_lib \<Rightarrow> 't \<Rightarrow> 'h \<Rightarrow> 'h" where
  "Tracing_mware L tracer next_handler = hl_Middleware L tracer next_handler"

definition PromMware :: "('t, 'h) http_lib \<Rightarrow> 'h \<Rightarrow> 'h" where
  "PromMware L = hl_HandlerProvider L []"

definition Recovery_mware :: "('t, 'h) http_lib \<Rightarrow> 'h \<Rightarrow> 'h" where
  "Recovery_mware L = hl_RecoveryHandler L True"

definition Logging :: "('t, 'h) http_lib \<Rightarrow> 'h \<Rightarrow> 'h" where
  "Logging L next_handler = hl_LoggingHandler L next_handler"

definition JWT_serving :: "AuthInterceptor \<Rightarrow> ('st, 'w) serving \<Rightarrow> ('st, 'w) serving" where
  "JWT_serving mw next_handler r st =
     (case JWT mw next_handler r of
        Served run \<Rightarrow> run st
      | HttpError msg code \<Rightarrow> (st, Ret (HttpError msg code)))"

fun http_member :: "('t, ('st, 'w) serving) http_lib \<Rightarrow> 't \<Rightarrow> AuthInterceptor \<Rightarrow> ctor \<Rightarrow> ('st, 'w) serving \<Rightarrow> ('st, 'w) serving" where
  "http_member L tracer mw FHttpRecovery = Recovery_mware L"
| "http_member L tracer mw FLogging = Logging L"
| "http_member L tracer mw FHttpJWT = JWT_serving mw"
| "http_member L tracer mw FHttpTracing = Tracing_mware L tracer"
| "http_member L tracer mw FPromMware = PromMware L"
| "http_member L tracer mw _ = (\<lambda>h. h)"

text \<open>Documented of these packages: tracing, metrics and logging hand the request on and the reply back
  as they are; recovery turns a panic into an internal server error and lets other replies be.\<close>

definition recovered :: "'st \<times> 'w reply outcome \<Rightarrow> 'st \<times> 'w reply outcome" where
  "recovered = (\<lambda>(st, out). (st, case out of Panic p \<Rightarrow> Ret (HttpError (ErrorString []) 500) | Ret x \<Rightarrow> Ret x))"

definition http_lib_ok :: "('t, ('st, 'w) serving) http_lib \<Rightarrow> bool" where
  "http_lib_ok L \<longleftrightarrow> (\<forall>tracer h r st. hl_Middleware L tracer h r st = h r st) \<and>
     (\<forall>n h r st. hl_HandlerProvider L n h r st = h r st) \<and> (\<forall>h r st. hl_LoggingHandler L h r st = h r st) \<and>
     (\<forall>b h r st. hl_RecoveryHandler L b h r st = recovered (h r st))"

definition http_refusal :: "AuthInterceptor \<Rightarrow> http_request \<Rightarrow> 'w reply" where
  "http_refusal mw r =
     (case http_token r of
        None \<Rightarrow> HttpError (ErrorString ''token is absent'') StatusBadRequest
      | Some t \<Rightarrow> HttpError (case jm mw t of Inr _ \<Rightarrow> ErrorString ''invalid role for resource''
          | Inl err \<Rightarrow> Wrapped ''failed verifying token'' err) StatusUnauthorized)"

lemma JWT_serving_granted:
  "JWT_serving mw h r st = (if http_granted mw r then h r st else (st, Ret (http_refusal mw r)))"
  by (simp add: JWT_serving_def JWT_grants http_granted_def http_refusal_def split: option.splits)

lemma recovered_simps [simp]: "recovered (st, Ret x) = (st, Ret x)" "recovered (recovered y) = recovered y"
  by (simp_all add: recovered_def split: prod.splits outcome.splits)

text \<open>What a list of members makes of a handler does not depend on its order.\<close>

lemma members_nested:
  assumes "http_lib_ok L" "set ks \<subseteq> {FHttpRecovery, FLogging, FHttpJWT, FHttpTracing, FPromMware}"
  shows "fold (http_member L tracer mw) ks h r st =
    (if FHttpJWT \<in> set ks \<and> \<not> http_granted mw r then (st, Ret (http_refusal mw r))
     else if FHttpRecovery \<in> set ks then recovered (h r st) else h r st)"
  using assms(2)
proof (induction ks rule: rev_induct)
  case (snoc k ks)
  have "k \<in> {FHttpRecovery, FLogging, FHttpJWT, FHttpTracing, FPromMware}" using snoc.prems by simp
  moreover have "set ks \<subseteq> {FHttpRecovery, FLogging, FHttpJWT, FHttpTracing, FPromMware}" using snoc.prems by simp
  note IH = snoc.IH [OF this]
  ultimately show ?case
    using assms(1) by (auto simp: IH http_lib_ok_def Recovery_mware_def Logging_def Tracing_mware_def PromMware_def JWT_serving_granted)
qed simp

text \<open>The mux as a handler: \<open>answer\<close> is what its handlers, or it itself with a redirect, do.\<close>

definition mux_serving :: "(route mux_answer option \<Rightarrow> ('st, 'w) serving) \<Rightarrow> route gomap \<Rightarrow> ('st, 'w) serving" where
  "mux_serving answer m r = answer (ServeHTTP_mux m r) r"

text \<open>
  C14: how a node answers HTTP requests. Whatever is enabled besides the HTTP server, in
  whatever order the container constructs the node and collects the middlewares: when
  authentication is on, a request is refused without running a handler exactly unless the ACL
  authorizes the role \<^verbatim>\<open>none\<close> for its target, or the role in the claims of the token it carries,
  which verifies. Every other request is answered by the handler its path is meant for, or
  redirected to the clean form of its path, and gets an internal server error if that panics.
  The server itself never panics.
\<close>

theorem node_http_answers:
  assumes "usable_config c" "node_options c = Ret opts" "construction (node_functions opts) order" "flag c ''UseHTTP''"
    and "http_lib_ok L" "mset ks = mset (group_members GHttpMw order)"
    and "mw = NewAuthInterceptor (Verify J manager now) (Allowed S acl)"
    and "NewHTTPServer Handle (mux_serving answer) c mux gateway (map (http_member L tracer mw) ks) = Inr (mux', srv)"
    and "URL_Path (req_URL r) = Some p"
  shows "\<exists>m. build_mux order [] = Ret m \<and> hs_Handler srv m r st =
    (if flag c ''UseAuth'' \<and> \<not> (Authorized S acl (req_URL r) RoleNone \<or>
         (\<exists>t claims. http_token r = Some t \<and> Verify J manager now t = Inr claims \<and> Authorized S acl (req_URL r) (uc_Role claims)))
     then (st, Ret (http_refusal mw r))
     else recovered (answer (Some (if cleanPath p = p then Dispatch (route_for c p) else MovedPermanently (cleanPath p))) r st))"
proof (intro exI conjI)
  show "build_mux order [] = Ret (node_routes c)" by (rule node_mux(2) [OF assms(4,1-3)])
  have ks: "set ks = {FHttpRecovery, FLogging} \<union> (if flag c ''UseAuth'' then {FHttpJWT} else {}) \<union>
      (if flag c ''UseTracing'' then {FHttpTracing} else {}) \<union> (if flag c ''UsePrometheus'' then {FPromMware} else {})"
    using mset_eq_setD [OF assms(6)] http_group [OF assms(1-4)] by simp
  then have sub: "set ks \<subseteq> {FHttpRecovery, FLogging, FHttpJWT, FHttpTracing, FPromMware}"
    and auth: "FHttpJWT \<in> set ks \<longleftrightarrow> flag c ''UseAuth''" and rec: "FHttpRecovery \<in> set ks"
    by (auto split: if_splits)
  have srv: "hs_Handler srv m = fold (http_member L tracer mw) ks (mux_serving answer m)" for m
    using assms(8) by (auto simp: NewHTTPServer_def Let_def fold_map comp_def split: prod.splits bool.splits)
  have granted: "http_granted mw r \<longleftrightarrow> Authorized S acl (req_URL r) RoleNone \<or>
      (\<exists>t claims. http_token r = Some t \<and> Verify J manager now t = Inr claims \<and> Authorized S acl (req_URL r) (uc_Role claims))"
    unfolding assms(7) http_granted_def NewAuthInterceptor_def by (rule gate.grants_authorized)
  have route: "mux_serving answer (node_routes c) r st =
      answer (Some (if cleanPath p = p then Dispatch (route_for c p) else MovedPermanently (cleanPath p))) r st"
    by (simp add: mux_serving_def ServeHTTP_mux_def assms(9) node_mux(1) [OF assms(4)])
  show "hs_Handler srv (node_routes c) r st =
    (if flag c ''UseAuth'' \<and> \<not> (Authorized S acl (req_URL r) RoleNone \<or>
         (\<exists>t claims. http_token r = Some t \<and> Verify J manager now t = Inr claims \<and> Authorized S acl (req_URL r) (uc_Role claims)))
     then (st, Ret (http_refusal mw r))
     else recovered (answer (Some (if cleanPath p = p then Dispatch (route_for c p) else MovedPermanently (cleanPath p))) r st))"
    unfolding srv members_nested [OF assms(5) sub] granted [symmetric] route by (simp add: auth rec)
qed

text \<open>A node with authentication whose status page is for administrators.\<close>

definition secure_config :: JsonConfig where
  "secure_config = Set (Set (Set (Set DefaultConfig ''UseHTTP'' (GBool True)) ''HTTPPort'' (GInt 8080)) ''UseAuth'' (GBool True))
     ''UseGRPC'' (GBool True)"

lemma secure_config_usable: "usable_config secure_config"
  unfolding secure_config_def by (intro usable_Set usable_default) (auto simp: safe_int_def flag_value_def flag_keys_def)

lemma secure_config_flags: "flag secure_config ''UseHTTP''" "flag secure_config ''UseAuth''" "flag secure_config ''UseGRPC''"
  by (simp_all add: flag_def IsSet_def Set_def DefaultConfig_def secure_config_def)

lemma secure_order: obtains opts order where "node_options secure_config = Ret opts" "construction (node_functions opts) order"
  using node_option_mem [OF secure_config_usable] construction_exists node_functions_distinct(1) [OF secure_config_usable] by blast

lemma secure_port: "Get decode_int secure_config ''HTTPPort'' 0 = (True, 8080)"
proof -
  have "wf_config secure_config" unfolding secure_config_def by (simp add: safe_int_def)
  then show ?thesis by (simp add: Get_doc_of) (simp add: secure_config_def doc_of_Set decode_int_def)
qed

definition sample_http_lib :: "(unit, ('st, 'w) serving) http_lib" where
  "sample_http_lib = \<lparr>hl_Middleware = (\<lambda>_ h. h), hl_HandlerProvider = (\<lambda>_ h. h), hl_RecoveryHandler = (\<lambda>_ h r st. recovered (h r st)),
     hl_LoggingHandler = (\<lambda>h. h)\<rparr>"

lemma sample_http_lib_ok: "http_lib_ok sample_http_lib"
  by (simp add: http_lib_ok_def sample_http_lib_def)

theorem node_http_answers_witness:
  "\<exists>opts order acl m. \<exists>srv :: (route gomap, (nat, unit) serving) http_server. node_options secure_config = Ret opts \<and> construction (node_functions opts) order \<and>
    Configure bytes_store [] ''/status'' Admin = (acl, None) \<and> build_mux order [] = Ret m \<and>
    hs_Handler srv m \<lparr>req_URL = ''/status'', req_Header = []\<rparr> 0 =
      (0, Ret (HttpError (ErrorString ''token is absent'') StatusBadRequest)) \<and>
    hs_Handler srv m \<lparr>req_URL = ''/svc'', req_Header = []\<rparr> 0 = (1, Ret (HttpError (ErrorString []) 500))"
proof -
  obtain opts order where o: "node_options secure_config = Ret opts" "construction (node_functions opts) order" by (rule secure_order)
  obtain acl where acl: "Configure bytes_store [] ''/status'' Admin = (acl, None)"
    by (simp add: Configure_def bytes_store_def aclMap_def role_defs)
  from Configure_policy [OF bytes_store_ok acl] obtain l where l: "aclMap Admin = Some l"
    "policy_of bytes_store acl = (policy_of bytes_store [])(''/status'' \<mapsto> l)" by blast
  then have au: "\<not> Authorized bytes_store acl ''/status'' RoleNone" "Authorized bytes_store acl ''/svc'' RoleNone"
    by (simp_all add: Authorized_policy policy_allows_def policy_of_def bytes_store_def aclMap_def role_defs level_defs)
  let ?mw = "NewAuthInterceptor (Verify sample_jwt \<lparr>secretKey = ''s''\<rparr> 0) (Allowed bytes_store acl)"
  let ?answer = "\<lambda>_ r st. (Suc st, Panic ''nil map'') :: nat \<times> unit reply outcome"
  let ?ks = "group_members GHttpMw order" and ?H = "\<lambda>m (_ :: string) (_ :: unit). m :: route gomap"
  obtain mux' srv where srv: "NewHTTPServer ?H (mux_serving ?answer) secure_config [] None (map (http_member sample_http_lib () ?mw) ?ks) = Inr (mux', srv)"
    by (simp add: NewHTTPServer_def secure_port Let_def)
  note answers = node_http_answers [OF secure_config_usable o secure_config_flags(1) sample_http_lib_ok refl refl srv]
  have u: "URL_Path ''/status'' = Some ''/status''" "URL_Path ''/svc'' = Some ''/svc''" by (simp_all add: URL_Path_def)
  have t: "http_token \<lparr>req_URL = x, req_Header = []\<rparr> = None" for x by (simp add: http_token_def Header_Get_def)
  obtain m where m: "build_mux order [] = Ret m"
    "hs_Handler srv m \<lparr>req_URL = ''/status'', req_Header = []\<rparr> 0 = (0, Ret (HttpError (ErrorString ''token is absent'') StatusBadRequest))"
    using answers [of "\<lparr>req_URL = ''/status'', req_Header = []\<rparr>" "''/status''" 0] u au t secure_config_flags
    by (auto simp: http_refusal_def)
  moreover have "hs_Handler srv m \<lparr>req_URL = ''/svc'', req_Header = []\<rparr> 0 = (1, Ret (HttpError (ErrorString []) 500))"
    using answers [of "\<lparr>req_URL = ''/svc'', req_Header = []\<rparr>" "''/svc''" 0] u au m(1) by (auto simp: recovered_def)
  ultimately show ?thesis using o acl by blast
qed

section \<open>gRPC\<close>

text \<open>The packages of the interceptors, for one kind of call: tracing, metrics, validation, recovery.\<close>

record ('t, 'h) grpc_lib =
  gl_ServerInterceptor :: "'t \<Rightarrow> 'h \<Rightarrow> 'h"
  gl_metrics :: "'h \<Rightarrow> 'h"
  gl_validator :: "'h \<Rightarrow> 'h"
  gl_recovery :: "(string \<Rightarrow> grpc_status) \<Rightarrow> 'h \<Rightarrow> 'h"

definition JaegerTracerOptions :: "('t, 'h) grpc_lib \<Rightarrow> 't \<Rightarrow> 'h \<Rightarrow> 'h" where
  "JaegerTracerOptions U tracer = gl_ServerInterceptor U tracer"

definition Validator :: "('t, 'u) grpc_lib \<Rightarrow> ('t, 's) grpc_lib \<Rightarrow> ('u \<Rightarrow> 'u) \<times> ('s \<Rightarrow> 's)" where
  "Validator U S = (gl_validator U, gl_validator S)"

type_synonym ('req, 'resp) unary_call = "(metadata option \<times> 'req, grpc_status + 'resp) panicking"
type_synonym 'stream stream_call = "('stream, grpc_status option) panicking"

text \<open>The member of either group that a constructor contributes: first components are interceptors of
  unary calls, second components of streams.\<close>

definition interceptors ::
  "('t, ('req, 'resp) unary_call) grpc_lib \<Rightarrow> ('t, 'stream stream_call) grpc_lib \<Rightarrow> 't \<Rightarrow> AuthInterceptor \<Rightarrow> string \<Rightarrow>
     ('stream \<Rightarrow> metadata option) \<Rightarrow> ctor \<Rightarrow>
     (('req, 'resp) unary_call \<Rightarrow> ('req, 'resp) unary_call) \<times> ('stream stream_call \<Rightarrow> 'stream stream_call)" where
  "interceptors U S tracer mw rpc Context n =
     (case n of
        FJwtAuthOptions \<Rightarrow> (token_check mw rpc fst Inl, token_check mw rpc Context Some)
      | FMetricsOpts \<Rightarrow> (gl_metrics U, gl_metrics S)
      | FJaeger \<Rightarrow> (JaegerTracerOptions U tracer, id)
      | FValidator \<Rightarrow> Validator U S
      | FGrpcRecovery \<Rightarrow> Recovery (gl_recovery U) (gl_recovery S)
      | _ \<Rightarrow> (id, id))"

text \<open>Documented of the packages: tracing and metrics hand call and result on as they are; the validator
  refuses a request that is not valid, and in a stream looks at the messages the handler receives,
  so that the handler gets a wrapped stream with the same context.\<close>

definition unary_lib_ok :: "('req \<Rightarrow> grpc_status option) \<Rightarrow> ('t, ('req, 'resp) unary_call) grpc_lib \<Rightarrow> bool" where
  "unary_lib_ok validate U \<longleftrightarrow> (\<forall>t h. gl_ServerInterceptor U t h = h) \<and> (\<forall>h. gl_metrics U h = h) \<and>
     (\<forall>h rq. gl_validator U h rq = (case validate (snd rq) of Some e \<Rightarrow> Ret (Inl e) | None \<Rightarrow> h rq)) \<and>
     recovers (gl_recovery U) Inl"

definition stream_lib_ok :: "('stream \<Rightarrow> metadata option) \<Rightarrow> ('stream \<Rightarrow> 'stream) \<Rightarrow> ('t, 'stream stream_call) grpc_lib \<Rightarrow> bool" where
  "stream_lib_ok Context wrap S \<longleftrightarrow> (\<forall>h. gl_metrics S h = h) \<and> (\<forall>h stream. gl_validator S h stream = h (wrap stream)) \<and>
     (\<forall>stream. Context (wrap stream) = Context stream) \<and> recovers (gl_recovery S) Some"

definition recovered_as :: "(grpc_status \<Rightarrow> 'a) \<Rightarrow> 'a outcome \<Rightarrow> 'a outcome" where
  "recovered_as err out = (case out of Panic p \<Rightarrow> Ret (err (Unknown (ErrorString ''internal error''))) | Ret x \<Rightarrow> Ret x)"

lemma recovered_as_simps [simp]: "recovered_as err (Ret x) = Ret x" "recovered_as err (recovered_as err out) = recovered_as err out"
  by (simp_all add: recovered_as_def split: outcome.splits)

lemma recovers_as: "recovers R err \<Longrightarrow> R recovery_handler h c = recovered_as err (h c)"
  by (simp add: recovers_def recovered_as_def recovery_handler_def split: outcome.split)

lemma unary_members:
  assumes "unary_lib_ok validate U"
  shows "fst (interceptors U S tracer mw rpc Context FJwtAuthOptions) h rq =
      (case authorize mw (fst rq) rpc of Some e \<Rightarrow> Ret (Inl e) | None \<Rightarrow> h rq)"
    and "fst (interceptors U S tracer mw rpc Context FMetricsOpts) h = h" "fst (interceptors U S tracer mw rpc Context FJaeger) h = h"
    and "fst (interceptors U S tracer mw rpc Context FValidator) h rq =
      (case validate (snd rq) of Some e \<Rightarrow> Ret (Inl e) | None \<Rightarrow> h rq)"
    and "fst (interceptors U S tracer mw rpc Context FGrpcRecovery) h rq = recovered_as Inl (h rq)"
  using assms recovers_as [of "gl_recovery U" Inl h rq]
  by (simp_all add: interceptors_def JaegerTracerOptions_def Validator_def Recovery_def unary_lib_ok_def token_check_def, cases rq, simp split: option.split)

lemma stream_members:
  assumes "stream_lib_ok Context wrap S"
  shows "snd (interceptors U S tracer mw rpc Context FJwtAuthOptions) h stream =
      (case authorize mw (Context stream) rpc of Some e \<Rightarrow> Ret (Some e) | None \<Rightarrow> h stream)"
    and "snd (interceptors U S tracer mw rpc Context FMetricsOpts) h = h"
    and "snd (interceptors U S tracer mw rpc Context FValidator) h stream = h (wrap stream)"
    and "snd (interceptors U S tracer mw rpc Context FGrpcRecovery) h stream = recovered_as Some (h stream)"
    and "Context (wrap stream) = Context stream"
  using assms recovers_as [of "gl_recovery S" Some h stream]
  by (simp_all add: interceptors_def Validator_def Recovery_def stream_lib_ok_def token_check_def)

text \<open>The errors a unary call can end with before its handler, and the outcome without any.\<close>

definition refusals :: "ctor list \<Rightarrow> AuthInterceptor \<Rightarrow> string \<Rightarrow> ('req \<Rightarrow> grpc_status option) \<Rightarrow> metadata option \<times> 'req \<Rightarrow> grpc_status set" where
  "refusals ks mw rpc validate rq =
     {e. FJwtAuthOptions \<in> set ks \<and> authorize mw (fst rq) rpc = Some e \<or> FValidator \<in> set ks \<and> validate (snd rq) = Some e}"

lemma refusals_Cons:
  "refusals (k # ks) mw rpc validate rq = refusals [k] mw rpc validate rq \<union> refusals ks mw rpc validate rq"
  by (auto simp: refusals_def)

lemma unary_nested:
  assumes "unary_lib_ok validate U" "set ks \<subseteq> {FJwtAuthOptions, FMetricsOpts, FJaeger, FValidator, FGrpcRecovery}"
  shows "let out = foldr (\<lambda>k h. fst (interceptors U S tracer mw rpc Context k) h) ks h rq;
      E = refusals ks mw rpc validate rq in
    (E = {} \<longrightarrow> out = (if FGrpcRecovery \<in> set ks then recovered_as Inl (h rq) else h rq)) \<and>
    (E \<noteq> {} \<longrightarrow> (\<exists>e \<in> E. out = Ret (Inl e)))"
  using assms(2)
proof (induction ks)
  case (Cons k ks)
  let ?chain = "\<lambda>ks. foldr (\<lambda>k h. fst (interceptors U S tracer mw rpc Context k) h) ks h rq"
  let ?E = "\<lambda>ks. refusals ks mw rpc validate rq"
  let ?goal = "\<lambda>out E ks. (E = {} \<longrightarrow> out = (if FGrpcRecovery \<in> set ks then recovered_as Inl (h rq) else h rq)) \<and>
    (E \<noteq> {} \<longrightarrow> (\<exists>e \<in> E. out = Ret (Inl e)))"
  have IH: "?goal (?chain ks) (?E ks) ks" using Cons by (simp add: Let_def)
  have E: "?E (k # ks) = ?E [k] \<union> ?E ks" by (rule refusals_Cons)
  have refused: "?goal (?chain (k # ks)) (?E (k # ks)) (k # ks)"
    if "?chain (k # ks) = (case o' of Some e \<Rightarrow> Ret (Inl e) | None \<Rightarrow> ?chain ks)" "?E [k] = {e. o' = Some e}" "k \<noteq> FGrpcRecovery" for o'
    unfolding E that(1,2) using IH that(3) by (cases o') auto
  consider "k = FJwtAuthOptions" | "k = FValidator" | "k = FGrpcRecovery" | "k = FMetricsOpts \<or> k = FJaeger"
    using Cons.prems by auto
  then have "?goal (?chain (k # ks)) (?E (k # ks)) (k # ks)"
  proof cases
    case 1
    then show ?thesis by (intro refused [of "authorize mw (fst rq) rpc"]) (simp_all add: unary_members [OF assms(1)] refusals_def)
  next
    case 2
    then show ?thesis by (intro refused [of "validate (snd rq)"]) (simp_all add: unary_members [OF assms(1)] refusals_def)
  next
    case 3
    then have "?chain (k # ks) = recovered_as Inl (?chain ks)" "?E [k] = {}"
      by (simp_all add: unary_members [OF assms(1)] refusals_def)
    with IH 3 show ?thesis unfolding E by auto
  next
    case 4
    then have "?chain (k # ks) = ?chain ks" "?E [k] = {}" by (auto simp: unary_members [OF assms(1)] refusals_def)
    with IH 4 show ?thesis unfolding E by auto
  qed
  then show ?case by (simp only: Let_def)
qed (simp add: refusals_def)

text \<open>The interceptor that refuses a call decides when it comes first.\<close>

lemma unary_first:
  assumes "unary_lib_ok validate U" "e \<in> refusals ks mw rpc validate rq"
  shows "\<exists>ks'. mset ks' = mset ks \<and> foldr (\<lambda>k h. fst (interceptors U S tracer mw rpc Context k) h) ks' h rq = Ret (Inl e)"
proof -
  from assms(2) consider "FJwtAuthOptions \<in> set ks" "authorize mw (fst rq) rpc = Some e" | "FValidator \<in> set ks" "validate (snd rq) = Some e"
    unfolding refusals_def by blast
  then obtain k where "k \<in> set ks" "\<And>h. fst (interceptors U S tracer mw rpc Context k) h rq = Ret (Inl e)"
    by cases (simp_all add: unary_members [OF assms(1)])
  then show ?thesis by (intro exI [of _ "k # remove1 k ks"]) simp
qed

text \<open>Streams: the validator wraps the stream once.\<close>

lemma stream_nested:
  assumes "stream_lib_ok Context wrap S" "set ks \<subseteq> {FJwtAuthOptions, FMetricsOpts, FValidator, FGrpcRecovery}" "distinct ks"
  shows "foldr (\<lambda>k h. snd (interceptors U S tracer mw rpc Context k) h) ks h stream =
    (case if FJwtAuthOptions \<in> set ks then authorize mw (Context stream) rpc else None of
       Some e \<Rightarrow> Ret (Some e)
     | None \<Rightarrow> (let out = h (if FValidator \<in> set ks then wrap stream else stream) in
         if FGrpcRecovery \<in> set ks then recovered_as Some out else out))"
  using assms(2,3)
proof (induction ks arbitrary: stream)
  case (Cons k ks)
  have IH: "foldr (\<lambda>k h. snd (interceptors U S tracer mw rpc Context k) h) ks h stream =
    (case if FJwtAuthOptions \<in> set ks then authorize mw (Context stream) rpc else None of
       Some e \<Rightarrow> Ret (Some e)
     | None \<Rightarrow> (let out = h (if FValidator \<in> set ks then wrap stream else stream) in
         if FGrpcRecovery \<in> set ks then recovered_as Some out else out))" for stream
    using Cons by simp
  consider "k = FJwtAuthOptions" | "k = FMetricsOpts" | "k = FValidator" | "k = FGrpcRecovery" using Cons.prems(1) by auto
  then show ?case
  proof cases
    case 4
    then have "foldr (\<lambda>k h. snd (interceptors U S tracer mw rpc Context k) h) (k # ks) h stream =
        recovered_as Some (foldr (\<lambda>k h. snd (interceptors U S tracer mw rpc Context k) h) ks h stream)"
      by (simp add: stream_members [OF assms(1)])
    with 4 Cons.prems(2) show ?thesis by (simp add: IH Let_def split: option.splits)
  qed (use Cons.prems(2) in \<open>simp_all add: IH stream_members [OF assms(1)] Let_def split: option.splits\<close>)
qed simp

text \<open>
  C15: how a node answers gRPC calls. Whatever is enabled besides the gRPC server, in whatever
  order the container constructs the node and collects the interceptors: a unary call reaches
  its handler exactly when its request is valid and, with authentication on, the token check
  lets it pass; otherwise it ends with the error of one of the two, and each of them is the
  result under some order of the interceptors. A stream reaches its handler exactly when the check lets it pass. A panic of the
  handler becomes the status \<^verbatim>\<open>Unknown\<close>, and every call returns.
\<close>

theorem node_grpc_answers:
  assumes "usable_config c" "node_options c = Ret opts" "construction (node_functions opts) order" "flag c ''UseGRPC''"
    and "mset us = mset (group_members GUnary order)" "mset ss = mset (group_members GStream order)"
    and "chains_in_order ChainUnary" "chains_in_order ChainStream" "unary_lib_ok validate U" "stream_lib_ok Context wrap S"
  shows "let A = (\<lambda>md. if flag c ''UseAuth'' then authorize mw md rpc else None);
      out = ChainUnary (map (\<lambda>k. fst (interceptors U S tracer mw rpc Context k)) us) h rq in
    (A (fst rq) = None \<and> validate (snd rq) = None \<longrightarrow> out = recovered_as Inl (h rq)) \<and>
    (A (fst rq) \<noteq> None \<or> validate (snd rq) \<noteq> None \<longrightarrow>
       (\<exists>e. out = Ret (Inl e) \<and> (A (fst rq) = Some e \<or> validate (snd rq) = Some e))) \<and>
    (\<forall>e. A (fst rq) = Some e \<or> validate (snd rq) = Some e \<longrightarrow> (\<exists>us'. mset us' = mset us \<and>
       ChainUnary (map (\<lambda>k. fst (interceptors U S tracer mw rpc Context k)) us') h rq = Ret (Inl e))) \<and>
    ChainStream (map (\<lambda>k. snd (interceptors U S tracer mw rpc Context k)) ss) k stream =
      (case A (Context stream) of Some e \<Rightarrow> Ret (Some e) | None \<Rightarrow> recovered_as Some (k (wrap stream)))"
proof -
  note groups = grpc_groups [OF assms(1-4)]
  have us: "set us \<subseteq> {FJwtAuthOptions, FMetricsOpts, FJaeger, FValidator, FGrpcRecovery}"
    "FJwtAuthOptions \<in> set us \<longleftrightarrow> flag c ''UseAuth''" "FValidator \<in> set us" "FGrpcRecovery \<in> set us"
    using mset_eq_setD [OF assms(5)] groups(1) by (auto split: if_splits)
  have ss: "set ss \<subseteq> {FJwtAuthOptions, FMetricsOpts, FValidator, FGrpcRecovery}"
    "FJwtAuthOptions \<in> set ss \<longleftrightarrow> flag c ''UseAuth''" "FValidator \<in> set ss" "FGrpcRecovery \<in> set ss"
    using mset_eq_setD [OF assms(6)] groups(2) by (auto split: if_splits)
  have dist: "distinct ss" using group_distinct [OF assms(1-3)] mset_eq_imp_distinct_iff [OF assms(6)] by simp
  let ?out = "foldr (\<lambda>k h. fst (interceptors U S tracer mw rpc Context k) h) us h rq"
  let ?E = "refusals us mw rpc validate rq"
  have E: "?E = {e. (if flag c ''UseAuth'' then authorize mw (fst rq) rpc else None) = Some e \<or> validate (snd rq) = Some e}"
    by (auto simp: refusals_def us(2,3))
  have chain: "ChainUnary (map (\<lambda>k. fst (interceptors U S tracer mw rpc Context k)) ks) h rq =
      foldr (\<lambda>k h. fst (interceptors U S tracer mw rpc Context k) h) ks h rq"
    "ChainStream (map (\<lambda>k. snd (interceptors U S tracer mw rpc Context k)) ss) k stream =
      foldr (\<lambda>k h. snd (interceptors U S tracer mw rpc Context k) h) ss k stream"
    for ks using assms(7,8) by (simp_all add: chains_in_order_def foldr_map comp_def)
  have nested: "(?E = {} \<longrightarrow> ?out = recovered_as Inl (h rq)) \<and> (?E \<noteq> {} \<longrightarrow> (\<exists>e \<in> ?E. ?out = Ret (Inl e)))"
    using unary_nested [OF assms(9) us(1), of S tracer mw rpc Context h rq] us(4) by (simp add: Let_def)
  show ?thesis
    unfolding Let_def chain stream_nested [OF assms(10) ss(1) dist]
    using nested unary_first [OF assms(9), of _ us mw rpc rq S tracer Context h] unfolding E by (auto simp: ss split: if_splits)
qed

definition sample_unary_lib :: "(string \<Rightarrow> grpc_status option) \<Rightarrow> (unit, (string, string) unary_call) grpc_lib" where
  "sample_unary_lib validate = \<lparr>gl_ServerInterceptor = (\<lambda>_ h. h), gl_metrics = (\<lambda>h. h),
     gl_validator = (\<lambda>h rq. case validate (snd rq) of Some e \<Rightarrow> Ret (Inl e) | None \<Rightarrow> h rq), gl_recovery = sample_recovery Inl\<rparr>"

definition sample_stream_lib :: "(unit, metadata option stream_call) grpc_lib" where
  "sample_stream_lib = \<lparr>gl_ServerInterceptor = (\<lambda>_ h. h), gl_metrics = (\<lambda>h. h), gl_validator = (\<lambda>h. h), gl_recovery = sample_recovery Some\<rparr>"

lemma sample_grpc_libs: "unary_lib_ok validate (sample_unary_lib validate)" "stream_lib_ok (\<lambda>md. md) (\<lambda>md. md) sample_stream_lib"
  by (simp_all add: unary_lib_ok_def stream_lib_ok_def sample_unary_lib_def sample_stream_lib_def sample_recovers)

theorem node_grpc_answers_witness:
  "\<exists>opts order. node_options secure_config = Ret opts \<and> construction (node_functions opts) order \<and>
    (let mw = \<lparr>jm = (\<lambda>_. Inl (ErrorString ''bad token'')), am = (\<lambda>rpc. if rpc = ''/open'' then [RoleNone] else [Admin])\<rparr>;
       run = (\<lambda>rpc rq. foldr (\<lambda>ic k. ic k) (map (\<lambda>k. fst (interceptors (sample_unary_lib (\<lambda>req. if req = ''bad'' then Some (HandlerError (ErrorString ''invalid'')) else None))
         sample_stream_lib () mw rpc (\<lambda>md. md) k)) (group_members GUnary order)) (\<lambda>_. Panic ''nil map'') rq) in
     run ''/open'' (None, ''good'') = Ret (Inl (Unknown (ErrorString ''internal error''))) \<and>
     run ''/open'' (None, ''bad'') = Ret (Inl (HandlerError (ErrorString ''invalid''))) \<and>
     run ''/m'' (None, ''good'') = Ret (Inl (Unauthenticated (ErrorString ''metadata is not provided''))))"
proof -
  obtain opts order where o: "node_options secure_config = Ret opts" "construction (node_functions opts) order" by (rule secure_order)
  let ?mw = "\<lparr>jm = (\<lambda>_. Inl (ErrorString ''bad token'')), am = (\<lambda>rpc. if rpc = ''/open'' then [RoleNone] else [Admin])\<rparr> :: AuthInterceptor"
  have chain: "chains_in_order (foldr (\<lambda>ic k. ic k))" by (rule foldr_chains)
  note answers = node_grpc_answers [OF secure_config_usable o secure_config_flags(3) refl refl chain chain sample_grpc_libs,
      where mw = ?mw and tracer = "()" and h = "\<lambda>_. Panic ''nil map''" and k = "\<lambda>_. Ret None" and stream = None
        and validate = "\<lambda>req. if req = ''bad'' then Some (HandlerError (ErrorString ''invalid'')) else None"]
  have a: "authorize ?mw None ''/open'' = None" "authorize ?mw None ''/m'' = Some (Unauthenticated (ErrorString ''metadata is not provided''))"
    by (simp_all add: authorize_def role_defs Let_def)
  from answers [where rpc = "''/open''" and rq = "(None, ''good'')"] answers [where rpc = "''/open''" and rq = "(None, ''bad'')"]
    answers [where rpc = "''/m''" and rq = "(None, ''good'')"] o show ?thesis
    by (intro exI [of _ opts] exI [of _ order]) (simp add: Let_def a secure_config_flags recovered_as_def)
qed

end
