(* ===== verification/Mux_Status.thy ===== *)
theory Mux_Status
  imports Grpc_Mux
begin

text \<open>
  The status of the listener mux under concurrency (\<^verbatim>\<open>modules/grpc/mux/mux.go\<close>, \<^verbatim>\<open>updateStatus\<close> and
  \<^verbatim>\<open>Status\<close>; \<^verbatim>\<open>modules/diag/status/status.go\<close>, the handler of \<^verbatim>\<open>/status\<close>). Listener tasks write the map
  and status requests read it, each in a goroutine of its own. Both take the lock, but \<^verbatim>\<open>Status\<close>
  returns the map itself, which the caller encodes after the lock was released.
\<close>

section \<open>Goroutines\<close>

text \<open>Where a goroutine is: before \<^verbatim>\<open>Lock\<close>, inside, after the write, or encoding the map it was given
  with these keys left to read.\<close>

datatype status_pc =
    WantWrite string mux_status | Writing string mux_status | Wrote
  | WantRead | Reading | Encoding "string list" | Returned

record status_state =
  ms_map :: "mux_status gomap"
  ms_lock :: "nat option"
  ms_pc :: "nat \<Rightarrow> status_pc"

abbreviation goes_to :: "status_state \<Rightarrow> nat \<Rightarrow> status_pc \<Rightarrow> status_state" where
  "goes_to s i pc \<equiv> s\<lparr>ms_pc := (ms_pc s)(i := pc)\<rparr>"

inductive status_step :: "status_state \<Rightarrow> status_state \<Rightarrow> bool" where
  write_lock: "ms_pc s i = WantWrite k v \<Longrightarrow> ms_lock s = None \<Longrightarrow>
    status_step s (goes_to (s\<lparr>ms_lock := Some i\<rparr>) i (Writing k v))"
| write_map: "ms_pc s i = Writing k v \<Longrightarrow>
    status_step s (goes_to (s\<lparr>ms_map := AList.update k v (ms_map s)\<rparr>) i Wrote)"
| write_unlock: "ms_pc s i = Wrote \<Longrightarrow> status_step s (goes_to (s\<lparr>ms_lock := None\<rparr>) i Returned)"
| read_lock: "ms_pc s i = WantRead \<Longrightarrow> ms_lock s = None \<Longrightarrow>
    status_step s (goes_to (s\<lparr>ms_lock := Some i\<rparr>) i Reading)"
| read_unlock: "ms_pc s i = Reading \<Longrightarrow>
    status_step s (goes_to (s\<lparr>ms_lock := None\<rparr>) i (Encoding (map fst (ms_map s))))"
| encode_entry: "ms_pc s i = Encoding (k # ks) \<Longrightarrow> status_step s (goes_to s i (Encoding ks))"
| encode_end: "ms_pc s i = Encoding [] \<Longrightarrow> status_step s (goes_to s i Returned)"

inductive_cases status_stepE: "status_step s s'"

text \<open>Inside the lock; and a data race: one goroutine is about to write the map while another one
  is about to read it.\<close>

fun locked :: "status_pc \<Rightarrow> bool" where
  "locked (Writing k v) = True" | "locked Wrote = True" | "locked Reading = True" | "locked _ = False"

definition racing :: "status_state \<Rightarrow> bool" where
  "racing s \<longleftrightarrow> (\<exists>i j k v x xs. ms_pc s i = Writing k v \<and> ms_pc s j = Encoding (x # xs))"

definition waiting :: "status_state \<Rightarrow> bool" where
  "waiting s \<longleftrightarrow> ms_lock s = None \<and> (\<forall>i. ms_pc s i = WantRead \<or> ms_pc s i = Returned \<or> (\<exists>k v. ms_pc s i = WantWrite k v))"

section \<open>The invariant\<close>

text \<open>A writer goes through its states with what it was started with, and its value stays in the map
  when no other goroutine writes under its key.\<close>

definition status_inv :: "status_state \<Rightarrow> status_state \<Rightarrow> bool" where
  "status_inv s0 s \<longleftrightarrow>
     (\<forall>i. ms_lock s = Some i \<longleftrightarrow> locked (ms_pc s i)) \<and>
     (\<forall>i k v. ms_pc s i = WantWrite k v \<or> ms_pc s i = Writing k v \<longrightarrow> ms_pc s0 i = WantWrite k v) \<and>
     (\<forall>i k v. ms_pc s0 i = WantWrite k v \<and> ms_pc s i \<noteq> WantWrite k v \<and> ms_pc s i \<noteq> Writing k v \<and>
        (\<forall>j v'. ms_pc s0 j = WantWrite k v' \<longrightarrow> j = i) \<longrightarrow> map_of (ms_map s) k = Some v)"

lemma waiting_inv: "waiting s \<Longrightarrow> status_inv s s"
proof -
  assume w: "waiting s"
  have "\<not> locked (ms_pc s i)" for i
  proof -
    from w consider "ms_pc s i = WantRead" | "ms_pc s i = Returned" | k v where "ms_pc s i = WantWrite k v"
      unfolding waiting_def by blast
    then show ?thesis by cases simp_all
  qed
  moreover have "ms_pc s i \<noteq> Writing k v" for i k v using w unfolding waiting_def by (metis status_pc.distinct)
  ultimately show ?thesis using w by (auto simp: status_inv_def waiting_def)
qed

lemma step_lock:
  "status_step s s' \<Longrightarrow> \<forall>i. ms_lock s = Some i \<longleftrightarrow> locked (ms_pc s i) \<Longrightarrow> \<forall>i. ms_lock s' = Some i \<longleftrightarrow> locked (ms_pc s' i)"
  by (erule status_stepE) (auto, (metis locked.simps option.inject option.distinct(1))+)

lemma step_writer:
  "status_step s s' \<Longrightarrow> \<forall>i k v. ms_pc s i = WantWrite k v \<or> ms_pc s i = Writing k v \<longrightarrow> ms_pc s0 i = WantWrite k v \<Longrightarrow>
    ms_pc s' i = WantWrite k v \<or> ms_pc s' i = Writing k v \<Longrightarrow> ms_pc s0 i = WantWrite k v"
  by (erule status_stepE) (auto split: if_splits)

text \<open>A step of another goroutine does not touch the entry, and a writer leaves its states by writing.\<close>

lemma step_entry:
  assumes "status_step s s'" "status_inv s0 s" "ms_pc s0 i = WantWrite k v" "\<forall>j v'. ms_pc s0 j = WantWrite k v' \<longrightarrow> j = i"
    and "ms_pc s' i \<noteq> WantWrite k v" "ms_pc s' i \<noteq> Writing k v"
  shows "map_of (ms_map s') k = Some v"
proof -
  have before: "map_of (ms_map s) k = Some v" if "ms_pc s i \<noteq> WantWrite k v" "ms_pc s i \<noteq> Writing k v"
    using assms(2-4) that unfolding status_inv_def by blast
  have writer: "ms_pc s0 j = WantWrite k' v'" if "ms_pc s j = Writing k' v'" for j k' v'
    using assms(2) that unfolding status_inv_def by blast
  from assms(1) show ?thesis
  proof cases
    case (write_map j k' v')
    show ?thesis
    proof (cases "j = i")
      case True
      with writer [OF write_map(2)] assms(3) show ?thesis by (simp add: write_map(1) update_conv')
    next
      case False
      with writer [OF write_map(2)] assms(4) have "k' \<noteq> k" by blast
      with False before assms(5,6) show ?thesis by (simp add: write_map(1) update_conv')
    qed
  qed (use before assms(5,6) in \<open>auto split: if_splits\<close>)
qed

lemma status_step_inv: "status_step s s' \<Longrightarrow> status_inv s0 s \<Longrightarrow> status_inv s0 s'"
proof -
  assume step: "status_step s s'" and inv: "status_inv s0 s"
  note i = inv [unfolded status_inv_def]
  show ?thesis unfolding status_inv_def
  proof (intro conjI)
    show "\<forall>i. ms_lock s' = Some i \<longleftrightarrow> locked (ms_pc s' i)" by (rule step_lock [OF step i [THEN conjunct1]])
    show "\<forall>i k v. ms_pc s' i = WantWrite k v \<or> ms_pc s' i = Writing k v \<longrightarrow> ms_pc s0 i = WantWrite k v"
      using step_writer [OF step i [THEN conjunct2, THEN conjunct1]] by blast
  qed (use step_entry [OF step inv] in blast)
qed

interpretation mst: transition_invariant status_step "status_inv s0" for s0
  by unfold_locales (rule status_step_inv)

section \<open>What the lock protects\<close>

text \<open>
  C26: the lock of the mux's status protects the writes and not the report. In every interleaving
  of any number of goroutines that update and report the status, at most one is inside the lock,
  and the value of a goroutine that has written stays when no other writes under its key. But
  whenever a report and an update are about to begin, the update can come to write the map
  while the report, out of the lock, reads it: a data race, on which the Go runtime may stop
  the program.
\<close>

theorem status_report_races:
  assumes "waiting s" "status_step\<^sup>*\<^sup>* s t"
  shows "(\<forall>i j. locked (ms_pc t i) \<and> locked (ms_pc t j) \<longrightarrow> i = j) \<and>
    (\<forall>i k v. ms_pc s i = WantWrite k v \<and> ms_pc t i = Returned \<and> (\<forall>j v'. ms_pc s j = WantWrite k v' \<longrightarrow> j = i) \<longrightarrow>
      map_of (ms_map t) k = Some v) \<and>
    (ms_map s \<noteq> [] \<and> (\<exists>r. ms_pc s r = WantRead) \<and> (\<exists>i k v. ms_pc s i = WantWrite k v) \<longrightarrow>
      (\<exists>u. status_step\<^sup>*\<^sup>* s u \<and> racing u))"
proof (intro conjI impI)
  have inv: "status_inv s t" by (rule mst.reachable [OF assms(2) waiting_inv [OF assms(1)]])
  then show "\<forall>i j. locked (ms_pc t i) \<and> locked (ms_pc t j) \<longrightarrow> i = j"
    unfolding status_inv_def by (metis option.inject)
  show "\<forall>i k v. ms_pc s i = WantWrite k v \<and> ms_pc t i = Returned \<and> (\<forall>j v'. ms_pc s j = WantWrite k v' \<longrightarrow> j = i) \<longrightarrow>
      map_of (ms_map t) k = Some v"
    using inv [unfolded status_inv_def, THEN conjunct2, THEN conjunct2] by (metis status_pc.distinct(11,21))
  assume "ms_map s \<noteq> [] \<and> (\<exists>r. ms_pc s r = WantRead) \<and> (\<exists>i k v. ms_pc s i = WantWrite k v)"
  then obtain r w k v where m: "ms_map s \<noteq> []" and r: "ms_pc s r = WantRead" and w: "ms_pc s w = WantWrite k v" by blast
  then have rw: "r \<noteq> w" by auto
  have free: "ms_lock s = None" using assms(1) by (simp add: waiting_def)
  let ?s1 = "goes_to (s\<lparr>ms_lock := Some r\<rparr>) r Reading"
  let ?s2 = "goes_to (?s1\<lparr>ms_lock := None\<rparr>) r (Encoding (map fst (ms_map ?s1)))"
  let ?s3 = "goes_to (?s2\<lparr>ms_lock := Some w\<rparr>) w (Writing k v)"
  have s1: "status_step s ?s1" by (rule read_lock [OF r free])
  have s2: "status_step ?s1 ?s2" by (rule read_unlock) simp
  have s3: "status_step ?s2 ?s3" by (rule write_lock) (use w rw in simp_all)
  have "status_step\<^sup>*\<^sup>* s ?s3"
    by (rule converse_rtranclp_into_rtranclp [OF s1 converse_rtranclp_into_rtranclp [OF s2 r_into_rtranclp [of status_step, OF s3]]])
  moreover have "racing ?s3" using rw m by (cases "ms_map s") (auto simp: racing_def)
  ultimately show "\<exists>u. status_step\<^sup>*\<^sup>* s u \<and> racing u" by blast
qed

definition sample_status :: status_state where
  "sample_status = \<lparr>ms_map = [(''TCP Port 80'', NotRunning)], ms_lock = None,
     ms_pc = (\<lambda>i. if i = 0 then WantWrite ''TCP Port 80'' Running else if i = 1 then WantRead else Returned)\<rparr>"

theorem status_report_races_witness:
  "waiting sample_status \<and> (\<exists>u. status_step\<^sup>*\<^sup>* sample_status u \<and> racing u)"
proof -
  have w: "waiting sample_status" by (simp add: waiting_def sample_status_def)
  have "ms_pc sample_status 1 = WantRead" by (simp add: sample_status_def)
  moreover have "ms_pc sample_status 0 = WantWrite ''TCP Port 80'' Running" "ms_map sample_status \<noteq> []" by (simp_all add: sample_status_def)
  ultimately show ?thesis using status_report_races [OF w rtranclp.rtrancl_refl] w by blast
qed

end
