(* ===== verification/Spec2Isabelle.thy ===== *)
theory Spec2Isabelle
  imports Events_Svc Shared_Storage P2P_Host Node_Status Request_Pipeline Mux_Status
begin

text \<open>
  A verification library for \<^bold>\<open>go-msuite\<close>, a Go toolkit that assembles a service node (repository,
  authentication, gRPC and HTTP servers, peer-to-peer networking) from options.

  \<^bold>\<open>The program.\<close> \<^verbatim>\<open>msuite.New\<close> applies its options to a configuration and hands it to \<^verbatim>\<open>node.New\<close>, which
  opens a repository (on disk when a root path is given, else in memory), reads the repository's
  configuration and gives the dependency container \<^verbatim>\<open>fx\<close> the constructors the flags ask for. The
  access managers keep their rules in the repository's store; the gRPC interceptor and the HTTP
  middleware consult them on every request. Connections to the gRPC server come through one
  listener in front of several. With peer-to-peer enabled, a node talks to its peers through
  request-response protocols (one of which introduces peers to each other), broadcasts events,
  shares a store, and finds services through discovery.

  \<^bold>\<open>Theories and sources\<close> (paths under \<^verbatim>\<open>src/\<close>).
  \<^item> \<open>Go_Prelude\<close>: errors as values, outcomes that may panic, Go maps as association lists, loops
    that stop at the first error, decimal text, the collection \<open>go_simps\<close>; locales
    \<open>transition_invariant\<close> and \<open>counted_transitions\<close> for interleaved goroutines.
  \<^item> \<open>Go_Json_Text\<close>, \<open>Go_Json_Indent\<close>, \<open>Go_Json\<close>, \<open>Go_Base64\<close>: \<^verbatim>\<open>encoding/json\<close> and \<^verbatim>\<open>encoding/base64\<close> as far as the code uses
    them, with the round trips the components rest on.
  \<^item> \<open>Utils_Files\<close> (\<^verbatim>\<open>utils/files.go\<close>): a file tree with denied paths and quotas; the four helpers.
  \<^item> \<open>Json_Config\<close> (\<^verbatim>\<open>modules/config/json/jsonConfig.go\<close>): the configuration; locale \<open>config_store\<close>.
  \<^item> \<open>Identity_Keys\<close> (\<^verbatim>\<open>modules/node/ipfs/host.go\<close>, \<^verbatim>\<open>Identity\<close>): the node's key in the configuration.
  \<^item> \<open>Msuite_Options\<close> (\<^verbatim>\<open>msuite.go\<close>): every option, the defaults, \<^verbatim>\<open>New\<close>.
  \<^item> \<open>Acl_Manager\<close>, \<open>Jwt_Manager\<close> (\<^verbatim>\<open>modules/auth\<close>): access rules over a key-value store, tokens; locale
    \<open>acl_interface\<close>.
  \<^item> \<open>Auth_Middleware\<close> (\<^verbatim>\<open>modules/node/grpc/middleware.go\<close>, \<^verbatim>\<open>modules/node/http/middleware.go\<close>): the two
    checks; locale \<open>access_gate\<close>, which extends \<open>acl_interface\<close>.
  \<^item> \<open>Fs_Datastore\<close>, \<open>Fs_Repo\<close>, \<open>Inmem_Repo\<close> (\<^verbatim>\<open>modules/repo\<close>): repositories, the reference-counting
    opener over a heap of repository objects; locale \<open>repo_config\<close>, interpreted on both kinds.
  \<^item> \<open>Protocols\<close> (\<^verbatim>\<open>modules/protocols/protocols.go\<close>): frames with a 16-bit length, reads in arbitrary
    portions, request and response; locale \<open>message\<close> for the codecs.
  \<^item> \<open>Events_Svc\<close>, \<open>Shared_Storage\<close> (\<^verbatim>\<open>modules/events\<close>, \<^verbatim>\<open>modules/sharedStorage\<close>).
  \<^item> \<open>Grpc_Mux\<close>, \<open>Grpc_Client\<close> (\<^verbatim>\<open>modules/grpc\<close>): the listener in front of listeners as a labelled step
    relation, and in \<open>Mux_Status\<close> its status under concurrent updates and reports; clients by discovery and by static addresses; advertising.
  \<^item> \<open>Mesher\<close> (\<^verbatim>\<open>modules/node/internal/mesher\<close>), \<open>P2P_Host\<close> (\<^verbatim>\<open>modules/node/ipfs\<close>): introducing peers,
    bootstrapping, over one network of hosts.
  \<^item> \<open>Node_Wiring\<close>, \<open>Node_Servers\<close>, \<open>Handler_Chain\<close>, \<open>Server_Lifecycle\<close>, \<open>Node_Service\<close> (\<^verbatim>\<open>modules/node\<close>,
    \<^verbatim>\<open>utils/fx.go\<close>, \<^verbatim>\<open>modules/diag\<close>): the option lists and the flags that choose them, what the
    constructors make of the configuration, the checks in the chains of handlers (locale
    \<open>guarded_chain\<close>, interpreted on both transports), the servers' start hooks as a step relation,
    \<^verbatim>\<open>New\<close> and the service's methods.
  \<^item> \<open>Node_Graph\<close>, \<open>Node_Lifecycle\<close>, \<open>Node_Status\<close> (\<^verbatim>\<open>modules/node\<close>, the \<^verbatim>\<open>Module\<close> variables and \<^verbatim>\<open>lc.Append\<close> calls of
    all packages): the functions handed to the container with what they take and give (locale
    \<open>ranked_functions\<close>), the hooks in the order of construction, the reporters and \<^verbatim>\<open>/status\<close>.
  \<^item> \<open>Go_Http_Mux\<close>, \<open>Http_Routes\<close> (\<^verbatim>\<open>net/http\<close> as far as used; \<^verbatim>\<open>modules/node/http\<close>, \<^verbatim>\<open>modules/diag/status\<close>): request
    paths and the mux (locale \<open>path_router\<close>), the routes of a node and what guards them.
  \<^item> \<open>Grpc_Interceptors\<close> (\<^verbatim>\<open>modules/node/grpc/middleware.go\<close>): metrics and recovery around handlers that panic.
  \<^item> \<open>Request_Pipeline\<close> (\<^verbatim>\<open>modules/node/http\<close>, \<^verbatim>\<open>modules/node/grpc\<close>): the value groups of a node, and the way of
    a request through its middlewares, interceptors and routes, in every order of the groups.
  \<^item> \<open>Spec2Isabelle\<close> (this theory): what a token the managers issued is good for at the middlewares.

  \<^bold>\<open>How state and effects are modelled.\<close> A struct is a record, a call that changes it returns the
  changed record; Go's \<^verbatim>\<open>(value, error)\<close> is \<open>goerror + 'a\<close>, a panic is \<open>Panic\<close> in \<open>outcome\<close>. A
  method that holds a lock for its whole body is one atomic operation; where the code
  is concurrent without a lock (registration of event handlers, listener tasks, server
  goroutines) the goroutines are interleaved by an inductive step relation. Configurations are
  passed by value; a nil and an empty slice of bytes are not told apart. Maps are iterated in an
  arbitrary order, given as a parameter. Durations and the clock are integers in nanoseconds.

  \<^bold>\<open>What the lemmas show.\<close> Round trips: a configuration through a file, a token through signing and
  verification, messages through frames, a node through a restart. Refinement: the access manager
  implements an abstract policy, the opener counts opens minus closes. Safety: both checks let
  exactly the authorized callers through, alone, in the servers' handler chains and as
  the node is wired; mounts open all or nothing. Assembly: which calls of the options lead to a
  configuration with boolean flags, and that for every such configuration the container finds every parameter and an order to construct the node in; in every such
  order the node stops its parts in order, undoes a failed start, serves its routes and reports its
  status, its service offers exactly what was asked for, and it answers HTTP requests and gRPC calls as the access rules say, whatever the order
  of the middlewares. Concurrency: no
  interleaving of registrations loses what was there before, every connection a listener accepted
  is handed out, queued, held or, when the task manager stops, dropped. Liveness: a new peer is
  connected to every peer it is told of and can reach, bootstrap peers that can be reached get
  connected while the start's context lives, also when others fail. Several theorems state behaviour
  the code probably does not intend; they are listed as findings of the development.

  \<^bold>\<open>Bounds and fuel.\<close> The JSON parser runs on fuel, one more than the length of the text; a text
  that parses with any fuel is shown to parse with this one. \<^verbatim>\<open>io.ReadFull\<close> terminates by a measure on the reader; all other
  loops are structural. The 16-bit length of a frame is a word that wraps. Integers in a
  configuration are exact up to \<open>2 ^ 53\<close>, the range in which \<^verbatim>\<open>float64\<close> is.

  \<^bold>\<open>Parameters.\<close> Code outside the repository is an argument, with what is documented of it as a
  named hypothesis: the key-value store (\<open>acl_store_ok\<close>), the token library (\<open>jwt_library\<close>), the
  key library (\<open>key_library\<close>), datastores (\<open>ds_library\<close>), streams (\<open>stream_writes\<close>, \<open>delivers\<close>), hosts
  (\<open>network_ok\<close>, \<open>respects_context\<close>), other members of a handler chain (\<open>passes\<close>, \<open>chains_in_order\<close>), the container
  (\<open>construction\<close>, \<open>instantiates\<close>, \<open>runs_hooks\<close>), the recovery interceptor (\<open>recovers\<close>), the packages
  of the middlewares and interceptors (\<open>http_lib_ok\<close>, \<open>unary_lib_ok\<close>, \<open>stream_lib_ok\<close>).
  Each hypothesis is met by a concrete instance in the witnesses. Nothing is assumed of how a stream
  splits the bytes or of which connections the connection manager closes; where an outcome depends
  on either (a first read with both length bytes, \<open>keeps_connections\<close>), the theorem says so in its
  conclusion and \<open>frame_received\<close> says what happens otherwise. Properties of an assembled node are
  about configurations whose feature flags are booleans (\<open>usable_config\<close>); \<open>new_config_usable\<close> says exactly
  which calls of the options lead to one.

  \<^bold>\<open>Not modelled.\<close> Functions that consist of one call into a library and that no property of the node
  depends on: the CORS middleware, which no option provides, the construction of libp2p hosts, pub-sub,
  discovery and the ipfs peer, the registry with its Prometheus collectors; log output; the time
  limits of the container's start and stop. \<^verbatim>\<open>core/core.go\<close>, \<^verbatim>\<open>modules/repo/repo.go\<close> and
  \<^verbatim>\<open>modules/config/config.go\<close> declare interfaces only.
\<close>

section \<open>Tokens, managers and middlewares together\<close>

text \<open>
  C10: what a token issued by the node is good for. Before its expiry its holder passes the
  gRPC interceptor and the HTTP middleware for a resource exactly when the ACL authorizes the
  role the user had when the token was issued, or the role \<^verbatim>\<open>none\<close>; after the expiry exactly
  when the ACL authorizes the role \<^verbatim>\<open>none\<close>.
\<close>

theorem issued_token_access:
  assumes "jwt_library L" "Generate L manager now user timeout = Inr tok" "wf_user user"
    and "\<bar>Unix (now + timeout)\<bar> < 2 ^ 63" "Unix (now + timeout) \<noteq> 0"
    and "grpc_token ctx = Some tok" "http_token r = Some tok" "req_URL r = method"
    and "mw = NewAuthInterceptor (Verify L manager later) (Allowed S st)"
  shows "(Unix later < Unix (now + timeout) \<longrightarrow>
      (authorize mw ctx method = None \<longleftrightarrow> Authorized S st method (user_Role user) \<or> Authorized S st method RoleNone) \<and>
      (JWT mw serve r = Served (serve r) \<longleftrightarrow> Authorized S st method (user_Role user) \<or> Authorized S st method RoleNone)) \<and>
    (Unix (now + timeout) < Unix later \<longrightarrow>
      (authorize mw ctx method = None \<longleftrightarrow> Authorized S st method RoleNone) \<and>
      (JWT mw serve r = Served (serve r) \<longleftrightarrow> Authorized S st method RoleNone))"
proof -
  have mw: "mw = \<lparr>jm = Verify L manager later, am = Allowed S st\<rparr>"
    using assms(9) by (simp add: NewAuthInterceptor_def)
  let ?g = "grants mw method (Some tok)"
  have both: "authorize mw ctx method = None \<longleftrightarrow> ?g" "JWT mw serve r = Served (serve r) \<longleftrightarrow> ?g"
    using assms(6-8) by (auto simp: authorize_grants JWT_grants split: option.splits)
  have g: "?g \<longleftrightarrow> Authorized S st method RoleNone \<or>
      (\<exists>c. Verify L manager later tok = Inr c \<and> Authorized S st method (uc_Role c))"
    unfolding mw gate.grants_authorized by simp
  have "?g \<longleftrightarrow> Authorized S st method (user_Role user) \<or> Authorized S st method RoleNone"
    if "Unix later < Unix (now + timeout)"
    using Verify_by_clock(1) [OF assms(1-5) that] unfolding g by auto
  moreover have "?g \<longleftrightarrow> Authorized S st method RoleNone" if "Unix (now + timeout) < Unix later"
    using Verify_by_clock(2) [OF assms(1-5) that] unfolding g by auto
  ultimately show ?thesis unfolding both by blast
qed

theorem issued_token_access_witness:
  "\<exists>tok. authorize (NewAuthInterceptor (Verify sample_jwt \<lparr>secretKey = ''s''\<rparr> 9000000000)
      (Allowed bytes_store (fst (Configure bytes_store [] ''/m'' AuthRead)))) (Some [(''authorization'', [tok])]) ''/m'' = None"
proof -
  obtain tok where t: "Generate sample_jwt \<lparr>secretKey = ''s''\<rparr> 5000000000 sample_user 60000000000 = Inr tok"
    using sample_token by blast
  let ?st = "fst (Configure bytes_store [] ''/m'' AuthRead)"
  let ?r = "\<lparr>req_URL = ''/m'', req_Header = [(''Authorization'', [''Bearer '' @ tok])]\<rparr>"
  have a: "Authorized bytes_store ?st ''/m'' (user_Role sample_user)"
  proof -
    obtain st where c: "Configure bytes_store [] ''/m'' AuthRead = (st, None)"
      by (simp add: Configure_def aclMap_def role_defs bytes_store_def)
    show ?thesis unfolding c fst_conv
      by (rule Configure_policy [OF bytes_store_ok c])
        (auto simp: Authorized_policy policy_allows_def sample_user_def aclMap_def role_defs level_defs)
  qed
  have sp: "CHR '' '' \<notin> set tok" if "Generate sample_jwt \<lparr>secretKey = ''s''\<rparr> 5000000000 sample_user 60000000000 = Inr tok"
    using that by (auto simp: Generate_def claims_json_def user_claims_def sample_user_def sample_jwt_def
        zero_claims_def SigningMethodHS256_def str_field_def int_field_def Unix_def print_str_def
        escape_char_def dq_def bslash_def int_str_def nat_str.simps digit_char_def char_of_def bit_0)
  have h: "http_token ?r = Some tok" by (rule bearer_token [OF sp [OF t]]) simp
  from issued_token_access [OF sample_jwt_ok t sample_user_wf _ _ _ h _ refl, of "Some [(''authorization'', [tok])]" "''/m''" 9000000000 bytes_store ?st]
    a show ?thesis by (auto simp: Unix_def grpc_token_def)
qed

end
